(* ===== verification/Prelude.thy ===== *)
theory Prelude
  imports
    Main
    "HOL-Library.Word"
    "HOL-Library.Monad_Syntax"
    "HOL-Library.AList"
    "HOL-Library.Multiset"
    "HOL-Library.Sublist"
begin

text \<open>
  What every component of the development shares: the machine types of the Go sources, errors and
  panics as values, the pieces of Go's standard library that the code calls on bytes
  (\<^verbatim>\<open>encoding/binary\<close>, slicing, \<^verbatim>\<open>copy\<close>, \<^verbatim>\<open>io.ReadFull\<close>), and the interfaces of byte codecs.

  Conventions:
  \<^item> \<^verbatim>\<open>uint8\<close>, \<^verbatim>\<open>uint16\<close>, \<^verbatim>\<open>uint32\<close> are words of that width, so arithmetic wraps as in Go.
    \<^verbatim>\<open>int16\<close> is a 16-bit word as well: the conversions \<^verbatim>\<open>int16(x)\<close> and \<^verbatim>\<open>uint16(x)\<close> keep the bits.
  \<^item> A fixed-size array \<^verbatim>\<open>[n]byte\<close> is a byte list; the well-formedness predicate of the record
    that holds it says its length is \<^verbatim>\<open>n\<close>.
  \<^item> A computation that may panic has type \<^typ>\<open>'a option\<close>, and \<^const>\<open>None\<close> is the panic.
    A call that returns \<^verbatim>\<open>(T, error)\<close> has type \<open>go_error + 'a\<close>; one that may do both has
    type \<open>(go_error + 'a) option\<close>.
  \<^item> An error is its format string, and the error it wraps if any. The other format arguments
    are left out: nothing in the code depends on them.
\<close>

unbundle bit_operations_syntax

section \<open>Machine types\<close>

type_synonym byte = "8 word"
type_synonym bytes = "byte list"
type_synonym u8 = "8 word"
type_synonym u16 = "16 word"
type_synonym u32 = "32 word"
type_synonym i16 = "16 word"

section \<open>Errors\<close>

datatype go_error =
    EOF
  | UnexpectedEOF
  | SysErr nat
  | Errorf string
  | Wrapf string go_error

type_synonym 'a result = "go_error + 'a"
type_synonym 'a go = "(go_error + 'a) option"

section \<open>Collections of rewrite rules\<close>

named_theorems codec_simps \<open>unfolding of serialisers and parsers to byte lists\<close>
named_theorems wf_simps \<open>well-formedness predicates of the records of the model\<close>

section \<open>Slices\<close>

text \<open>\<^verbatim>\<open>xs[i]\<close>, \<^verbatim>\<open>xs[a:b]\<close> and \<^verbatim>\<open>xs[a:]\<close>: out of range is a panic.\<close>

definition idx :: "'a list \<Rightarrow> nat \<Rightarrow> 'a option" where
  "idx xs i = (if i < length xs then Some (xs ! i) else None)"

definition slice :: "'a list \<Rightarrow> nat \<Rightarrow> nat \<Rightarrow> 'a list option" where
  "slice xs a b = (if a \<le> b \<and> b \<le> length xs then Some (take (b - a) (drop a xs)) else None)"

definition slice_from :: "'a list \<Rightarrow> nat \<Rightarrow> 'a list option" where
  "slice_from xs a = (if a \<le> length xs then Some (drop a xs) else None)"

text \<open>\<^verbatim>\<open>var dst [n]byte; copy(dst[:], src)\<close>: a fresh zeroed array, filled from the front.\<close>

definition copy_array :: "nat \<Rightarrow> bytes \<Rightarrow> bytes" where
  "copy_array n src = take n src @ replicate (n - length src) 0"

text \<open>\<^verbatim>\<open>copy(buf[a:b], src)\<close> for \<open>a \<le> b \<le> len(buf)\<close>: it writes \<open>min (b - a) (len src)\<close> bytes.\<close>

definition copy_into :: "bytes \<Rightarrow> nat \<Rightarrow> nat \<Rightarrow> bytes \<Rightarrow> bytes" where
  "copy_into buf a b src = take a buf @ take (b - a) src @ drop (a + min (b - a) (length src)) buf"

text \<open>\<^verbatim>\<open>strings.TrimRight(s, "\x00")\<close>.\<close>

definition TrimRight_nul :: "bytes \<Rightarrow> bytes" where
  "TrimRight_nul s = rev (dropWhile (\<lambda>b. b = 0) (rev s))"

section \<open>\<open>encoding/binary\<close>\<close>

definition LE_PutUint16 :: "u16 \<Rightarrow> bytes" where
  "LE_PutUint16 v = [ucast v, ucast (drop_bit 8 v)]"

definition LE_PutUint32 :: "u32 \<Rightarrow> bytes" where
  "LE_PutUint32 v =
     [ucast v, ucast (drop_bit 8 v), ucast (drop_bit 16 v), ucast (drop_bit 24 v)]"

definition BE_PutUint16 :: "u16 \<Rightarrow> bytes" where
  "BE_PutUint16 v = [ucast (drop_bit 8 v), ucast v]"

definition BE_PutUint32 :: "u32 \<Rightarrow> bytes" where
  "BE_PutUint32 v =
     [ucast (drop_bit 24 v), ucast (drop_bit 16 v), ucast (drop_bit 8 v), ucast v]"

fun LE_Uint16 :: "bytes \<Rightarrow> u16 option" where
  "LE_Uint16 (b0 # b1 # _) = Some (ucast b0 OR push_bit 8 (ucast b1))"
| "LE_Uint16 _ = None"

fun LE_Uint32 :: "bytes \<Rightarrow> u32 option" where
  "LE_Uint32 (b0 # b1 # b2 # b3 # _) =
     Some (ucast b0 OR push_bit 8 (ucast b1) OR push_bit 16 (ucast b2) OR push_bit 24 (ucast b3))"
| "LE_Uint32 _ = None"

fun BE_Uint16 :: "bytes \<Rightarrow> u16 option" where
  "BE_Uint16 (b0 # b1 # _) = Some (ucast b1 OR push_bit 8 (ucast b0))"
| "BE_Uint16 _ = None"

fun BE_Uint32 :: "bytes \<Rightarrow> u32 option" where
  "BE_Uint32 (b0 # b1 # b2 # b3 # _) =
     Some (ucast b3 OR push_bit 8 (ucast b2) OR push_bit 16 (ucast b1) OR push_bit 24 (ucast b0))"
| "BE_Uint32 _ = None"

section \<open>\<open>io.ReadFull\<close>\<close>

text \<open>
  A reader is the bytes it will still deliver and the error it ends with: \<^const>\<open>EOF\<close> for a file
  or a connection closed by its peer, another error for a timeout or a failing disk.
\<close>

definition read_full :: "nat \<Rightarrow> go_error \<Rightarrow> bytes \<Rightarrow> (bytes \<times> bytes) result" where
  "read_full n fin bs =
     (if n \<le> length bs then Inr (take n bs, drop n bs)
      else if fin = EOF \<and> bs \<noteq> [] then Inl UnexpectedEOF
      else Inl fin)"

section \<open>Lemmas on slices and readers\<close>

lemma idx_Some [simp]: "i < length xs \<Longrightarrow> idx xs i = Some (xs ! i)"
  by (simp add: idx_def)

lemma idx_0 [simp]: "xs \<noteq> [] \<Longrightarrow> idx xs 0 = Some (xs ! 0)"
  by (simp add: idx_def)

lemma idx_None [simp]: "length xs \<le> i \<Longrightarrow> idx xs i = None"
  by (simp add: idx_def)

lemma slice_Some [simp]:
  "a \<le> b \<Longrightarrow> b \<le> length xs \<Longrightarrow> slice xs a b = Some (take (b - a) (drop a xs))"
  by (simp add: slice_def)

lemma slice_from_Some [simp]: "a \<le> length xs \<Longrightarrow> slice_from xs a = Some (drop a xs)"
  by (simp add: slice_from_def)

lemma copy_array_exact [simp]: "length src = n \<Longrightarrow> copy_array n src = src"
  by (simp add: copy_array_def)

lemma length_copy_array [simp]: "length (copy_array n src) = n"
  by (simp add: copy_array_def)

lemma length_copy_into [simp]:
  "a \<le> b \<Longrightarrow> b \<le> length buf \<Longrightarrow> length (copy_into buf a b src) = length buf"
  by (auto simp: copy_into_def min_def)

lemma read_full_append [simp]: "length bs = n \<Longrightarrow> read_full n fin (bs @ rest) = Inr (bs, rest)"
  by (simp add: read_full_def)

lemma read_full_Inr:
  "read_full n fin bs = Inr (x, rest) \<longleftrightarrow> length x = n \<and> bs = x @ rest"
  by (auto simp: read_full_def)

lemma read_full_short:
  "length bs < n \<Longrightarrow> read_full n fin bs = Inl (if fin = EOF \<and> bs \<noteq> [] then UnexpectedEOF else fin)"
  by (auto simp: read_full_def)

lemma read_full_0 [simp]: "read_full 0 fin bs = Inr ([], bs)"
  by (simp add: read_full_def)

lemma take_eq_append_drop: "n \<le> length xs \<Longrightarrow> take n xs = ys \<Longrightarrow> xs = ys @ drop n xs"
  by auto

lemma length_ge_split: "n \<le> length xs \<Longrightarrow> \<exists>ys zs. xs = ys @ zs \<and> length ys = n"
  by (metis append_take_drop_id length_take min.absorb2)

text \<open>A record cut short: inside its header, or after a whole header and part of its data.\<close>

lemma strict_prefix_header:
  assumes "strict_prefix p (h @ d)"
  obtains (header) "length p < length h" | (data) q where "p = h @ q" "length q < length d" "strict_prefix q d"
proof -
  from assms obtain r where r: "h @ d = p @ r" "r \<noteq> []" by (auto simp: strict_prefix_def prefix_def)
  show ?thesis
  proof (cases "length p < length h")
    case False
    with r obtain q where q: "p = h @ q" by (auto simp: append_eq_append_conv2)
    with r have "d = q @ r" by simp
    with r q data show ?thesis by (auto simp: strict_prefix_def)
  qed (rule header)
qed

lemma strict_prefix_take: "n < length xs \<Longrightarrow> strict_prefix (take n xs) xs"
  by (metis length_take min_less_iff_conj nat_less_le strict_prefix_def take_is_prefix)

text \<open>Cutting input into fields, front to back: each rule gives the field and what is left.\<close>

lemma split_arr:
  "n + k \<le> length xs \<Longrightarrow> \<exists>ys zs. xs = ys @ zs \<and> length ys = n \<and> k \<le> length zs"
  by (rule exI [of _ "take n xs"], rule exI [of _ "drop n xs"]) auto

lemma split_u8: "1 + k \<le> length xs \<Longrightarrow> \<exists>b ys. xs = [b] @ ys \<and> k \<le> length ys"
  by (cases xs) auto

lemma split_byte: "1 \<le> length xs \<Longrightarrow> \<exists>b ys. xs = b # ys"
  by (cases xs) auto

text \<open>
  A buffer written front to back is the concatenation of what was written: \<open>buffer w n\<close> is a
  buffer whose first bytes are \<open>w\<close>, with \<open>n\<close> zeros still to be overwritten.
\<close>

definition buffer :: "bytes \<Rightarrow> nat \<Rightarrow> bytes" where
  "buffer w n = w @ replicate n 0"

lemma buffer_start:
  "length src = b \<Longrightarrow> b \<le> n \<Longrightarrow> copy_into (replicate n 0) 0 b src = buffer src (n - b)"
  by (simp add: copy_into_def buffer_def)

lemma buffer_copy:
  "length w = a \<Longrightarrow> a + length src = b \<Longrightarrow> length src \<le> n \<Longrightarrow>
   copy_into (buffer w n) a b src = buffer (w @ src) (n - length src)"
  by (auto simp: copy_into_def buffer_def)

lemma buffer_put:
  "length w = i \<Longrightarrow> 0 < n \<Longrightarrow> (buffer w n)[i := x] = buffer (w @ [x]) (n - 1)"
  by (cases n) (auto simp: buffer_def list_update_append)

lemma buffer_full: "buffer w 0 = w"
  by (simp add: buffer_def)

lemma buffer_start_put: "0 < n \<Longrightarrow> (replicate n 0)[0 := x] = buffer [x] (n - 1)"
  by (cases n) (auto simp: buffer_def)

lemmas buffer_simps = buffer_start buffer_start_put buffer_copy buffer_put buffer_full

section \<open>The interface of a fixed-width integer encoding\<close>

locale word_codec =
  fixes put :: "'w \<Rightarrow> bytes"
    and get :: "bytes \<Rightarrow> 'w option"
    and width :: nat
  assumes length_put: "length (put v) = width"
    and get_put: "get (put v @ rest) = Some v"
    and put_get: "length b = width \<Longrightarrow> get b = Some v \<Longrightarrow> put v = b"
    and get_total: "width \<le> length b \<Longrightarrow> get b \<noteq> None"
    and get_short: "length b < width \<Longrightarrow> get b = None"
begin

lemma get_put0: "get (put v) = Some v"
  using get_put [of v "[]"] by simp

lemma put_inject: "put v = put w \<longleftrightarrow> v = w"
  by (metis get_put0 option.inject)

lemma get_Some_iff: "(\<exists>v. get b = Some v) \<longleftrightarrow> width \<le> length b"
  by (metis get_short get_total leI not_None_eq)

lemma split_put:
  assumes "width \<le> length b"
  shows "\<exists>v rest. b = put v @ rest"
proof -
  from length_ge_split [OF assms] obtain ys zs where b: "b = ys @ zs" "length ys = width" by blast
  then obtain v where v: "get ys = Some v" using get_total [of ys] by auto
  with b have "put v = ys" by (simp add: put_get)
  with b show ?thesis by metis
qed

lemma split_field:
  assumes "width + k \<le> length b"
  shows "\<exists>v rest. b = put v @ rest \<and> k \<le> length rest"
proof -
  from assms split_put [of b] obtain v rest where "b = put v @ rest" by auto
  with assms show ?thesis by (auto simp: length_put)
qed

end

lemma word32_join:
  fixes v :: u32
  shows "ucast (ucast v :: byte) OR push_bit 8 (ucast (ucast (drop_bit 8 v) :: byte)) OR
         push_bit 16 (ucast (ucast (drop_bit 16 v) :: byte)) OR
         push_bit 24 (ucast (ucast (drop_bit 24 v) :: byte)) = v"
proof (rule bit_word_eqI)
  fix n assume "n < LENGTH(32)"
  then consider "n < 8" | "8 \<le> n" "n < 16" | "16 \<le> n" "n < 24" | "24 \<le> n" "n < 32"
    by fastforce
  then show "bit (ucast (ucast v :: byte) OR push_bit 8 (ucast (ucast (drop_bit 8 v) :: byte)) OR
         push_bit 16 (ucast (ucast (drop_bit 16 v) :: byte)) OR
         push_bit 24 (ucast (ucast (drop_bit 24 v) :: byte)) :: u32) n = bit v n"
    by cases (auto simp: bit_simps)
qed

lemma word32_split:
  fixes b0 b1 b2 b3 :: byte
  defines "v \<equiv> ucast b0 OR push_bit 8 (ucast b1) OR push_bit 16 (ucast b2) OR push_bit 24 (ucast b3) :: u32"
  shows "ucast v = b0" and "ucast (drop_bit 8 v) = b1" and "ucast (drop_bit 16 v) = b2"
    and "ucast (drop_bit 24 v) = b3"
  unfolding v_def by (rule bit_word_eqI; auto simp: bit_simps dest: bit_imp_le_length)+

interpretation le16: word_codec LE_PutUint16 LE_Uint16 2
proof unfold_locales
  show "LE_Uint16 (LE_PutUint16 v @ rest) = Some v" for v rest
    by (simp add: LE_PutUint16_def) (rule bit_word_eqI, auto simp: bit_simps)
  show "LE_PutUint16 v = b" if "length b = 2" "LE_Uint16 b = Some v" for b v
    using that
    by (auto simp: LE_PutUint16_def numeral_2_eq_2 length_Suc_conv)
       (rule bit_word_eqI; auto simp: bit_simps dest: bit_imp_le_length)+
  show "LE_Uint16 b \<noteq> None" if "2 \<le> length b" for b
    using that by (cases b rule: LE_Uint16.cases) auto
  show "LE_Uint16 b = None" if "length b < 2" for b
    using that by (cases b rule: LE_Uint16.cases) auto
qed (simp add: LE_PutUint16_def)

interpretation be16: word_codec BE_PutUint16 BE_Uint16 2
proof unfold_locales
  show "BE_Uint16 (BE_PutUint16 v @ rest) = Some v" for v rest
    by (simp add: BE_PutUint16_def) (rule bit_word_eqI, auto simp: bit_simps)
  show "BE_PutUint16 v = b" if "length b = 2" "BE_Uint16 b = Some v" for b v
    using that
    by (auto simp: BE_PutUint16_def numeral_2_eq_2 length_Suc_conv)
       (rule bit_word_eqI; auto simp: bit_simps dest: bit_imp_le_length)+
  show "BE_Uint16 b \<noteq> None" if "2 \<le> length b" for b
    using that by (cases b rule: BE_Uint16.cases) auto
  show "BE_Uint16 b = None" if "length b < 2" for b
    using that by (cases b rule: BE_Uint16.cases) auto
qed (simp add: BE_PutUint16_def)

interpretation le32: word_codec LE_PutUint32 LE_Uint32 4
proof unfold_locales
  show "LE_Uint32 (LE_PutUint32 v @ rest) = Some v" for v rest
    by (simp add: LE_PutUint32_def word32_join)
  show "LE_PutUint32 v = b" if "length b = 4" "LE_Uint32 b = Some v" for b v
    using that
    by (cases b rule: LE_Uint32.cases) (auto simp: LE_PutUint32_def word32_split simp del: drop_bit_or)
  show "LE_Uint32 b \<noteq> None" if "4 \<le> length b" for b
    using that by (cases b rule: LE_Uint32.cases) auto
  show "LE_Uint32 b = None" if "length b < 4" for b
    using that by (cases b rule: LE_Uint32.cases) auto
qed (simp add: LE_PutUint32_def)

interpretation be32: word_codec BE_PutUint32 BE_Uint32 4
proof unfold_locales
  show "BE_Uint32 (BE_PutUint32 v @ rest) = Some v" for v rest
    by (simp add: BE_PutUint32_def word32_join)
  show "BE_PutUint32 v = b" if "length b = 4" "BE_Uint32 b = Some v" for b v
    using that
    by (cases b rule: BE_Uint32.cases) (auto simp: BE_PutUint32_def word32_split simp del: drop_bit_or)
  show "BE_Uint32 b \<noteq> None" if "4 \<le> length b" for b
    using that by (cases b rule: BE_Uint32.cases) auto
  show "BE_Uint32 b = None" if "length b < 4" for b
    using that by (cases b rule: BE_Uint32.cases) auto
qed (simp add: BE_PutUint32_def)

end
