(* ===== verification/Interfaces.thy ===== *)
theory Interfaces
  imports Prelude
begin

text \<open>
  The contracts that several components provide: a message codec (a serialiser and the parser
  that reads it back), a stream of frames on a connection, and a log of records on disk that is
  read back when it is opened. Each contract is a locale, its consequences are proved once here,
  and the components interpret it on their own definitions.
\<close>

section \<open>Message codecs\<close>

text \<open>
  A parser never panics, refuses input shorter than \<open>minlen\<close>, and reads back what the serialiser
  wrote, whatever follows it.
\<close>

locale msg_codec =
  fixes ser :: "'m \<Rightarrow> bytes"
    and parse :: "bytes \<Rightarrow> 'm go"
    and wf :: "'m \<Rightarrow> bool"
    and minlen :: nat
  assumes parse_ser: "wf m \<Longrightarrow> parse (ser m @ rest) = Some (Inr m)"
    and parse_wf: "parse d = Some (Inr m) \<Longrightarrow> wf m"
    and parse_no_panic: "parse d \<noteq> None"
    and parse_short: "length d < minlen \<Longrightarrow> \<exists>e. parse d = Some (Inl e)"
begin

lemma parse_ser0: "wf m \<Longrightarrow> parse (ser m) = Some (Inr m)"
  using parse_ser [of m "[]"] by simp

lemma ser_length: "wf m \<Longrightarrow> minlen \<le> length (ser m)"
  using parse_short [of "ser m"] parse_ser0 [of m] by (cases "length (ser m) < minlen") auto

lemma ser_prefix_free:
  assumes "wf m" "wf m'" "ser m @ r = ser m' @ r'"
  shows "m = m'"
  by (metis (no_types) assms parse_ser option.inject sum.inject(2))

lemma ser_inject: "wf m \<Longrightarrow> wf m' \<Longrightarrow> ser m = ser m' \<longleftrightarrow> m = m'"
  using ser_prefix_free [of m m' "[]" "[]"] by auto

lemma parse_cases:
  obtains (error) e where "parse d = Some (Inl e)" | (ok) m where "parse d = Some (Inr m)" "wf m"
  using parse_no_panic [of d] parse_wf [of d] by (cases "parse d") (metis not_None_eq obj_sumE)+

end

text \<open>A codec without redundancy: what the parser accepts starts with the message's own bytes.\<close>

locale exact_codec = msg_codec +
  assumes ser_parse: "parse d = Some (Inr m) \<Longrightarrow> ser m = take (length (ser m)) d"
begin

lemma parse_Inr_iff: "parse d = Some (Inr m) \<longleftrightarrow> wf m \<and> (\<exists>rest. d = ser m @ rest)"
proof
  assume "parse d = Some (Inr m)"
  then have "wf m" and "d = ser m @ drop (length (ser m)) d"
    using parse_wf ser_parse append_take_drop_id [of "length (ser m)" d] by fastforce+
  then show "wf m \<and> (\<exists>rest. d = ser m @ rest)" by blast
qed (use parse_ser in blast)

end

text \<open>
  The way to prove it for a record layout: whatever the parser does not refuse is the
  serialisation of some message, followed by bytes it ignores.
\<close>

locale layout_codec =
  fixes ser :: "'m \<Rightarrow> bytes"
    and parse :: "bytes \<Rightarrow> 'm go"
    and wf :: "'m \<Rightarrow> bool"
    and minlen :: nat
  assumes layout_parse_ser: "wf m \<Longrightarrow> parse (ser m @ rest) = Some (Inr m)"
    and layout_short: "length d < minlen \<Longrightarrow> \<exists>e. parse d = Some (Inl e)"
    and layout_cover: "minlen \<le> length d \<Longrightarrow>
      (\<exists>e. parse d = Some (Inl e)) \<or> (\<exists>m rest. wf m \<and> d = ser m @ rest)"
begin

lemma layout_cases:
  obtains (error) e where "parse d = Some (Inl e)"
  | (ok) m rest where "wf m" "d = ser m @ rest" "parse d = Some (Inr m)"
  by (metis layout_cover layout_parse_ser layout_short not_le)

end

sublocale layout_codec \<subseteq> exact_codec
proof unfold_locales
  show "parse d \<noteq> None" for d by (cases d rule: layout_cases) auto
  show "wf m" if "parse d = Some (Inr m)" for d m using that by (cases d rule: layout_cases) auto
  show "ser m = take (length (ser m)) d" if "parse d = Some (Inr m)" for d m
    using that by (cases d rule: layout_cases) auto
qed (use layout_parse_ser layout_short in auto)

section \<open>Frames on a connection\<close>

text \<open>
  Reading frame after frame until the reader fails: the frames and the error at the end. Running
  out of fuel is \<^term>\<open>([], None)\<close>; one more than the number of frames is enough.
\<close>

fun read_frames :: "(bytes \<Rightarrow> ('a \<times> bytes) go) \<Rightarrow> nat \<Rightarrow> bytes \<Rightarrow> ('a list \<times> go_error option) option" where
  "read_frames recv 0 bs = Some ([], None)"
| "read_frames recv (Suc fuel) bs =
     (case recv bs of
        None \<Rightarrow> None
      | Some (Inl e) \<Rightarrow> Some ([], Some e)
      | Some (Inr (x, rest)) \<Rightarrow> map_option (\<lambda>(xs, e). (x # xs, e)) (read_frames recv fuel rest))"

text \<open>
  \<open>recv fin\<close> reads one frame from a reader that ends with \<open>fin\<close>. A frame sent is the frame read;
  at a frame boundary the reader's own error comes through; inside a frame it is some error.
\<close>

locale framed_stream =
  fixes frame :: "'a \<Rightarrow> bytes"
    and recv :: "go_error \<Rightarrow> bytes \<Rightarrow> ('a \<times> bytes) go"
    and ok :: "'a \<Rightarrow> bool"
  assumes recv_frame: "ok x \<Longrightarrow> recv fin (frame x @ rest) = Some (Inr (x, rest))"
    and recv_nil: "recv fin [] = Some (Inl fin)"
    and recv_torn: "ok x \<Longrightarrow> strict_prefix p (frame x) \<Longrightarrow> \<exists>e. recv fin p = Some (Inl e)"
begin

lemma frame_nonempty: "ok x \<Longrightarrow> frame x \<noteq> []"
  using recv_frame [of x EOF "[]"] recv_nil [of EOF] by auto

text \<open>Every stream of frames is read back whole and in order, then the reader's error.\<close>

lemma read_frames_concat:
  "\<forall>x\<in>set xs. ok x \<Longrightarrow> length xs < fuel \<Longrightarrow>
   read_frames (recv fin) fuel (concat (map frame xs)) = Some (xs, Some fin)"
proof (induction xs arbitrary: fuel)
  case Nil
  then show ?case by (cases fuel) (auto simp: recv_nil)
next
  case (Cons x xs)
  then obtain k where "fuel = Suc k" "length xs < k" by (cases fuel) auto
  with Cons show ?case by (simp add: recv_frame)
qed

text \<open>A stream cut inside a frame loses that frame only, and the reader reports an error.\<close>

lemma read_frames_torn:
  "\<forall>x\<in>set xs. ok x \<Longrightarrow> ok y \<Longrightarrow> strict_prefix p (frame y) \<Longrightarrow> length xs < fuel \<Longrightarrow>
   \<exists>e. read_frames (recv fin) fuel (concat (map frame xs) @ p) = Some (xs, Some e)"
proof (induction xs arbitrary: fuel)
  case Nil
  then obtain k where "fuel = Suc k" by (cases fuel) auto
  with Nil recv_torn [of y p fin] show ?case by auto
next
  case (Cons x xs)
  then obtain k where k: "fuel = Suc k" "length xs < k" by (cases fuel) auto
  with Cons obtain e where "read_frames (recv fin) k (concat (map frame xs) @ p) = Some (xs, Some e)"
    by auto
  with k Cons.prems show ?case by (simp add: recv_frame)
qed

lemma frame_prefix_free: "ok x \<Longrightarrow> ok y \<Longrightarrow> frame x @ r = frame y @ r' \<Longrightarrow> x = y \<and> r = r'"
  by (metis recv_frame sum.inject(2) prod.inject option.inject)

end

section \<open>A log of records on disk\<close>

text \<open>
  \<open>load s bs\<close> applies the records in \<open>bs\<close> into the state \<open>s\<close>. A whole record is one \<open>replay\<close>;
  a record cut short makes the load fail.
\<close>

locale record_log =
  fixes rec :: "'r \<Rightarrow> bytes"
    and replay :: "'s \<Rightarrow> 'r \<Rightarrow> 's"
    and load :: "'s \<Rightarrow> bytes \<Rightarrow> 's go"
    and ok :: "'r \<Rightarrow> bool"
  assumes load_nil: "load s [] = Some (Inr s)"
    and load_rec: "ok r \<Longrightarrow> load s (rec r @ rest) = load (replay s r) rest"
    and load_torn: "ok r \<Longrightarrow> strict_prefix p (rec r) \<Longrightarrow> p \<noteq> [] \<Longrightarrow> \<exists>e. load s p = Some (Inl e)"
begin

lemma load_records:
  "\<forall>r\<in>set rs. ok r \<Longrightarrow> load s (concat (map rec rs) @ rest) = load (foldl replay s rs) rest"
  by (induction rs arbitrary: s) (auto simp: load_rec)

text \<open>A log of whole records loads to the state in which all of them were applied in order.\<close>

lemma load_log: "\<forall>r\<in>set rs. ok r \<Longrightarrow> load s (concat (map rec rs)) = Some (Inr (foldl replay s rs))"
  using load_records [of rs s "[]"] by (simp add: load_nil)

text \<open>A log whose last record is incomplete does not load.\<close>

lemma load_log_torn:
  "\<forall>r\<in>set rs. ok r \<Longrightarrow> ok r' \<Longrightarrow> strict_prefix p (rec r') \<Longrightarrow> p \<noteq> [] \<Longrightarrow>
   \<exists>e. load s (concat (map rec rs) @ p) = Some (Inl e)"
  by (simp add: load_records load_torn)

end

section \<open>Runs of a step relation\<close>

text \<open>What every step keeps, every run keeps.\<close>

locale step_invariant =
  fixes step :: "'s \<Rightarrow> 's \<Rightarrow> bool"
    and inv :: "'s \<Rightarrow> bool"
  assumes step_inv: "step s s' \<Longrightarrow> inv s \<Longrightarrow> inv s'"
begin

lemma steps_inv: "step\<^sup>*\<^sup>* s s' \<Longrightarrow> inv s \<Longrightarrow> inv s'"
  by (induction rule: rtranclp_induct) (auto intro: step_inv)

end

text \<open>
  A system that can always come to rest: unless it is at rest, some step leaves less work to do. The
  steps of the others may come in between, as long as they keep the invariant.
\<close>

locale progress = step_invariant +
  fixes rest :: "'a \<Rightarrow> bool"
    and work :: "'a \<Rightarrow> nat"
  assumes advance: "inv s \<Longrightarrow> \<not> rest s \<Longrightarrow> \<exists>s'. step s s' \<and> work s' < work s"
begin

lemma comes_to_rest: "inv s \<Longrightarrow> \<exists>s'. step\<^sup>*\<^sup>* s s' \<and> rest s' \<and> inv s'"
proof (induction "work s" arbitrary: s rule: less_induct)
  case less
  show ?case
  proof (cases "rest s")
    case False
    then obtain s1 where s1: "step s s1" "work s1 < work s" using advance less.prems by blast
    from less.hyps [OF s1(2) step_inv [OF s1(1) less.prems]] s1(1) show ?thesis
      by (blast intro: converse_rtranclp_into_rtranclp)
  qed (use less.prems in blast)
qed

text \<open>So it is never stuck before it is at rest.\<close>

lemma not_stuck: "step\<^sup>*\<^sup>* s s' \<Longrightarrow> inv s \<Longrightarrow> rest s' \<or> (\<exists>s''. step s' s'')"
  using steps_inv advance by blast

end

end
