(* ===== verification/WalEntry.thy ===== *)
theory WalEntry
  imports Interfaces
begin

text \<open>
  The entries of the write-ahead log: the types of \<^verbatim>\<open>shared/wal/types.go\<close>, the binary format of
  \<^verbatim>\<open>shared/wal/serialize.go\<close> and the deduplication key of \<^verbatim>\<open>shared/wal/key.go\<close>. Shown: the format
  reads back what it writes and never panics, and two entries have the same key exactly when they
  agree on the fields that identify the item or the event.
\<close>

section \<open>Types\<close>

definition WalItem :: u8 where "WalItem = 0x01"
definition WalEvent :: u8 where "WalEvent = 0x02"

record WalEntryItem =
  item_To :: u8
  item_Game :: u8
  item_GI :: u16
  item_Flags :: u16
  item_Key :: u32
  item_Nonce :: u32

record WalEntryEvent =
  event_ID :: u32

record WalEntry =
  entry_Type :: u8
  entry_PlayerID :: bytes
  entry_PlayerName :: bytes
  entry_From :: u8
  entry_Item :: WalEntryItem
  entry_Event :: WalEntryEvent

text \<open>The zero values of Go's \<^verbatim>\<open>var\<close> declarations.\<close>

definition zero_item :: WalEntryItem where
  "zero_item = \<lparr>item_To = 0, item_Game = 0, item_GI = 0, item_Flags = 0, item_Key = 0, item_Nonce = 0\<rparr>"

definition zero_event :: WalEntryEvent where
  "zero_event = \<lparr>event_ID = 0\<rparr>"

definition zero_entry :: WalEntry where
  "zero_entry = \<lparr>entry_Type = 0, entry_PlayerID = replicate 16 0, entry_PlayerName = replicate 8 0,
     entry_From = 0, entry_Item = zero_item, entry_Event = zero_event\<rparr>"

text \<open>
  An entry as the code builds it: the arrays have their size, the type is one of the two, and the
  part that the type does not use is left at its zero value.
\<close>

definition wf_entry :: "WalEntry \<Rightarrow> bool" where
  "wf_entry e \<longleftrightarrow> length (entry_PlayerID e) = 16 \<and> length (entry_PlayerName e) = 8 \<and>
     (entry_Type e = WalItem \<and> entry_Event e = zero_event \<or>
      entry_Type e = WalEvent \<and> entry_Item e = zero_item)"

section \<open>Operations\<close>

definition Parse :: "bytes \<Rightarrow> WalEntry go" where
  "Parse data =
     (if length data < 26 then Some (Inl (Errorf ''WAL entry too short''))
      else do {
        ty \<leftarrow> idx data 0;
        pid \<leftarrow> slice data 1 17;
        pname \<leftarrow> slice data 17 25;
        from \<leftarrow> idx data 25;
        let entry = zero_entry\<lparr>entry_Type := ty, entry_PlayerID := copy_array 16 pid,
          entry_PlayerName := copy_array 8 pname, entry_From := from\<rparr>;
        if ty = WalItem then
          (if length data < 40 then Some (Inl (Errorf ''WAL item entry too short''))
           else do {
             to \<leftarrow> idx data 26;
             game \<leftarrow> idx data 27;
             gi \<leftarrow> slice data 28 30 \<bind> LE_Uint16;
             flags \<leftarrow> slice data 30 32 \<bind> LE_Uint16;
             key \<leftarrow> slice data 32 36 \<bind> LE_Uint32;
             nonce \<leftarrow> slice data 36 40 \<bind> LE_Uint32;
             Some (Inr (entry\<lparr>entry_Item := \<lparr>item_To = to, item_Game = game, item_GI = gi,
               item_Flags = flags, item_Key = key, item_Nonce = nonce\<rparr>\<rparr>))
           })
        else if ty = WalEvent then
          (if length data < 30 then Some (Inl (Errorf ''WAL event entry too short''))
           else do {
             ident \<leftarrow> slice data 26 30 \<bind> LE_Uint32;
             Some (Inr (entry\<lparr>entry_Event := \<lparr>event_ID = ident\<rparr>\<rparr>))
           })
        else Some (Inl (Errorf ''unknown WAL entry type: %d''))
      })"

definition Serialize :: "WalEntry \<Rightarrow> bytes result" where
  "Serialize e =
     (let buf = [];
          buf = buf @ [entry_Type e];
          buf = buf @ entry_PlayerID e;
          buf = buf @ entry_PlayerName e;
          buf = buf @ [entry_From e]
      in if entry_Type e = WalItem then
           let buf = buf @ [item_To (entry_Item e)];
               buf = buf @ [item_Game (entry_Item e)];
               buf = buf @ LE_PutUint16 (item_GI (entry_Item e));
               buf = buf @ LE_PutUint16 (item_Flags (entry_Item e));
               buf = buf @ LE_PutUint32 (item_Key (entry_Item e));
               buf = buf @ LE_PutUint32 (item_Nonce (entry_Item e))
           in Inr buf
         else if entry_Type e = WalEvent then
           Inr (buf @ LE_PutUint32 (event_ID (entry_Event e)))
         else Inl (Errorf ''unknown WAL entry type: %d''))"

definition DedupKey :: "WalEntry \<Rightarrow> bytes result" where
  "DedupKey w =
     (let key = replicate 16 0;
          key = key[0 := entry_Type w];
          key = key[1 := entry_From w]
      in if entry_Type w = WalItem then
           let key = key[2 := item_Game (entry_Item w)];
               key = copy_into key 3 7 (LE_PutUint32 (item_Key (entry_Item w)));
               key = copy_into key 7 11 (LE_PutUint32 (item_Nonce (entry_Item w)))
           in Inr key
         else if entry_Type w = WalEvent then
           Inr (copy_into key 2 6 (LE_PutUint32 (event_ID (entry_Event w))))
         else Inl (Errorf ''unknown WAL entry type: %d''))"

text \<open>The bytes of an entry that serialises, and its key, as total functions.\<close>

definition entry_bytes :: "WalEntry \<Rightarrow> bytes" where
  "entry_bytes e = (case Serialize e of Inr b \<Rightarrow> b | Inl _ \<Rightarrow> [])"

definition entry_key :: "WalEntry \<Rightarrow> bytes" where
  "entry_key e = (case DedupKey e of Inr k \<Rightarrow> k | Inl _ \<Rightarrow> [])"

text \<open>What identifies an entry for deduplication.\<close>

datatype ident =
    ItemIdent u8 u8 u32 u32
  | EventIdent u8 u32

definition entry_ident :: "WalEntry \<Rightarrow> ident" where
  "entry_ident e =
     (if entry_Type e = WalItem
      then ItemIdent (entry_From e) (item_Game (entry_Item e)) (item_Key (entry_Item e))
             (item_Nonce (entry_Item e))
      else EventIdent (entry_From e) (event_ID (entry_Event e)))"

text \<open>Two entries for concrete runs: an item for world 2 and an event.\<close>

definition example_item :: WalEntry where
  "example_item = \<lparr>entry_Type = WalItem, entry_PlayerID = replicate 16 7,
     entry_PlayerName = [76, 105, 110, 107, 0, 0, 0, 0], entry_From = 1,
     entry_Item = \<lparr>item_To = 2, item_Game = 0, item_GI = 0x51, item_Flags = 0, item_Key = 0x01020304,
       item_Nonce = 0\<rparr>,
     entry_Event = zero_event\<rparr>"

definition example_event :: WalEntry where
  "example_event = \<lparr>entry_Type = WalEvent, entry_PlayerID = replicate 16 9,
     entry_PlayerName = replicate 8 65, entry_From = 2, entry_Item = zero_item,
     entry_Event = \<lparr>event_ID = 0x10\<rparr>\<rparr>"

section \<open>The binary format\<close>

lemma wal_types [simp]:
  "WalItem \<noteq> WalEvent" "WalEvent \<noteq> WalItem"
  by (simp_all add: WalItem_def WalEvent_def)

lemma wf_entry_cases:
  assumes "wf_entry e"
  obtains (item) "entry_Type e = WalItem" "entry_Event e = zero_event"
      "length (entry_PlayerID e) = 16" "length (entry_PlayerName e) = 8"
  | (event) "entry_Type e = WalEvent" "entry_Item e = zero_item"
      "length (entry_PlayerID e) = 16" "length (entry_PlayerName e) = 8"
  using assms by (auto simp: wf_entry_def)

lemma Serialize_item:
  "entry_Type e = WalItem \<Longrightarrow> Serialize e = Inr ([WalItem] @ entry_PlayerID e @ entry_PlayerName e @
     [entry_From e, item_To (entry_Item e), item_Game (entry_Item e)] @
     LE_PutUint16 (item_GI (entry_Item e)) @ LE_PutUint16 (item_Flags (entry_Item e)) @
     LE_PutUint32 (item_Key (entry_Item e)) @ LE_PutUint32 (item_Nonce (entry_Item e)))"
  by (simp add: Serialize_def Let_def)

lemma Serialize_event:
  "entry_Type e = WalEvent \<Longrightarrow> Serialize e = Inr ([WalEvent] @ entry_PlayerID e @ entry_PlayerName e @
     [entry_From e] @ LE_PutUint32 (event_ID (entry_Event e)))"
  by (simp add: Serialize_def Let_def)

lemma Serialize_ok: "wf_entry e \<Longrightarrow> Serialize e = Inr (entry_bytes e)"
  by (erule wf_entry_cases) (simp_all add: entry_bytes_def Serialize_item Serialize_event)

lemma Serialize_Inl_iff:
  "Serialize e = Inl x \<longleftrightarrow> entry_Type e \<noteq> WalItem \<and> entry_Type e \<noteq> WalEvent \<and>
     x = Errorf ''unknown WAL entry type: %d''"
  by (auto simp: Serialize_def Let_def)

lemma length_entry_bytes:
  "wf_entry e \<Longrightarrow> length (entry_bytes e) = (if entry_Type e = WalItem then 40 else 30)"
  by (erule wf_entry_cases)
    (simp_all add: entry_bytes_def Serialize_item Serialize_event le16.length_put le32.length_put)

lemma Parse_item:
  assumes "length pid = 16" "length pname = 8"
  shows "Parse ([WalItem] @ pid @ pname @ [from, to, game] @ LE_PutUint16 gi @ LE_PutUint16 flags @
      LE_PutUint32 key @ LE_PutUint32 nonce @ rest) =
    Some (Inr \<lparr>entry_Type = WalItem, entry_PlayerID = pid, entry_PlayerName = pname,
      entry_From = from, entry_Item = \<lparr>item_To = to, item_Game = game, item_GI = gi,
      item_Flags = flags, item_Key = key, item_Nonce = nonce\<rparr>, entry_Event = zero_event\<rparr>)"
  using assms
  by (simp add: Parse_def zero_entry_def nth_append drop_Cons' nth_Cons' le16.length_put
      le32.length_put le16.get_put0 le32.get_put0)

lemma Parse_event:
  assumes "length pid = 16" "length pname = 8"
  shows "Parse ([WalEvent] @ pid @ pname @ [from] @ LE_PutUint32 ident @ rest) =
    Some (Inr \<lparr>entry_Type = WalEvent, entry_PlayerID = pid, entry_PlayerName = pname,
      entry_From = from, entry_Item = zero_item, entry_Event = \<lparr>event_ID = ident\<rparr>\<rparr>)"
  using assms
  by (simp add: Parse_def zero_entry_def nth_append drop_Cons' nth_Cons' le32.length_put
      le32.get_put0)

lemma Parse_entry_bytes: "wf_entry e \<Longrightarrow> Parse (entry_bytes e @ rest) = Some (Inr e)"
  by (erule wf_entry_cases)
    (simp_all add: entry_bytes_def Serialize_item Serialize_event Parse_item [simplified] Parse_event [simplified])

text \<open>Input long enough for its type is the serialisation of an entry.\<close>

lemma wal_layout_head:
  assumes "26 \<le> length d"
  obtains ty pid pname fr rest where "d = [ty] @ pid @ pname @ [fr] @ rest"
    "length pid = 16" "length pname = 8" "length d = 26 + length rest"
proof -
  from assms obtain ty d1 where d1: "d = ty # d1" "25 \<le> length d1" by (cases d) auto
  from length_ge_split [of 16 d1] d1 obtain pid d2 where d2: "d1 = pid @ d2" "length pid = 16" by auto
  from length_ge_split [of 8 d2] d1 d2 obtain pname d3 where d3: "d2 = pname @ d3" "length pname = 8"
    by auto
  from d1 d2 d3 obtain fr rest where "d3 = fr # rest" by (cases d3) auto
  with d1 d2 d3 that show ?thesis by auto
qed

lemma wal_layout_item:
  assumes "14 \<le> length d"
  shows "\<exists>to game gi flags key nonce rest. d = [to, game] @ LE_PutUint16 gi @ LE_PutUint16 flags @
      LE_PutUint32 key @ LE_PutUint32 nonce @ rest"
proof -
  from split_byte [of d] assms obtain to d1 where d1: "d = to # d1" by auto
  from split_byte [of d1] assms d1 obtain game d2 where d2: "d1 = game # d2" by auto
  from le16.split_put [of d2] assms d1 d2 obtain gi d3 where d3: "d2 = LE_PutUint16 gi @ d3"
    by (auto simp: le16.length_put le32.length_put)
  from le16.split_put [of d3] assms d1 d2 d3 obtain flags d4 where d4: "d3 = LE_PutUint16 flags @ d4"
    by (auto simp: le16.length_put le32.length_put)
  from le32.split_put [of d4] assms d1 d2 d3 d4 obtain key d5 where d5: "d4 = LE_PutUint32 key @ d5"
    by (auto simp: le16.length_put le32.length_put)
  from le32.split_put [of d5] assms d1 d2 d3 d4 d5 obtain nonce d6 where d6: "d5 = LE_PutUint32 nonce @ d6"
    by (auto simp: le16.length_put le32.length_put)
  from d1 d2 d3 d4 d5 d6 show ?thesis by (metis append_Cons append_Nil)
qed

lemma Parse_short: "length d < 26 \<Longrightarrow> Parse d = Some (Inl (Errorf ''WAL entry too short''))"
  by (simp add: Parse_def)

lemma Parse_refuses:
  assumes "26 \<le> length d" "d ! 0 = WalItem \<Longrightarrow> length d < 40" "d ! 0 = WalEvent \<Longrightarrow> length d < 30"
  shows "\<exists>e. Parse d = Some (Inl e)"
proof -
  from assms(1) have "d \<noteq> []" by auto
  with assms show ?thesis by (auto simp: Parse_def Let_def)
qed

lemma Parse_cover:
  assumes "26 \<le> length d"
  shows "(\<exists>e. Parse d = Some (Inl e)) \<or> (\<exists>e rest. wf_entry e \<and> d = entry_bytes e @ rest)"
proof -
  obtain ty pid pname fr rest where d: "d = [ty] @ pid @ pname @ [fr] @ rest"
    and len: "length pid = 16" "length pname = 8" "length d = 26 + length rest"
    by (rule wal_layout_head [OF assms])
  consider "ty = WalItem" "14 \<le> length rest" | "ty = WalEvent" "4 \<le> length rest"
    | "\<exists>e. Parse d = Some (Inl e)"
    using Parse_refuses [OF assms] d len by fastforce
  then show ?thesis
  proof cases
    case 1
    with wal_layout_item [of rest] obtain to game gi flags key nonce r where r: "rest = [to, game] @
      LE_PutUint16 gi @ LE_PutUint16 flags @ LE_PutUint32 key @ LE_PutUint32 nonce @ r" by blast
    let ?e = "\<lparr>entry_Type = WalItem, entry_PlayerID = pid, entry_PlayerName = pname,
      entry_From = fr, entry_Item = \<lparr>item_To = to, item_Game = game, item_GI = gi,
      item_Flags = flags, item_Key = key, item_Nonce = nonce\<rparr>, entry_Event = zero_event\<rparr>"
    have "wf_entry ?e \<and> d = entry_bytes ?e @ r"
      using 1 d len r by (simp add: wf_entry_def entry_bytes_def Serialize_item)
    then show ?thesis by blast
  next
    case 2
    then obtain ident r where r: "rest = LE_PutUint32 ident @ r" using le32.split_put by blast
    let ?e = "\<lparr>entry_Type = WalEvent, entry_PlayerID = pid, entry_PlayerName = pname,
      entry_From = fr, entry_Item = zero_item, entry_Event = \<lparr>event_ID = ident\<rparr>\<rparr>"
    have "wf_entry ?e \<and> d = entry_bytes ?e @ r"
      using 2 d len r by (simp add: wf_entry_def entry_bytes_def Serialize_event)
    then show ?thesis by blast
  qed blast
qed

interpretation wal_codec: layout_codec entry_bytes Parse wf_entry 26
  by unfold_locales (auto simp: Parse_entry_bytes Parse_short dest: Parse_cover)

section \<open>The deduplication key\<close>

lemma DedupKey_item:
  "entry_Type e = WalItem \<Longrightarrow> DedupKey e = Inr ([WalItem, entry_From e, item_Game (entry_Item e)] @
     LE_PutUint32 (item_Key (entry_Item e)) @ LE_PutUint32 (item_Nonce (entry_Item e)) @ replicate 5 0)"
  by (simp add: DedupKey_def Let_def copy_into_def le32.length_put eval_nat_numeral)

lemma DedupKey_event:
  "entry_Type e = WalEvent \<Longrightarrow> DedupKey e = Inr ([WalEvent, entry_From e] @
     LE_PutUint32 (event_ID (entry_Event e)) @ replicate 10 0)"
  by (simp add: DedupKey_def Let_def copy_into_def le32.length_put eval_nat_numeral)

lemma DedupKey_ok: "wf_entry e \<Longrightarrow> DedupKey e = Inr (entry_key e)"
  by (erule wf_entry_cases) (simp_all add: entry_key_def DedupKey_item DedupKey_event)

lemma length_entry_key: "wf_entry e \<Longrightarrow> length (entry_key e) = 16"
  by (erule wf_entry_cases) (simp_all add: entry_key_def DedupKey_item DedupKey_event le32.length_put)

lemma entry_key_eq_iff:
  assumes "wf_entry e" "wf_entry e'"
  shows "entry_key e = entry_key e' \<longleftrightarrow> entry_ident e = entry_ident e'"
  using assms
  by (elim wf_entry_cases)
    (simp_all add: entry_key_def entry_ident_def DedupKey_item DedupKey_event le32.length_put le32.put_inject)

lemma wf_examples [simp]: "wf_entry example_item" "wf_entry example_event"
  by (simp_all add: wf_entry_def example_item_def example_event_def)

lemma example_keys_differ [simp]: "entry_key example_item \<noteq> entry_key example_event"
  by (simp add: entry_key_eq_iff entry_ident_def) (simp add: example_item_def example_event_def)

section \<open>Properties\<close>

text \<open>\<^verbatim>\<open>wal.Parse\<close> accepts exactly the inputs that start with the serialisation of a well-formed
  entry, and returns that entry; bytes after it are ignored.\<close>

theorem wal_parse_exact:
  "Parse d = Some (Inr e) \<longleftrightarrow> wf_entry e \<and> (\<exists>data rest. Serialize e = Inr data \<and> d = data @ rest)"
  by (metis Serialize_ok sum.inject(2) wal_codec.parse_Inr_iff)

text \<open>C9: Two entries have the same deduplication key exactly when they have the same type and sender
  and, for items, the same game, location key and nonce, for events, the same id. The receiver,
  the item id and the flags do not take part.\<close>

theorem dedup_key_identity:
  assumes "wf_entry e" "wf_entry e'"
  shows "DedupKey e = DedupKey e' \<longleftrightarrow> entry_ident e = entry_ident e'"
  using assms by (simp add: DedupKey_ok entry_key_eq_iff)

theorem dedup_key_identity_witness:
  "DedupKey example_item =
     DedupKey (example_item\<lparr>entry_Item := (entry_Item example_item)\<lparr>item_To := 3, item_GI := 0x60\<rparr>\<rparr>) \<and>
   DedupKey example_item \<noteq> DedupKey example_event"
proof -
  let ?e = "example_item\<lparr>entry_Item := (entry_Item example_item)\<lparr>item_To := 3, item_GI := 0x60\<rparr>\<rparr>"
  have "wf_entry ?e" by (simp add: wf_entry_def example_item_def)
  then have "DedupKey example_item = DedupKey ?e \<longleftrightarrow> entry_ident example_item = entry_ident ?e"
    by (intro dedup_key_identity wf_examples)
  moreover have "entry_ident example_item = entry_ident ?e"
    by (simp add: entry_ident_def example_item_def)
  moreover have "entry_ident example_item \<noteq> entry_ident example_event"
    by (simp add: entry_ident_def example_item_def example_event_def)
  ultimately show ?thesis
    using dedup_key_identity [OF wf_examples] by simp
qed

end
