(* ===== verification/OsFile.thy ===== *)
theory OsFile
  imports Prelude
begin

text \<open>
  The part of Go's \<^verbatim>\<open>os.File\<close> that the log and the send queue use: a file is its content, the
  current offset and whether it is open. Each call takes the outcome the operating system gives
  it, so that a run with failing calls is a run with other outcomes. A failing write may have
  written some of its bytes.
\<close>

record osfile =
  f_bytes :: bytes
  f_off :: nat
  f_open :: bool

datatype wr = WrOk | WrFail nat

abbreviation ErrClosed :: go_error where "ErrClosed \<equiv> Errorf ''file already closed''"

definition write_at :: "bytes \<Rightarrow> nat \<Rightarrow> bytes \<Rightarrow> bytes" where
  "write_at content off bs =
     take off (content @ replicate (off - length content) 0) @ bs @ drop (off + length bs) content"

definition file_write :: "wr \<Rightarrow> bytes \<Rightarrow> osfile \<Rightarrow> osfile \<times> go_error option" where
  "file_write r bs f =
     (if \<not> f_open f then (f, Some ErrClosed)
      else case r of
        WrOk \<Rightarrow> (f\<lparr>f_bytes := write_at (f_bytes f) (f_off f) bs, f_off := f_off f + length bs\<rparr>, None)
      | WrFail n \<Rightarrow>
          (let bs' = take n bs
           in (f\<lparr>f_bytes := write_at (f_bytes f) (f_off f) bs', f_off := f_off f + length bs'\<rparr>,
               Some (SysErr 5))))"

text \<open>\<^verbatim>\<open>Truncate(n)\<close>: cut or extend with zeros; the offset stays.\<close>

definition file_truncate :: "bool \<Rightarrow> nat \<Rightarrow> osfile \<Rightarrow> osfile \<times> go_error option" where
  "file_truncate ok n f =
     (if \<not> f_open f then (f, Some ErrClosed)
      else if \<not> ok then (f, Some (SysErr 5))
      else (f\<lparr>f_bytes := take n (f_bytes f @ replicate (n - length (f_bytes f)) 0)\<rparr>, None))"

definition file_seek :: "bool \<Rightarrow> nat \<Rightarrow> osfile \<Rightarrow> osfile \<times> go_error option" where
  "file_seek ok n f =
     (if \<not> f_open f then (f, Some ErrClosed)
      else if \<not> ok then (f, Some (SysErr 5))
      else (f\<lparr>f_off := n\<rparr>, None))"

definition file_sync :: "bool \<Rightarrow> osfile \<Rightarrow> go_error option" where
  "file_sync ok f =
     (if \<not> f_open f then Some ErrClosed else if \<not> ok then Some (SysErr 5) else None)"

definition file_close :: "osfile \<Rightarrow> osfile \<times> go_error option" where
  "file_close f = (if f_open f then (f\<lparr>f_open := False\<rparr>, None) else (f, Some ErrClosed))"

text \<open>\<^verbatim>\<open>os.OpenFile(path, os.O_RDWR|os.O_CREATE, 0644)\<close> on a file that holds \<open>content\<close>.\<close>

definition opened_file :: "bytes \<Rightarrow> osfile" where
  "opened_file content = \<lparr>f_bytes = content, f_off = 0, f_open = True\<rparr>"

lemma write_at_end [simp]: "write_at content (length content) bs = content @ bs"
  by (simp add: write_at_def)

lemma write_at_end' [simp]: "off = length content \<Longrightarrow> write_at content off bs = content @ bs"
  by simp

text \<open>A failing write at the end of a file keeps the old content as a prefix.\<close>

lemma file_write_end:
  assumes "f_open f" "f_off f = length (f_bytes f)"
  shows "\<exists>n. fst (file_write r bs f) =
      f\<lparr>f_bytes := f_bytes f @ take n bs, f_off := length (f_bytes f @ take n bs)\<rparr> \<and>
      (snd (file_write r bs f) = None \<longrightarrow> r = WrOk \<and> n = length bs)"
  using assms
  by (cases r) (auto simp: file_write_def Let_def intro: exI [of _ "length bs"])

text \<open>Truncating to the old length and seeking there undoes everything written past it.\<close>

lemma truncate_seek_undo:
  assumes "f_open f" "f_off f = length (f_bytes f)"
  shows "fst (file_seek True (length (f_bytes f)) (fst (file_truncate True (length (f_bytes f))
      (f\<lparr>f_bytes := f_bytes f @ junk, f_off := off\<rparr>)))) = f"
  using assms by (cases f) (simp add: file_seek_def file_truncate_def)

end
