(* ===== verification/Wal.thy ===== *)
theory Wal
  imports WalEntry OsFile
begin

text \<open>
  The write-ahead log of \<^verbatim>\<open>shared/wal/wal.go\<close>: a file of length-prefixed entries, its image in
  memory (the entries in order, the set of their deduplication keys, a 32-bit count), and streams
  that follow it. The mutex makes each operation one step; the wait of \<^verbatim>\<open>WALStream.Next\<close> is
  modelled in small steps in \<^verbatim>\<open>WalStream\<close>.

  The notification channel is a generation number: \<^verbatim>\<open>close(wal.notify); wal.notify = make(...)\<close>
  moves to the next generation, and a channel of an older generation is closed.
\<close>

section \<open>State\<close>

record WAL =
  wal_file :: osfile
  wal_set :: "bytes set"
  wal_entries :: "WalEntry list"
  wal_count :: u32
  wal_notify :: nat
  wal_done :: bool

record WALStream =
  stream_index :: u32

text \<open>What the operating system answers to the calls of one \<^verbatim>\<open>Append\<close>.\<close>

record append_io =
  io_pos :: bool
  io_len :: wr
  io_data :: wr
  io_sync :: bool
  io_trunc :: bool
  io_back :: bool

definition all_ok :: append_io where
  "all_ok = \<lparr>io_pos = True, io_len = WrOk, io_data = WrOk, io_sync = True, io_trunc = True,
     io_back = True\<rparr>"

section \<open>Loading and opening\<close>

definition wal_put :: "WAL \<Rightarrow> bytes \<Rightarrow> WalEntry \<Rightarrow> WAL" where
  "wal_put w dedupKey entry =
     w\<lparr>wal_set := insert dedupKey (wal_set w), wal_entries := wal_entries w @ [entry],
       wal_count := wal_count w + 1\<rparr>"

text \<open>The loop of \<^verbatim>\<open>load\<close>, over the bytes of the file that are still to be read.\<close>

function load_loop :: "go_error \<Rightarrow> WAL \<Rightarrow> bytes \<Rightarrow> WAL go" where
  "load_loop fin w bs =
     (case read_full 4 fin bs of
        Inl err \<Rightarrow>
          (if err = EOF then Some (Inr w)
           else Some (Inl (Wrapf ''wal: failed to read entry length: %v'' err)))
      | Inr (lengthBuf, bs1) \<Rightarrow>
          (case LE_Uint32 lengthBuf of
             None \<Rightarrow> None
           | Some len \<Rightarrow>
               (case read_full (unat len) fin bs1 of
                  Inl err \<Rightarrow> Some (Inl (Wrapf ''wal: failed to read entry data: %v'' err))
                | Inr (data, bs2) \<Rightarrow>
                    (case Parse data of
                       None \<Rightarrow> None
                     | Some (Inl _) \<Rightarrow> Some (Inl (Errorf ''wal: failed to deserialize entry''))
                     | Some (Inr entry) \<Rightarrow>
                         (case DedupKey entry of
                            Inl err \<Rightarrow>
                              Some (Inl (Wrapf ''wal: failed to compute deduplication key: %v'' err))
                          | Inr dedupKey \<Rightarrow> load_loop fin (wal_put w dedupKey entry) bs2)))))"
  by pat_completeness auto
termination
  by (relation "measure (\<lambda>(fin, w, bs). length bs)") (auto simp: read_full_Inr)

declare load_loop.simps [simp del]

definition wal_load :: "go_error \<Rightarrow> WAL \<Rightarrow> WAL go" where
  "wal_load fin w =
     (case load_loop fin w (drop (f_off (wal_file w)) (f_bytes (wal_file w))) of
        Some (Inr w') \<Rightarrow>
          Some (Inr (w'\<lparr>wal_file := (wal_file w)\<lparr>f_off := length (f_bytes (wal_file w))\<rparr>\<rparr>))
      | r \<Rightarrow> r)"

definition new_WAL :: "osfile \<Rightarrow> WAL" where
  "new_WAL file = \<lparr>wal_file = file, wal_set = {}, wal_entries = [], wal_count = 0, wal_notify = 0,
     wal_done = False\<rparr>"

text \<open>
  \<open>opened\<close> is the outcome of \<^verbatim>\<open>os.OpenFile\<close> (the content of the file, or its error) and \<open>fin\<close> the
  error that ends reading it. The log that fails to load is closed and dropped.
\<close>

definition OpenWAL :: "bytes result \<Rightarrow> go_error \<Rightarrow> WAL go" where
  "OpenWAL opened fin =
     (case opened of
        Inl err \<Rightarrow> Some (Inl (Wrapf ''wal: %v'' err))
      | Inr content \<Rightarrow> wal_load fin (new_WAL (opened_file content)))"

section \<open>Appending\<close>

text \<open>\<^verbatim>\<open>wal.file.Truncate(pos); wal.file.Seek(pos, io.SeekStart)\<close>, results ignored.\<close>

definition rollback :: "append_io \<Rightarrow> nat \<Rightarrow> osfile \<Rightarrow> osfile" where
  "rollback io pos file = fst (file_seek (io_back io) pos (fst (file_truncate (io_trunc io) pos file)))"

text \<open>The calls on the file: \<^verbatim>\<open>Seek\<close>, the two writes, \<^verbatim>\<open>Sync\<close>, and the rollback of each failure.\<close>

definition write_record :: "append_io \<Rightarrow> osfile \<Rightarrow> bytes \<Rightarrow> bytes \<Rightarrow> osfile \<times> go_error option" where
  "write_record io file lengthBuf data =
     (case file_seek (io_pos io) (f_off file) file of
        (file, Some err) \<Rightarrow> (file, Some (Wrapf ''wal: failed to seek in file: %v'' err))
      | (file, None) \<Rightarrow>
     (let pos = f_off file in
     (case file_write (io_len io) lengthBuf file of
        (file, Some err) \<Rightarrow>
          (rollback io pos file, Some (Wrapf ''wal: failed to write entry length to file: %v'' err))
      | (file, None) \<Rightarrow>
     (case file_write (io_data io) data file of
        (file, Some err) \<Rightarrow>
          (rollback io pos file, Some (Wrapf ''wal: failed to write entry to file: %v'' err))
      | (file, None) \<Rightarrow>
     (case file_sync (io_sync io) file of
        Some err \<Rightarrow> (rollback io pos file, Some (Wrapf ''wal: failed to sync file: %v'' err))
      | None \<Rightarrow> (file, None))))))"

definition Append :: "append_io \<Rightarrow> WAL \<Rightarrow> WalEntry \<Rightarrow> WAL \<times> go_error option" where
  "Append io w entry =
     (case Serialize entry of
        Inl err \<Rightarrow> (w, Some (Wrapf ''wal: failed to marshal entry: %v'' err))
      | Inr data \<Rightarrow>
     (case DedupKey entry of
        Inl err \<Rightarrow> (w, Some (Wrapf ''wal: failed to compute deduplication key: %v'' err))
      | Inr dedupKey \<Rightarrow>
     (let lengthBuf = LE_PutUint32 (of_nat (length data)) in
      if dedupKey \<in> wal_set w then (w, None)
      else
     (case write_record io (wal_file w) lengthBuf data of
        (file, Some err) \<Rightarrow> (w\<lparr>wal_file := file\<rparr>, Some err)
      | (file, None) \<Rightarrow>
          (let w = wal_put (w\<lparr>wal_file := file\<rparr>) dedupKey entry
           in (w\<lparr>wal_notify := Suc (wal_notify w)\<rparr>, None))))))"

section \<open>Reading\<close>

definition Get :: "WAL \<Rightarrow> u32 \<Rightarrow> WalEntry option option" where
  "Get w index =
     (if index \<ge> wal_count w then Some None
      else map_option Some (idx (wal_entries w) (unat index)))"

definition Count :: "WAL \<Rightarrow> u32" where
  "Count w = wal_count w"

definition wal_Close :: "WAL \<Rightarrow> WAL \<times> go_error option" where
  "wal_Close w =
     (let w = w\<lparr>wal_done := True\<rparr>; (file, err) = file_close (wal_file w)
      in (w\<lparr>wal_file := file\<rparr>, err))"

definition Subscribe :: "u32 \<Rightarrow> WALStream" where
  "Subscribe index = \<lparr>stream_index = index\<rparr>"

section \<open>Invariant and abstract log\<close>

definition wal_record :: "WalEntry \<Rightarrow> bytes" where
  "wal_record e = LE_PutUint32 (of_nat (length (entry_bytes e))) @ entry_bytes e"

text \<open>The image in memory.\<close>

definition wal_mem_inv :: "WAL \<Rightarrow> bool" where
  "wal_mem_inv w \<longleftrightarrow> wal_set w = entry_key ` set (wal_entries w) \<and>
     (\<forall>e\<in>set (wal_entries w). wf_entry e) \<and> wal_count w = of_nat (length (wal_entries w))"

text \<open>The file holds the records of exactly the entries in memory, and the offset is at its end.\<close>

definition wal_file_inv :: "WAL \<Rightarrow> bool" where
  "wal_file_inv w \<longleftrightarrow> f_open (wal_file w) \<and>
     f_bytes (wal_file w) = concat (map wal_record (wal_entries w)) \<and>
     f_off (wal_file w) = length (f_bytes (wal_file w))"

definition wal_inv :: "WAL \<Rightarrow> bool" where
  "wal_inv w \<longleftrightarrow> wal_mem_inv w \<and> wal_file_inv w"

text \<open>What \<^verbatim>\<open>Append\<close> does to the list of entries: add the entry unless its key is there.\<close>

definition log_append :: "WalEntry list \<Rightarrow> WalEntry \<Rightarrow> WalEntry list" where
  "log_append es e = (if entry_key e \<in> entry_key ` set es then es else es @ [e])"

definition distinct_keys :: "WalEntry list \<Rightarrow> bool" where
  "distinct_keys es \<longleftrightarrow> distinct (map entry_key es)"

section \<open>Lemmas on the abstract log\<close>

lemma log_append_in [simp]: "entry_key e \<in> entry_key ` set es \<Longrightarrow> log_append es e = es"
  by (simp add: log_append_def)

lemma log_append_new [simp]: "entry_key e \<notin> entry_key ` set es \<Longrightarrow> log_append es e = es @ [e]"
  by (simp add: log_append_def)

lemma key_in_log_append: "entry_key e \<in> entry_key ` set (log_append es e)"
  by (simp add: log_append_def)

lemma set_log_append: "set (log_append es e) \<subseteq> insert e (set es)"
  by (auto simp: log_append_def)

lemma log_append_prefix: "prefix es (log_append es e)"
  by (simp add: log_append_def)

lemma log_append_idem: "log_append (log_append es e) e = log_append es e"
  by (simp add: log_append_def)

lemma distinct_keys_log_append: "distinct_keys es \<Longrightarrow> distinct_keys (log_append es e)"
  by (auto simp: log_append_def distinct_keys_def)

lemma distinct_keys_nth_notin:
  assumes "distinct_keys es" "n < length es"
  shows "entry_key (es ! n) \<notin> entry_key ` set (take n es)"
  using assms
  by (auto simp: distinct_keys_def distinct_conv_nth in_set_conv_nth)

text \<open>Replaying the rest of a log with distinct keys on one of its prefixes rebuilds the log.\<close>

lemma log_append_next:
  "distinct_keys es \<Longrightarrow> n < length es \<Longrightarrow> log_append (take n es) (es ! n) = take (Suc n) es"
  by (simp add: distinct_keys_nth_notin take_Suc_conv_app_nth)

section \<open>Loading\<close>

lemma unat_of_nat_len32: "n < 2 ^ 32 \<Longrightarrow> unat (of_nat n :: u32) = n"
  by (simp add: unat_of_nat take_bit_nat_eq_self)

lemma unat_len_entry [simp]:
  "wf_entry e \<Longrightarrow> unat (of_nat (length (entry_bytes e)) :: u32) = length (entry_bytes e)"
  by (rule unat_of_nat_len32) (simp add: length_entry_bytes)

lemma load_loop_nil: "load_loop EOF w [] = Some (Inr w)"
  by (subst load_loop.simps) (simp add: read_full_def)

lemma load_loop_record:
  assumes "wf_entry e"
  shows "load_loop fin w (wal_record e @ rest) = load_loop fin (wal_put w (entry_key e) e) rest"
proof -
  have "Parse (entry_bytes e) = Some (Inr e)"
    by (rule wal_codec.parse_ser0 [OF assms])
  then show ?thesis
    using assms
    by (subst load_loop.simps)
      (simp add: wal_record_def le32.length_put le32.get_put0 DedupKey_ok)
qed

lemma load_loop_short_header:
  assumes "p \<noteq> []" "length p < 4"
  shows "\<exists>err. load_loop EOF w p = Some (Inl err)"
  using assms by (subst load_loop.simps) (simp add: read_full_short)

lemma load_loop_short_data:
  assumes "wf_entry e" "length q < length (entry_bytes e)"
  shows "\<exists>err. load_loop fin w (LE_PutUint32 (of_nat (length (entry_bytes e))) @ q) = Some (Inl err)"
  using assms
  by (subst load_loop.simps)
    (simp add: read_full_short le32.length_put le32.get_put0)

lemma load_loop_torn:
  assumes "wf_entry e" "strict_prefix p (wal_record e)" "p \<noteq> []"
  shows "\<exists>err. load_loop EOF w p = Some (Inl err)"
  using assms(2) unfolding wal_record_def
proof (cases rule: strict_prefix_header)
  case header
  with assms show ?thesis by (simp add: load_loop_short_header le32.length_put)
next
  case (data q)
  with load_loop_short_data [OF assms(1)] show ?thesis by simp
qed

interpretation wal_log: record_log wal_record "\<lambda>w e. wal_put w (entry_key e) e" "load_loop EOF" wf_entry
  by unfold_locales (auto simp: load_loop_nil load_loop_record intro: load_loop_torn)

lemma replay_entries:
  "foldl (\<lambda>w e. wal_put w (entry_key e) e) w es =
     w\<lparr>wal_set := wal_set w \<union> entry_key ` set es, wal_entries := wal_entries w @ es,
       wal_count := wal_count w + of_nat (length es)\<rparr>"
  by (induction es arbitrary: w) (simp_all add: wal_put_def)

text \<open>The log that opening a file with the records of \<open>es\<close> gives.\<close>

definition reopened :: "WalEntry list \<Rightarrow> WAL" where
  "reopened es = \<lparr>wal_file = \<lparr>f_bytes = concat (map wal_record es),
     f_off = length (concat (map wal_record es)), f_open = True\<rparr>,
     wal_set = entry_key ` set es, wal_entries = es, wal_count = of_nat (length es),
     wal_notify = 0, wal_done = False\<rparr>"

lemma OpenWAL_records:
  assumes "\<forall>e\<in>set es. wf_entry e"
  shows "OpenWAL (Inr (concat (map wal_record es))) EOF = Some (Inr (reopened es))"
  using wal_log.load_log [OF assms]
  by (simp add: OpenWAL_def wal_load_def new_WAL_def opened_file_def replay_entries reopened_def)

lemma reopened_inv: "\<forall>e\<in>set es. wf_entry e \<Longrightarrow> wal_inv (reopened es)"
  by (simp add: wal_inv_def wal_mem_inv_def wal_file_inv_def reopened_def)

section \<open>Appending\<close>

lemmas wal_inv_defs = wal_inv_def wal_mem_inv_def wal_file_inv_def

lemmas file_op_defs = file_write_def file_seek_def file_truncate_def file_sync_def

definition appended :: "WAL \<Rightarrow> WalEntry \<Rightarrow> WAL" where
  "appended w e = w\<lparr>wal_file := (wal_file w)\<lparr>f_bytes := f_bytes (wal_file w) @ wal_record e,
     f_off := length (f_bytes (wal_file w) @ wal_record e)\<rparr>,
     wal_set := insert (entry_key e) (wal_set w), wal_entries := wal_entries w @ [e],
     wal_count := wal_count w + 1, wal_notify := Suc (wal_notify w)\<rparr>"

lemma Append_dup:
  "wf_entry e \<Longrightarrow> entry_key e \<in> wal_set w \<Longrightarrow> Append io w e = (w, None)"
  by (simp add: Append_def Serialize_ok DedupKey_ok)

text \<open>A new entry: either every call succeeds and the record is at the end of the file, or the
  call fails, and all that may have changed is what the rollback left in the file.\<close>

lemma Append_new:
  assumes "wal_file_inv w" "wf_entry e" "entry_key e \<notin> wal_set w"
  shows "io_pos io \<and> io_len io = WrOk \<and> io_data io = WrOk \<and> io_sync io \<and>
      Append io w e = (appended w e, None) \<or>
    (\<exists>err junk off. Append io w e = (w\<lparr>wal_file := rollback io (f_off (wal_file w))
      ((wal_file w)\<lparr>f_bytes := f_bytes (wal_file w) @ junk, f_off := off\<rparr>)\<rparr>, Some err)) \<or>
    (\<exists>err. Append io w e = (w, Some err))"
  using assms
  by (cases "io_pos io"; cases "io_len io"; cases "io_data io"; cases "io_sync io")
    (auto simp: Append_def write_record_def Serialize_ok DedupKey_ok wal_file_inv_def file_op_defs wal_put_def
      appended_def wal_record_def Let_def)

lemma Append_all_ok:
  assumes "wal_file_inv w" "wf_entry e" "entry_key e \<notin> wal_set w"
    "io_pos io" "io_len io = WrOk" "io_data io = WrOk" "io_sync io"
  shows "Append io w e = (appended w e, None)"
  using assms
  by (auto simp: Append_def write_record_def Serialize_ok DedupKey_ok wal_file_inv_def file_op_defs wal_put_def
      appended_def wal_record_def Let_def)

lemma rollback_undo:
  assumes "wal_file_inv w" "io_trunc io" "io_back io"
  shows "rollback io (f_off (wal_file w))
      ((wal_file w)\<lparr>f_bytes := f_bytes (wal_file w) @ junk, f_off := off\<rparr>) = wal_file w"
  using assms truncate_seek_undo [where f = "wal_file w" and junk = junk and off = off]
  by (simp add: rollback_def wal_file_inv_def)

text \<open>The three outcomes of an append on a log that is in order, when the rollback works.\<close>

lemma Append_cases:
  assumes "wal_inv w" "wf_entry e" "io_trunc io" "io_back io"
  obtains (dup) "entry_key e \<in> entry_key ` set (wal_entries w)" "Append io w e = (w, None)"
  | (new) "entry_key e \<notin> entry_key ` set (wal_entries w)" "Append io w e = (appended w e, None)"
  | (failed) err where "entry_key e \<notin> entry_key ` set (wal_entries w)" "Append io w e = (w, Some err)"
proof (cases "entry_key e \<in> wal_set w")
  case True
  with assms dup show ?thesis by (simp add: Append_dup wal_inv_defs)
next
  case False
  with assms have k: "entry_key e \<notin> entry_key ` set (wal_entries w)" by (simp add: wal_inv_defs)
  from assms(1) have inv: "wal_file_inv w" by (simp add: wal_inv_def)
  from Append_new [OF inv assms(2) False] rollback_undo [OF inv assms(3,4)]
  consider "Append io w e = (appended w e, None)" | err where "Append io w e = (w, Some err)"
    by fastforce
  then show ?thesis using k new failed by cases auto
qed

lemma appended_inv:
  assumes "wal_inv w" "wf_entry e"
  shows "wal_inv (appended w e)"
  using assms by (auto simp: wal_inv_defs appended_def)

text \<open>Whatever the disk does, the image in memory either stays or gains the entry, and every
  change closes the notification channel.\<close>

definition same_image :: "WAL \<Rightarrow> WAL \<Rightarrow> bool" where
  "same_image w w' \<longleftrightarrow> wal_set w' = wal_set w \<and> wal_entries w' = wal_entries w \<and>
     wal_count w' = wal_count w \<and> wal_notify w' = wal_notify w \<and> wal_done w' = wal_done w"

definition image_with :: "WAL \<Rightarrow> bytes \<Rightarrow> WalEntry \<Rightarrow> WAL \<Rightarrow> bool" where
  "image_with w key e w' \<longleftrightarrow> wal_set w' = insert key (wal_set w) \<and>
     wal_entries w' = wal_entries w @ [e] \<and> wal_count w' = wal_count w + 1 \<and>
     wal_notify w' = Suc (wal_notify w) \<and> wal_done w' = wal_done w"

lemma Append_shape:
  assumes "Append io w e = (w', r)"
  obtains (failed) err where "r = Some err" "same_image w w'"
  | (dup) key where "r = None" "DedupKey e = Inr key" "key \<in> wal_set w" "w' = w"
  | (new) key where "r = None" "DedupKey e = Inr key" "key \<notin> wal_set w" "image_with w key e w'"
proof (cases "Serialize e")
  case (Inl err)
  with assms have "r = Some (Wrapf ''wal: failed to marshal entry: %v'' err)" "same_image w w'"
    by (auto simp: Append_def same_image_def)
  then show ?thesis by (rule failed)
next
  case data: (Inr data)
  then obtain key where key: "DedupKey e = Inr key"
    by (auto simp: Serialize_def DedupKey_def Let_def split: if_splits)
  obtain fl res where rec:
    "write_record io (wal_file w) (LE_PutUint32 (of_nat (length data))) data = (fl, res)" by fastforce
  consider "key \<in> wal_set w" | "key \<notin> wal_set w" "res = None"
    | err where "key \<notin> wal_set w" "res = Some err" by (cases res) auto
  then show ?thesis
  proof cases
    case 1
    with assms data key have "r = None" "w' = w" by (simp_all add: Append_def)
    with key 1 show ?thesis using dup by blast
  next
    case 2
    with assms data key rec have "r = None" "image_with w key e w'"
      by (auto simp: Append_def wal_put_def image_with_def)
    with key 2 show ?thesis using new by blast
  next
    case 3
    with assms data key rec have "r = Some err" "same_image w w'"
      by (auto simp: Append_def same_image_def)
    then show ?thesis by (rule failed)
  qed
qed

lemma Append_mem:
  assumes "wal_mem_inv w" "wf_entry e"
  shows Append_entries: "wal_entries (fst (Append io w e)) =
      (if snd (Append io w e) = None then log_append (wal_entries w) e else wal_entries w)"
    and Append_mem_inv: "wal_mem_inv (fst (Append io w e))"
proof -
  obtain w' r where A: "Append io w e = (w', r)" by fastforce
  then have "wal_entries w' = (if r = None then log_append (wal_entries w) e else wal_entries w) \<and>
      wal_mem_inv w'"
    using assms
    by (cases rule: Append_shape)
      (auto simp: wal_mem_inv_def same_image_def image_with_def DedupKey_ok)
  with A show "wal_entries (fst (Append io w e)) =
      (if snd (Append io w e) = None then log_append (wal_entries w) e else wal_entries w)"
    and "wal_mem_inv (fst (Append io w e))" by simp_all
qed

section \<open>The interface of a deduplicating log\<close>

text \<open>
  What the server's and the client's sessions rely on: appending either adds the entry to the
  log unless an entry with its key is there, or reports an error and leaves the log alone.
\<close>

locale dedup_log =
  fixes append :: "'io \<Rightarrow> 'w \<Rightarrow> WalEntry \<Rightarrow> 'w \<times> go_error option"
    and entries :: "'w \<Rightarrow> WalEntry list"
    and inv :: "'w \<Rightarrow> bool"
    and io_ok :: "'io \<Rightarrow> bool"
  assumes append_entries: "inv w \<Longrightarrow> wf_entry e \<Longrightarrow> entries (fst (append io w e)) =
      (if snd (append io w e) = None then log_append (entries w) e else entries w)"
    and append_inv: "inv w \<Longrightarrow> wf_entry e \<Longrightarrow> io_ok io \<Longrightarrow> inv (fst (append io w e))"
    and entries_wf: "inv w \<Longrightarrow> e \<in> set (entries w) \<Longrightarrow> wf_entry e"
begin

lemma append_ok_stored:
  "inv w \<Longrightarrow> wf_entry e \<Longrightarrow> append io w e = (w', None) \<Longrightarrow>
   entry_key e \<in> entry_key ` set (entries w')"
  using append_entries [of w e io] by (simp add: key_in_log_append)

lemma append_grows: "inv w \<Longrightarrow> wf_entry e \<Longrightarrow> prefix (entries w) (entries (fst (append io w e)))"
  by (simp add: append_entries log_append_prefix)

lemma append_distinct:
  "inv w \<Longrightarrow> wf_entry e \<Longrightarrow> distinct_keys (entries w) \<Longrightarrow>
   distinct_keys (entries (fst (append io w e)))"
  by (simp add: append_entries distinct_keys_log_append)

lemma append_keys_mono:
  "inv w \<Longrightarrow> wf_entry e \<Longrightarrow>
   entry_key ` set (entries w) \<subseteq> entry_key ` set (entries (fst (append io w e)))"
  by (rule image_mono) (meson append_grows set_mono_prefix)

text \<open>A log that is a prefix of a reference log stays one when it is given the reference's
  entries in order.\<close>

lemma append_next_prefix:
  assumes "inv w" "distinct_keys ref" "\<forall>e\<in>set ref. wf_entry e" "entries w = take n ref"
    "n < length ref" "append io w (ref ! n) = (w', None)"
  shows "entries w' = take (Suc n) ref"
  using assms append_entries [of w "ref ! n" io] log_append_next [of ref n] by simp

end

definition rollback_ok :: "append_io \<Rightarrow> bool" where
  "rollback_ok io \<longleftrightarrow> io_trunc io \<and> io_back io"

lemma Append_inv:
  assumes "wal_inv w" "wf_entry e" "rollback_ok io"
  shows "wal_inv (fst (Append io w e))"
proof -
  from assms(3) have "io_trunc io" "io_back io" by (simp_all add: rollback_ok_def)
  with assms(1,2) show ?thesis
    by (rule Append_cases) (use assms appended_inv in auto)
qed

interpretation wal: dedup_log Append wal_entries wal_inv rollback_ok
proof unfold_locales
  show "wal_entries (fst (Append io w e)) =
      (if snd (Append io w e) = None then log_append (wal_entries w) e else wal_entries w)"
    if "wal_inv w" "wf_entry e" for io w e
    using that by (simp add: wal_inv_def Append_entries)
  show "wf_entry e" if "wal_inv w" "e \<in> set (wal_entries w)" for w e
    using that by (simp add: wal_inv_defs)
qed (rule Append_inv)

text \<open>The image in memory is such a log whatever the disk does.\<close>

interpretation wal_mem: dedup_log Append wal_entries wal_mem_inv "\<lambda>_. True"
  by unfold_locales (simp_all add: Append_entries Append_mem_inv, simp add: wal_mem_inv_def)

lemma load_loop_mem_inv: "load_loop fin w bs = Some (Inr w') \<Longrightarrow> wal_mem_inv w \<Longrightarrow> wal_mem_inv w'"
proof (induction fin w bs rule: load_loop.induct)
  case (1 fin w bs)
  have put: "wal_mem_inv (wal_put w k e)" if "Parse d = Some (Inr e)" "DedupKey e = Inr k" for d e k
  proof -
    have "wf_entry e" using that(1) wal_codec.parse_Inr_iff by blast
    with that(2) "1.prems"(2) show ?thesis by (auto simp: wal_mem_inv_def wal_put_def DedupKey_ok)
  qed
  from "1.prems" show ?case
    by (subst (asm) load_loop.simps)
      (auto split: sum.splits prod.splits option.splits if_splits intro: "1.IH" put)
qed

lemma OpenWAL_mem_inv: "OpenWAL opened fin = Some (Inr w) \<Longrightarrow> wal_mem_inv w"
proof (cases opened)
  case (Inr content)
  assume "OpenWAL opened fin = Some (Inr w)"
  with Inr obtain w0 where "load_loop fin (new_WAL (opened_file content)) content = Some (Inr w0)"
    "w = w0\<lparr>wal_file := (opened_file content)\<lparr>f_off := length content\<rparr>\<rparr>"
    by (auto simp: OpenWAL_def wal_load_def new_WAL_def opened_file_def split: option.splits sum.splits)
  moreover have "wal_mem_inv (new_WAL (opened_file content))" by (simp add: wal_mem_inv_def new_WAL_def)
  ultimately show ?thesis using load_loop_mem_inv by (fastforce simp: wal_mem_inv_def)
qed (simp add: OpenWAL_def)

section \<open>Reading\<close>

lemma unat_count_le: "wal_mem_inv w \<Longrightarrow> unat (wal_count w) \<le> length (wal_entries w)"
  by (simp add: wal_mem_inv_def unat_of_nat take_bit_eq_mod)

lemma Get_no_panic: "wal_mem_inv w \<Longrightarrow> Get w i \<noteq> None"
  using unat_count_le [of w] by (auto simp: Get_def word_le_nat_alt)

lemma Get_spec:
  assumes "wal_mem_inv w" "length (wal_entries w) < 2 ^ 32"
  shows "Get w i = Some (if unat i < length (wal_entries w) then Some (wal_entries w ! unat i) else None)"
proof -
  have "unat (wal_count w) = length (wal_entries w)"
    using assms by (simp add: wal_mem_inv_def unat_of_nat_len32)
  then show ?thesis by (auto simp: Get_def word_le_nat_alt)
qed

lemma Count_spec:
  "wal_mem_inv w \<Longrightarrow> length (wal_entries w) < 2 ^ 32 \<Longrightarrow> unat (Count w) = length (wal_entries w)"
  by (simp add: Count_def wal_mem_inv_def unat_of_nat_len32)

section \<open>Runs of appends\<close>

text \<open>A sequence of \<^verbatim>\<open>Append\<close> calls, each with what the disk answers; the entries of the calls
  that succeeded.\<close>

fun append_all :: "WAL \<Rightarrow> (append_io \<times> WalEntry) list \<Rightarrow> WAL" where
  "append_all w [] = w"
| "append_all w ((io, e) # xs) = append_all (fst (Append io w e)) xs"

fun accepted :: "WAL \<Rightarrow> (append_io \<times> WalEntry) list \<Rightarrow> WalEntry list" where
  "accepted w [] = []"
| "accepted w ((io, e) # xs) =
     (case Append io w e of (w', r) \<Rightarrow> (if r = None then [e] else []) @ accepted w' xs)"

lemma append_all_inv:
  assumes "wal_inv w" "\<forall>(io, e)\<in>set xs. wf_entry e \<and> rollback_ok io"
  shows "wal_inv (append_all w xs) \<and>
    wal_entries (append_all w xs) = foldl log_append (wal_entries w) (accepted w xs)"
  using assms
proof (induction w xs rule: append_all.induct)
  case (2 w io e xs)
  obtain w' r where A: "Append io w e = (w', r)" by fastforce
  from "2.prems" have "wal_inv w'" "wal_entries w' =
      (if r = None then log_append (wal_entries w) e else wal_entries w)"
    using A wal.append_inv [of w e io] wal.append_entries [of w e io] by auto
  with A "2.IH" "2.prems" show ?case by auto
qed simp

lemma wal_inv_reopen:
  assumes "wal_inv w"
  shows "OpenWAL (Inr (f_bytes (wal_file w))) EOF = Some (Inr (reopened (wal_entries w)))"
  using assms OpenWAL_records [of "wal_entries w"] by (simp add: wal_inv_defs)

section \<open>Properties\<close>

text \<open>C4: On a log in order, \<^verbatim>\<open>Append\<close> is the abstract append when it succeeds and changes nothing in
  the list of entries when it fails, and the log is in order afterwards, provided the rollback of
  a failed write works.\<close>

theorem wal_append_refines:
  assumes "wal_inv w" "wf_entry e" "rollback_ok io"
  shows "wal_inv (fst (Append io w e)) \<and> wal_entries (fst (Append io w e)) =
    (if snd (Append io w e) = None then log_append (wal_entries w) e else wal_entries w)"
  using assms by (simp add: wal.append_inv wal.append_entries)

theorem wal_append_refines_witness:
  "wal_inv (fst (Append all_ok (reopened [example_event]) example_item)) \<and>
   wal_entries (fst (Append all_ok (reopened [example_event]) example_item)) =
     (if snd (Append all_ok (reopened [example_event]) example_item) = None
      then log_append [example_event] example_item else [example_event])"
proof -
  have "wal_inv (reopened [example_event])" by (rule reopened_inv) simp
  from wal_append_refines [OF this wf_examples(1), of all_ok]
  show ?thesis by (simp add: rollback_ok_def all_ok_def reopened_def)
qed

text \<open>An append that fails leaves the log exactly as it was, file and offset included, when the
  truncation and the seek of its rollback succeed.\<close>

theorem wal_append_atomic:
  assumes "wal_inv w" "wf_entry e" "rollback_ok io" "Append io w e = (w', Some err)"
  shows "w' = w"
proof -
  from assms(3) have "io_trunc io" "io_back io" by (simp_all add: rollback_ok_def)
  with assms(1,2) show ?thesis by (rule Append_cases) (use assms(4) in auto)
qed

theorem wal_append_atomic_witness:
  "Append (all_ok\<lparr>io_data := WrFail 7\<rparr>) (reopened [example_event]) example_item =
     (reopened [example_event], Some (Wrapf ''wal: failed to write entry to file: %v'' (SysErr 5)))"
proof -
  let ?io = "all_ok\<lparr>io_data := WrFail 7\<rparr>" and ?w = "reopened [example_event]"
  have inv: "wal_inv ?w" by (rule reopened_inv) simp
  have new: "entry_key example_item \<notin> wal_set ?w" by (simp add: reopened_def)
  have "snd (Append ?io ?w example_item) =
      Some (Wrapf ''wal: failed to write entry to file: %v'' (SysErr 5))"
    using new
    by (simp add: Append_def write_record_def Serialize_ok DedupKey_ok file_op_defs all_ok_def reopened_def Let_def)
  then obtain w' where A: "Append ?io ?w example_item =
      (w', Some (Wrapf ''wal: failed to write entry to file: %v'' (SysErr 5)))"
    by (cases "Append ?io ?w example_item") auto
  from wal_append_atomic [OF inv wf_examples(1) _ A] A show ?thesis
    by (simp add: rollback_ok_def all_ok_def)
qed

text \<open>C5: Durability. Start from an empty file and append any entries, with any failures whose
  rollback works. Opening the file afterwards gives a log with the same entries, keys and count,
  and these entries are the accepted ones in order, without duplicates.\<close>

theorem wal_reopen_after_run:
  assumes "\<forall>(io, e)\<in>set xs. wf_entry e \<and> rollback_ok io"
  shows "\<exists>w0 w'. OpenWAL (Inr []) EOF = Some (Inr w0) \<and>
    OpenWAL (Inr (f_bytes (wal_file (append_all w0 xs)))) EOF = Some (Inr w') \<and>
    wal_entries w' = foldl log_append [] (accepted w0 xs) \<and>
    wal_entries w' = wal_entries (append_all w0 xs) \<and>
    wal_set w' = wal_set (append_all w0 xs) \<and> wal_count w' = wal_count (append_all w0 xs)"
proof -
  have w0: "OpenWAL (Inr []) EOF = Some (Inr (reopened []))"
    using OpenWAL_records [of "[]"] by simp
  from append_all_inv [OF reopened_inv assms, of "[]"]
  have inv: "wal_inv (append_all (reopened []) xs)" and es: "wal_entries (append_all (reopened []) xs) =
      foldl log_append [] (accepted (reopened []) xs)"
    by (simp_all add: reopened_def)
  have "wal_set (append_all (reopened []) xs) = wal_set (reopened (wal_entries (append_all (reopened []) xs)))"
    "wal_count (append_all (reopened []) xs) = wal_count (reopened (wal_entries (append_all (reopened []) xs)))"
    using inv by (simp_all add: reopened_def wal_inv_defs)
  moreover have "wal_entries (reopened es) = es" for es by (simp add: reopened_def)
  ultimately show ?thesis using w0 wal_inv_reopen [OF inv] es by auto
qed

theorem wal_reopen_after_run_witness:
  "\<exists>w0 w'. OpenWAL (Inr []) EOF = Some (Inr w0) \<and>
    OpenWAL (Inr (f_bytes (wal_file (append_all w0
      [(all_ok, example_item), (all_ok\<lparr>io_sync := False\<rparr>, example_event), (all_ok, example_item)])))) EOF
      = Some (Inr w') \<and>
    wal_entries w' = foldl log_append [] (accepted w0
      [(all_ok, example_item), (all_ok\<lparr>io_sync := False\<rparr>, example_event), (all_ok, example_item)])"
  using wal_reopen_after_run
    [of "[(all_ok, example_item), (all_ok\<lparr>io_sync := False\<rparr>, example_event), (all_ok, example_item)]"]
  by (fastforce simp: rollback_ok_def all_ok_def)

text \<open>C6: A file that ends with part of a record opens exactly when that part is empty or the whole
  record: a crash between the writes of an append leaves a log that no longer opens.\<close>

theorem wal_torn_tail:
  assumes "\<forall>e\<in>set es. wf_entry e" "wf_entry e" "prefix p (wal_record e)"
  shows "(\<exists>w. OpenWAL (Inr (concat (map wal_record es) @ p)) EOF = Some (Inr w)) \<longleftrightarrow>
    p = [] \<or> p = wal_record e"
proof -
  consider "p = []" | "p = wal_record e" | "p \<noteq> []" "strict_prefix p (wal_record e)"
    using assms(3) by (auto simp: strict_prefix_def)
  then show ?thesis
  proof cases
    case 1
    with OpenWAL_records [OF assms(1)] show ?thesis by simp
  next
    case 2
    with OpenWAL_records [of "es @ [e]"] assms show ?thesis by simp
  next
    case 3
    with wal_log.load_log_torn [OF assms(1,2), of p] show ?thesis
      by (auto simp: OpenWAL_def wal_load_def new_WAL_def opened_file_def split: option.splits sum.splits)
        (metis Inl_Inr_False option.inject)+
  qed
qed

theorem wal_torn_tail_witness:
  "\<not> (\<exists>w. OpenWAL (Inr (concat (map wal_record [example_event]) @ take 9 (wal_record example_item))) EOF
      = Some (Inr w))"
proof -
  have p: "prefix (take 9 (wal_record example_item)) (wal_record example_item)" by (rule take_is_prefix)
  have l: "length (wal_record example_item) = 44"
    by (simp add: wal_record_def le32.length_put length_entry_bytes) (simp add: example_item_def)
  then have "strict_prefix (take 9 (wal_record example_item)) (wal_record example_item)"
    by (intro strict_prefix_take) simp
  moreover from l have "take 9 (wal_record example_item) \<noteq> []" by auto
  ultimately have "take 9 (wal_record example_item) \<noteq> wal_record example_item"
    "take 9 (wal_record example_item) \<noteq> []" by (auto simp: strict_prefix_def)
  with wal_torn_tail [of "[example_event]", OF _ wf_examples(1) p] show ?thesis by simp
qed

end
