(* ===== verification/WalStream.thy ===== *)
theory WalStream
  imports Wal
begin

text \<open>
  \<^verbatim>\<open>WALStream.Next\<close> of \<^verbatim>\<open>shared/wal/wal.go\<close>, in the steps at which other goroutines can run in
  between: fetch the notification channel, look the entry up, wait in the \<^verbatim>\<open>select\<close>. The rest of
  the program appends to the log, closes it or cancels the stream's context at any moment. Shown:
  no wake-up is lost, and a stream delivers the entries of the log in order without gaps.
\<close>

section \<open>Steps\<close>

datatype next_ret = NextOk WalEntry u32 | NextErr go_error

datatype next_pc = AtFetch | AtGet nat | AtSelect nat | AtReturn next_ret

record stream_state =
  ss_wal :: WAL
  ss_stream :: WALStream
  ss_pc :: next_pc
  ss_canceled :: bool
  ss_out :: "(WalEntry \<times> u32) list"

text \<open>
  The steps of the goroutine in \<^verbatim>\<open>Next\<close>. A channel of generation \<open>ch\<close> is closed once the log has
  moved to a later generation. \<open>ss_out\<close> records what \<^verbatim>\<open>Next\<close> has returned so far. The last rule
  is the caller's next call.
\<close>

inductive next_step :: "stream_state \<Rightarrow> stream_state \<Rightarrow> bool" where
  fetch: "ss_pc s = AtFetch \<Longrightarrow> next_step s (s\<lparr>ss_pc := AtGet (wal_notify (ss_wal s))\<rparr>)"
| get_hit: "ss_pc s = AtGet ch \<Longrightarrow> Get (ss_wal s) (stream_index (ss_stream s)) = Some (Some e) \<Longrightarrow>
    next_step s (s\<lparr>ss_pc := AtReturn (NextOk e (stream_index (ss_stream s))),
      ss_stream := \<lparr>stream_index = stream_index (ss_stream s) + 1\<rparr>,
      ss_out := ss_out s @ [(e, stream_index (ss_stream s))]\<rparr>)"
| get_miss: "ss_pc s = AtGet ch \<Longrightarrow> Get (ss_wal s) (stream_index (ss_stream s)) = Some None \<Longrightarrow>
    next_step s (s\<lparr>ss_pc := AtSelect ch\<rparr>)"
| woken: "ss_pc s = AtSelect ch \<Longrightarrow> ch < wal_notify (ss_wal s) \<Longrightarrow> next_step s (s\<lparr>ss_pc := AtFetch\<rparr>)"
| closed: "ss_pc s = AtSelect ch \<Longrightarrow> wal_done (ss_wal s) \<Longrightarrow>
    next_step s (s\<lparr>ss_pc := AtReturn (NextErr (Errorf ''wal stream closed''))\<rparr>)"
| canceled: "ss_pc s = AtSelect ch \<Longrightarrow> ss_canceled s \<Longrightarrow>
    next_step s (s\<lparr>ss_pc := AtReturn (NextErr (Errorf ''wal stream canceled''))\<rparr>)"
| call: "ss_pc s = AtReturn (NextOk e i) \<Longrightarrow> next_step s (s\<lparr>ss_pc := AtFetch\<rparr>)"

text \<open>The steps of the other goroutines.\<close>

inductive env_step :: "stream_state \<Rightarrow> stream_state \<Rightarrow> bool" where
  append: "wf_entry e \<Longrightarrow> env_step s (s\<lparr>ss_wal := fst (Append io (ss_wal s) e)\<rparr>)"
| close: "env_step s (s\<lparr>ss_wal := fst (wal_Close (ss_wal s))\<rparr>)"
| cancel: "env_step s (s\<lparr>ss_canceled := True\<rparr>)"

definition stream_start :: "WAL \<Rightarrow> u32 \<Rightarrow> stream_state" where
  "stream_start w i = \<lparr>ss_wal = w, ss_stream = Subscribe i, ss_pc = AtFetch, ss_canceled = False,
     ss_out = []\<rparr>"

inductive stream_reach :: "WAL \<Rightarrow> u32 \<Rightarrow> stream_state \<Rightarrow> bool" for w i where
  start: "stream_reach w i (stream_start w i)"
| next_step: "stream_reach w i s \<Longrightarrow> next_step s t \<Longrightarrow> stream_reach w i t"
| env_step: "stream_reach w i s \<Longrightarrow> env_step s t \<Longrightarrow> stream_reach w i t"

section \<open>Invariants\<close>

text \<open>A waiter whose channel is still open has seen the log as it is now.\<close>

definition waiter_inv :: "stream_state \<Rightarrow> bool" where
  "waiter_inv s \<longleftrightarrow> (case ss_pc s of
       AtGet ch \<Rightarrow> ch \<le> wal_notify (ss_wal s)
     | AtSelect ch \<Rightarrow> ch \<le> wal_notify (ss_wal s) \<and>
         (ch = wal_notify (ss_wal s) \<longrightarrow> wal_count (ss_wal s) \<le> stream_index (ss_stream s))
     | _ \<Rightarrow> True)"

lemma Append_notify:
  assumes "Append io w e = (w', r)"
  shows "wal_notify w' = wal_notify w \<and> wal_count w' = wal_count w \<or> wal_notify w < wal_notify w'"
  using assms by (cases rule: Append_shape) (auto simp: same_image_def image_with_def)

lemma wal_Close_image: "wal_entries (fst (wal_Close w)) = wal_entries w"
  "wal_count (fst (wal_Close w)) = wal_count w" "wal_notify (fst (wal_Close w)) = wal_notify w"
  "wal_set (fst (wal_Close w)) = wal_set w"
  by (simp_all add: wal_Close_def split: prod.split)

lemma Get_None_count: "Get w i = Some None \<Longrightarrow> wal_count w \<le> i"
  by (auto simp: Get_def split: if_splits)

lemma waiter_inv_next: "next_step s t \<Longrightarrow> waiter_inv s \<Longrightarrow> waiter_inv t"
  by (induction rule: next_step.induct) (auto simp: waiter_inv_def Get_None_count)

lemma waiter_inv_env: "env_step s t \<Longrightarrow> waiter_inv s \<Longrightarrow> waiter_inv t"
proof (induction rule: env_step.induct)
  case (append e s io)
  obtain w' r where A: "Append io (ss_wal s) e = (w', r)" by fastforce
  from Append_notify [OF this] append A show ?case
    by (auto simp: waiter_inv_def split: next_pc.splits)
qed (auto simp: waiter_inv_def wal_Close_image split: next_pc.splits)

lemma waiter_inv_reach: "stream_reach w i s \<Longrightarrow> waiter_inv s"
proof (induction rule: stream_reach.induct)
  case start
  then show ?case by (simp add: waiter_inv_def stream_start_def)
qed (auto intro: waiter_inv_next waiter_inv_env)

section \<open>Delivery\<close>

text \<open>What a stream that began at index \<open>i\<close> has delivered: the entries from there on.\<close>

definition delivered_from :: "u32 \<Rightarrow> stream_state \<Rightarrow> bool" where
  "delivered_from i s \<longleftrightarrow> (let n = length (ss_out s); es = wal_entries (ss_wal s) in
     stream_index (ss_stream s) = i + of_nat n \<and> (n \<noteq> 0 \<longrightarrow> unat i + n \<le> length es) \<and>
     map fst (ss_out s) = take n (drop (unat i) es) \<and>
     map snd (ss_out s) = map (\<lambda>k. i + of_nat k) [0..<n])"

definition delivered_inv :: "u32 \<Rightarrow> stream_state \<Rightarrow> bool" where
  "delivered_inv i s \<longleftrightarrow> wal_mem_inv (ss_wal s) \<and>
     (length (wal_entries (ss_wal s)) < 2 ^ 32 \<longrightarrow> delivered_from i s)"

lemma unat_plus_of_nat:
  fixes i :: u32
  shows "unat i + n < 2 ^ 32 \<Longrightarrow> unat (i + of_nat n) = unat i + n"
  by (simp add: unat_word_ariths unat_of_nat take_bit_eq_mod)

lemma delivered_hit:
  assumes "delivered_from i s" "wal_mem_inv (ss_wal s)" "length (wal_entries (ss_wal s)) < 2 ^ 32"
    "Get (ss_wal s) (stream_index (ss_stream s)) = Some (Some e)"
  shows "delivered_from i (s\<lparr>ss_pc := pc, ss_stream := \<lparr>stream_index = stream_index (ss_stream s) + 1\<rparr>,
      ss_out := ss_out s @ [(e, stream_index (ss_stream s))]\<rparr>)"
proof -
  let ?n = "length (ss_out s)" and ?es = "wal_entries (ss_wal s)"
  have idx: "unat (stream_index (ss_stream s)) = unat i + ?n"
    using assms(1,3) unat_plus_of_nat [of i ?n]
    by (cases "?n = 0") (simp_all add: delivered_from_def Let_def)
  with assms(2-4) have e: "unat i + ?n < length ?es" "e = ?es ! (unat i + ?n)"
    by (simp_all add: Get_spec split: if_splits)
  then have "take (Suc ?n) (drop (unat i) ?es) = take ?n (drop (unat i) ?es) @ [e]"
    by (simp add: take_Suc_conv_app_nth)
  with e assms(1) show ?thesis
    by (simp add: delivered_from_def Let_def add.assoc)
qed

lemma delivered_grow:
  assumes "delivered_from i s" "prefix (wal_entries (ss_wal s)) (wal_entries w')"
  shows "delivered_from i (s\<lparr>ss_wal := w'\<rparr>)"
proof -
  from assms(2) obtain zs where "wal_entries w' = wal_entries (ss_wal s) @ zs" by (auto simp: prefix_def)
  with assms(1) show ?thesis
    by (cases "ss_out s = []") (auto simp: delivered_from_def Let_def)
qed

lemma delivered_next: "next_step s t \<Longrightarrow> delivered_inv i s \<Longrightarrow> delivered_inv i t"
proof (induction rule: next_step.induct)
  case (get_hit s ch e)
  then show ?case by (simp add: delivered_inv_def delivered_hit)
qed (auto simp: delivered_inv_def delivered_from_def)

lemma delivered_env: "env_step s t \<Longrightarrow> delivered_inv i s \<Longrightarrow> delivered_inv i t"
proof (induction rule: env_step.induct)
  case (append e s io)
  then have inv: "wal_mem_inv (ss_wal s)" by (simp add: delivered_inv_def)
  have grow: "prefix (wal_entries (ss_wal s)) (wal_entries (fst (Append io (ss_wal s) e)))"
    by (rule wal_mem.append_grows [OF inv append.hyps])
  then have "length (wal_entries (ss_wal s)) \<le> length (wal_entries (fst (Append io (ss_wal s) e)))"
    by (rule prefix_length_le)
  with append grow inv show ?case
    by (simp add: delivered_inv_def delivered_grow Append_mem_inv)
next
  case (close s)
  then show ?case
    by (simp add: delivered_inv_def wal_mem_inv_def wal_Close_image delivered_grow)
qed (simp add: delivered_inv_def delivered_from_def)

lemma delivered_reach: "stream_reach w i s \<Longrightarrow> wal_mem_inv w \<Longrightarrow> delivered_inv i s"
proof (induction rule: stream_reach.induct)
  case start
  then show ?case
    by (simp add: delivered_inv_def delivered_from_def stream_start_def Subscribe_def)
qed (auto intro: delivered_next delivered_env)

section \<open>Properties\<close>

text \<open>C7: No wake-up is lost. Whenever \<^verbatim>\<open>Next\<close> waits in its \<^verbatim>\<open>select\<close> and the entry it wants is in the
  log, the channel it waits on is already closed, so it can go on.\<close>

theorem next_no_lost_wakeup:
  assumes "stream_reach w i s" "ss_pc s = AtSelect ch"
    "stream_index (ss_stream s) < wal_count (ss_wal s)"
  shows "next_step s (s\<lparr>ss_pc := AtFetch\<rparr>)"
proof -
  from waiter_inv_reach [OF assms(1)] assms(2,3) have "ch < wal_notify (ss_wal s)"
    by (auto simp: waiter_inv_def order.order_iff_strict)
  with assms(2) show ?thesis by (rule next_step.woken)
qed

lemma start_fetch:
  assumes "wal_notify w = 0"
  shows "stream_reach w i ((stream_start w i)\<lparr>ss_pc := AtGet 0\<rparr>)"
proof -
  have "next_step (stream_start w i) ((stream_start w i)\<lparr>ss_pc := AtGet 0\<rparr>)"
    using next_step.fetch [of "stream_start w i"] assms by (simp add: stream_start_def)
  with stream_reach.start show ?thesis by (rule stream_reach.next_step)
qed

lemma waiting_state:
  defines "s \<equiv> (stream_start (reopened []) 0)\<lparr>ss_pc := AtSelect 0,
    ss_wal := fst (Append all_ok (reopened []) example_item)\<rparr>"
  shows "stream_reach (reopened []) 0 s" "ss_pc s = AtSelect 0"
    "stream_index (ss_stream s) < wal_count (ss_wal s)"
proof -
  let ?w = "reopened []" and ?init = "stream_start (reopened []) 0"
  have "stream_reach ?w 0 (?init\<lparr>ss_pc := AtGet 0\<rparr>)"
    by (rule start_fetch) (simp add: reopened_def)
  moreover have "next_step (?init\<lparr>ss_pc := AtGet 0\<rparr>) (?init\<lparr>ss_pc := AtSelect 0\<rparr>)"
    using next_step.get_miss [of "?init\<lparr>ss_pc := AtGet 0\<rparr>" 0]
    by (simp add: stream_start_def reopened_def Get_def)
  ultimately have "stream_reach ?w 0 (?init\<lparr>ss_pc := AtSelect 0\<rparr>)"
    by (rule stream_reach.next_step)
  from stream_reach.env_step [OF this env_step.append [OF wf_examples(1), where io = all_ok]]
  show "stream_reach ?w 0 s" by (simp add: s_def stream_start_def)
  have "Append all_ok ?w example_item = (appended ?w example_item, None)"
    by (rule Append_all_ok) (simp_all add: wal_file_inv_def reopened_def all_ok_def)
  then show "stream_index (ss_stream s) < wal_count (ss_wal s)"
    by (simp add: s_def stream_start_def Subscribe_def appended_def reopened_def)
qed (simp add: s_def)

theorem next_no_lost_wakeup_witness:
  "next_step ((stream_start (reopened []) 0)\<lparr>ss_pc := AtSelect 0,
      ss_wal := fst (Append all_ok (reopened []) example_item)\<rparr>)
    ((stream_start (reopened []) 0)\<lparr>ss_pc := AtFetch,
      ss_wal := fst (Append all_ok (reopened []) example_item)\<rparr>)"
  using next_no_lost_wakeup [OF waiting_state] by (simp add: stream_start_def)

text \<open>C8: A stream subscribed at index \<open>i\<close> has returned, at any moment and whatever the other
  goroutines do, a gap-free run of the log's entries from \<open>i\<close> on, each with its own index, as long
  as the log has fewer than \<open>2\<^sup>3\<^sup>2\<close> entries.\<close>

theorem stream_delivers_in_order:
  assumes "wal_mem_inv w" "stream_reach w i s" "length (wal_entries (ss_wal s)) < 2 ^ 32"
  shows "map fst (ss_out s) = take (length (ss_out s)) (drop (unat i) (wal_entries (ss_wal s))) \<and>
    map snd (ss_out s) = map (\<lambda>k. i + of_nat k) [0..<length (ss_out s)]"
  using delivered_reach [OF assms(2,1)] assms(3)
  by (simp add: delivered_inv_def delivered_from_def Let_def)

theorem stream_delivers_in_order_witness:
  "map fst (ss_out ((stream_start (reopened [example_event]) 0)\<lparr>
      ss_pc := AtReturn (NextOk example_event 0), ss_stream := \<lparr>stream_index = 1\<rparr>,
      ss_out := [(example_event, 0)]\<rparr>)) = take 1 (drop (unat (0::u32)) [example_event])"
proof -
  let ?w = "reopened [example_event]" and ?init = "stream_start (reopened [example_event]) 0"
  let ?s = "?init\<lparr>ss_pc := AtReturn (NextOk example_event 0), ss_stream := \<lparr>stream_index = 1\<rparr>,
      ss_out := [(example_event, 0)]\<rparr>"
  have "stream_reach ?w 0 (?init\<lparr>ss_pc := AtGet 0\<rparr>)"
    by (rule start_fetch) (simp add: reopened_def)
  moreover have "next_step (?init\<lparr>ss_pc := AtGet 0\<rparr>) ?s"
    using next_step.get_hit [of "?init\<lparr>ss_pc := AtGet 0\<rparr>" 0 example_event]
    by (simp add: stream_start_def reopened_def Get_def Subscribe_def)
  ultimately have reach: "stream_reach ?w 0 ?s" by (rule stream_reach.next_step)
  have "wal_mem_inv ?w" by (simp add: wal_mem_inv_def reopened_def)
  from stream_delivers_in_order [OF this reach] show ?thesis
    by (simp add: stream_start_def reopened_def)
qed

end
