(* ===== verification/Protocol.thy ===== *)
theory Protocol
  imports WalEntry OsFile
begin

text \<open>
  The protocol between the client and the server: the packets of \<^verbatim>\<open>shared/protocol/packet.go\<close>,
  the opcodes of \<^verbatim>\<open>opcodes.go\<close> and the framing of \<^verbatim>\<open>io.go\<close>. Shown: every body reads back what it
  writes and no parser panics, and a connection delivers the packets sent in order, up to a cut.
\<close>

section \<open>Opcodes and packets\<close>

type_synonym Opcode = u8

definition OpNOP :: Opcode where "OpNOP = 0x00"
definition OpHello :: Opcode where "OpHello = 0x01"
definition OpWal :: Opcode where "OpWal = 0x02"
definition OpWalAck :: Opcode where "OpWalAck = 0x03"
definition OpPosition :: Opcode where "OpPosition = 0x04"

lemmas opcode_defs = OpNOP_def OpHello_def OpWal_def OpWalAck_def OpPosition_def

record Packet =
  pkt_Op :: Opcode
  pkt_Data :: bytes

record ClientHello =
  ch_Magic :: bytes
  ch_Version :: u32
  ch_SessionID :: bytes
  ch_SessionSecret :: bytes
  ch_PlayerID :: bytes
  ch_PlayerName :: bytes
  ch_WorldID :: u8
  ch_WalIndex :: u32

record ServerHello =
  sh_Magic :: bytes
  sh_Version :: u32

record ServerWal =
  sw_Index :: u32
  sw_Entry :: WalEntry

record ClientPosition =
  cp_Key :: u16
  cp_X :: i16
  cp_Y :: i16
  cp_Z :: i16

record ServerPosition =
  sp_ID :: bytes
  sp_Name :: bytes
  sp_Key :: u16
  sp_X :: i16
  sp_Y :: i16
  sp_Z :: i16

definition wf_ClientHello :: "ClientHello \<Rightarrow> bool" where
  "wf_ClientHello h \<longleftrightarrow> length (ch_Magic h) = 8 \<and> length (ch_SessionID h) = 16 \<and>
     length (ch_SessionSecret h) = 8 \<and> length (ch_PlayerID h) = 16 \<and> length (ch_PlayerName h) = 8"

definition wf_ServerHello :: "ServerHello \<Rightarrow> bool" where
  "wf_ServerHello h \<longleftrightarrow> length (sh_Magic h) = 8"

definition wf_ServerWal :: "ServerWal \<Rightarrow> bool" where
  "wf_ServerWal x \<longleftrightarrow> wf_entry (sw_Entry x)"

definition wf_ServerPosition :: "ServerPosition \<Rightarrow> bool" where
  "wf_ServerPosition p \<longleftrightarrow> length (sp_ID p) = 16 \<and> length (sp_Name p) = 8"

section \<open>Bodies\<close>

definition ParseClientHello :: "bytes \<Rightarrow> ClientHello go" where
  "ParseClientHello data =
     (if length data < 65 then Some (Inl (Errorf ''client hello too short''))
      else do {
        magic \<leftarrow> slice data 0 8;
        version \<leftarrow> slice data 8 12 \<bind> LE_Uint32;
        sid \<leftarrow> slice data 12 28;
        secret \<leftarrow> slice data 28 36;
        pid \<leftarrow> slice data 36 52;
        pname \<leftarrow> slice data 52 60;
        world \<leftarrow> idx data 60;
        walIndex \<leftarrow> slice data 61 65 \<bind> LE_Uint32;
        Some (Inr \<lparr>ch_Magic = copy_array 8 magic, ch_Version = version,
          ch_SessionID = copy_array 16 sid, ch_SessionSecret = copy_array 8 secret,
          ch_PlayerID = copy_array 16 pid, ch_PlayerName = copy_array 8 pname,
          ch_WorldID = world, ch_WalIndex = walIndex\<rparr>)
      })"

definition ClientHello_Serialize :: "ClientHello \<Rightarrow> bytes" where
  "ClientHello_Serialize hello =
     (let data = replicate 65 0;
          data = copy_into data 0 8 (ch_Magic hello);
          data = copy_into data 8 12 (LE_PutUint32 (ch_Version hello));
          data = copy_into data 12 28 (ch_SessionID hello);
          data = copy_into data 28 36 (ch_SessionSecret hello);
          data = copy_into data 36 52 (ch_PlayerID hello);
          data = copy_into data 52 60 (ch_PlayerName hello);
          data = data[60 := ch_WorldID hello];
          data = copy_into data 61 65 (LE_PutUint32 (ch_WalIndex hello))
      in data)"

definition ParseServerHello :: "bytes \<Rightarrow> ServerHello go" where
  "ParseServerHello data =
     (if length data < 12 then Some (Inl (Errorf ''server hello too short''))
      else do {
        magic \<leftarrow> slice data 0 8;
        version \<leftarrow> slice data 8 12 \<bind> LE_Uint32;
        Some (Inr \<lparr>sh_Magic = copy_array 8 magic, sh_Version = version\<rparr>)
      })"

definition ServerHello_Serialize :: "ServerHello \<Rightarrow> bytes" where
  "ServerHello_Serialize hello =
     (let data = replicate 12 0;
          data = copy_into data 0 8 (sh_Magic hello);
          data = copy_into data 8 12 (LE_PutUint32 (sh_Version hello))
      in data)"

definition ParseServerWal :: "bytes \<Rightarrow> ServerWal go" where
  "ParseServerWal data =
     (if length data < 4 then Some (Inl (Errorf ''server wal too short''))
      else do {
        index \<leftarrow> slice data 0 4 \<bind> LE_Uint32;
        body \<leftarrow> slice_from data 4;
        entry \<leftarrow> Parse body;
        (case entry of
           Inl err \<Rightarrow> Some (Inl (Wrapf ''failed to deserialize wal entry: %v'' err))
         | Inr e \<Rightarrow> Some (Inr \<lparr>sw_Index = index, sw_Entry = e\<rparr>))
      })"

definition ServerWal_Serialize :: "ServerWal \<Rightarrow> bytes result" where
  "ServerWal_Serialize x =
     (case Serialize (sw_Entry x) of
        Inl err \<Rightarrow> Inl (Wrapf ''failed to serialize wal entry: %v'' err)
      | Inr entryData \<Rightarrow>
          (let data = replicate (4 + length entryData) 0;
               data = copy_into data 0 4 (LE_PutUint32 (sw_Index x));
               data = copy_into data 4 (4 + length entryData) entryData
           in Inr data))"

definition ParseClientPosition :: "bytes \<Rightarrow> ClientPosition go" where
  "ParseClientPosition data =
     (if length data < 8 then Some (Inl (Errorf ''client position too short''))
      else do {
        key \<leftarrow> slice data 0 2 \<bind> LE_Uint16;
        x \<leftarrow> slice data 2 4 \<bind> LE_Uint16;
        y \<leftarrow> slice data 4 6 \<bind> LE_Uint16;
        z \<leftarrow> slice data 6 8 \<bind> LE_Uint16;
        Some (Inr \<lparr>cp_Key = key, cp_X = x, cp_Y = y, cp_Z = z\<rparr>)
      })"

definition ClientPosition_Serialize :: "ClientPosition \<Rightarrow> bytes" where
  "ClientPosition_Serialize pos =
     (let data = replicate 8 0;
          data = copy_into data 0 2 (LE_PutUint16 (cp_Key pos));
          data = copy_into data 2 4 (LE_PutUint16 (cp_X pos));
          data = copy_into data 4 6 (LE_PutUint16 (cp_Y pos));
          data = copy_into data 6 8 (LE_PutUint16 (cp_Z pos))
      in data)"

definition ParseServerPosition :: "bytes \<Rightarrow> ServerPosition go" where
  "ParseServerPosition data =
     (if length data < 34 then Some (Inl (Errorf ''server position too short''))
      else do {
        ident \<leftarrow> slice data 0 16;
        name \<leftarrow> slice data 16 24;
        key \<leftarrow> slice data 24 26 \<bind> LE_Uint16;
        x \<leftarrow> slice data 26 28 \<bind> LE_Uint16;
        y \<leftarrow> slice data 28 30 \<bind> LE_Uint16;
        z \<leftarrow> slice data 30 32 \<bind> LE_Uint16;
        Some (Inr \<lparr>sp_ID = copy_array 16 ident, sp_Name = copy_array 8 name, sp_Key = key,
          sp_X = x, sp_Y = y, sp_Z = z\<rparr>)
      })"

definition ServerPosition_Serialize :: "ServerPosition \<Rightarrow> bytes" where
  "ServerPosition_Serialize pos =
     (let data = replicate 34 0;
          data = copy_into data 0 16 (sp_ID pos);
          data = copy_into data 16 24 (sp_Name pos);
          data = copy_into data 24 26 (LE_PutUint16 (sp_Key pos));
          data = copy_into data 26 28 (LE_PutUint16 (sp_X pos));
          data = copy_into data 28 30 (LE_PutUint16 (sp_Y pos));
          data = copy_into data 30 32 (LE_PutUint16 (sp_Z pos))
      in data)"

section \<open>Framing\<close>

text \<open>\<open>r\<close> is the outcome of \<^verbatim>\<open>conn.Write\<close>; the result is what reached the connection.\<close>

definition SendRaw :: "wr \<Rightarrow> Packet \<Rightarrow> bytes \<times> go_error option" where
  "SendRaw r pkt =
     (let size = length (pkt_Data pkt) in
      if size > 65535 then
        ([], Some (Errorf ''packet size exceeds maximum allowed size of 65535 bytes''))
      else
        let data = replicate (3 + size) 0;
            data = copy_into data 0 2 (LE_PutUint16 (of_nat size));
            data = data[2 := pkt_Op pkt];
            data = copy_into data 3 (3 + size) (pkt_Data pkt)
        in case r of WrOk \<Rightarrow> (data, None) | WrFail n \<Rightarrow> (take n data, Some (SysErr 5)))"

text \<open>\<open>fin\<close> and \<open>bs\<close> are the reader behind the connection; the unread bytes are returned too.\<close>

definition RecvRaw :: "go_error \<Rightarrow> bytes \<Rightarrow> (Packet \<times> bytes) go" where
  "RecvRaw fin bs =
     (case read_full 3 fin bs of
        Inl err \<Rightarrow> Some (Inl err)
      | Inr (header, bs) \<Rightarrow> do {
          size \<leftarrow> slice header 0 2 \<bind> LE_Uint16;
          (case read_full (unat size) fin bs of
             Inl err \<Rightarrow> Some (Inl err)
           | Inr (data, bs) \<Rightarrow> do {
               op \<leftarrow> idx header 2;
               Some (Inr (\<lparr>pkt_Op = op, pkt_Data = data\<rparr>, bs))
             })
        })"

text \<open>The bytes of a packet on the wire, and the packets that fit a frame.\<close>

definition packet_bytes :: "Packet \<Rightarrow> bytes" where
  "packet_bytes pkt = fst (SendRaw WrOk pkt)"

definition small_packet :: "Packet \<Rightarrow> bool" where
  "small_packet pkt \<longleftrightarrow> length (pkt_Data pkt) \<le> 65535"

section \<open>The bodies as byte strings\<close>

lemmas put_lengths = le16.length_put le32.length_put
lemmas get_puts = le16.get_put0 le32.get_put0

lemma ClientHello_bytes:
  "wf_ClientHello h \<Longrightarrow> ClientHello_Serialize h = ch_Magic h @ LE_PutUint32 (ch_Version h) @
     ch_SessionID h @ ch_SessionSecret h @ ch_PlayerID h @ ch_PlayerName h @ [ch_WorldID h] @
     LE_PutUint32 (ch_WalIndex h)"
  by (simp add: wf_ClientHello_def ClientHello_Serialize_def Let_def buffer_simps put_lengths)

lemma ServerHello_bytes:
  "wf_ServerHello h \<Longrightarrow> ServerHello_Serialize h = sh_Magic h @ LE_PutUint32 (sh_Version h)"
  by (simp add: wf_ServerHello_def ServerHello_Serialize_def Let_def buffer_simps put_lengths)

lemma ServerWal_bytes:
  "wf_ServerWal x \<Longrightarrow> ServerWal_Serialize x = Inr (LE_PutUint32 (sw_Index x) @ entry_bytes (sw_Entry x))"
  by (simp add: wf_ServerWal_def ServerWal_Serialize_def Serialize_ok Let_def buffer_simps put_lengths)

lemma ClientPosition_bytes:
  "ClientPosition_Serialize p = LE_PutUint16 (cp_Key p) @ LE_PutUint16 (cp_X p) @
     LE_PutUint16 (cp_Y p) @ LE_PutUint16 (cp_Z p)"
  by (simp add: ClientPosition_Serialize_def Let_def buffer_simps put_lengths)

lemma ServerPosition_bytes:
  "wf_ServerPosition p \<Longrightarrow> ServerPosition_Serialize p = sp_ID p @ sp_Name p @ LE_PutUint16 (sp_Key p) @
     LE_PutUint16 (sp_X p) @ LE_PutUint16 (sp_Y p) @ LE_PutUint16 (sp_Z p) @ [0, 0]"
  by (simp add: wf_ServerPosition_def ServerPosition_Serialize_def Let_def buffer_simps put_lengths) (simp add: buffer_def numeral_2_eq_2)

section \<open>The bodies read back\<close>

lemma ClientHello_parse: "wf_ClientHello h \<Longrightarrow> ParseClientHello (ClientHello_Serialize h @ rest) = Some (Inr h)"
  by (simp add: ClientHello_bytes) (simp add: wf_ClientHello_def ParseClientHello_def put_lengths get_puts nth_append)

lemma ServerHello_parse: "wf_ServerHello h \<Longrightarrow> ParseServerHello (ServerHello_Serialize h @ rest) = Some (Inr h)"
  by (simp add: ServerHello_bytes) (simp add: wf_ServerHello_def ParseServerHello_def put_lengths get_puts)

lemma ClientPosition_parse: "ParseClientPosition (ClientPosition_Serialize p @ rest) = Some (Inr p)"
  by (simp add: ClientPosition_bytes ParseClientPosition_def put_lengths get_puts)

lemma ServerPosition_parse:
  "wf_ServerPosition p \<Longrightarrow> ParseServerPosition (ServerPosition_Serialize p @ rest) = Some (Inr p)"
  by (simp add: ServerPosition_bytes) (simp add: wf_ServerPosition_def ParseServerPosition_def put_lengths get_puts)

lemma ServerWal_parse:
  assumes "wf_ServerWal x" "ServerWal_Serialize x = Inr data"
  shows "ParseServerWal (data @ rest) = Some (Inr x)"
  using assms wal_codec.parse_ser [of "sw_Entry x" rest]
  by (simp add: ServerWal_bytes wf_ServerWal_def)
     (auto simp: ParseServerWal_def put_lengths get_puts)

section \<open>Input that is long enough is a body\<close>

lemma ClientHello_cover:
  assumes "65 \<le> length d"
  shows "\<exists>h rest. wf_ClientHello h \<and> d = ClientHello_Serialize h @ rest"
proof -
  from assms split_arr [of 8 57 d] obtain m d1 where d1: "d = m @ d1" "length m = 8" "57 \<le> length d1" by auto
  from d1(3) le32.split_field [of 53 d1] obtain v d2 where d2: "d1 = LE_PutUint32 v @ d2" "53 \<le> length d2" by auto
  from d2(2) split_arr [of 16 37 d2] obtain sid d3 where d3: "d2 = sid @ d3" "length sid = 16" "37 \<le> length d3" by auto
  from d3(3) split_arr [of 8 29 d3] obtain sec d4 where d4: "d3 = sec @ d4" "length sec = 8" "29 \<le> length d4" by auto
  from d4(3) split_arr [of 16 13 d4] obtain pid d5 where d5: "d4 = pid @ d5" "length pid = 16" "13 \<le> length d5" by auto
  from d5(3) split_arr [of 8 5 d5] obtain nm d6 where d6: "d5 = nm @ d6" "length nm = 8" "5 \<le> length d6" by auto
  from d6(3) split_u8 [of 4 d6] obtain wid d7 where d7: "d6 = [wid] @ d7" "4 \<le> length d7" by auto
  from d7(2) le32.split_field [of 0 d7] obtain wi d8 where d8: "d7 = LE_PutUint32 wi @ d8" by auto
  let ?h = "\<lparr>ch_Magic = m, ch_Version = v, ch_SessionID = sid, ch_SessionSecret = sec, ch_PlayerID = pid,
    ch_PlayerName = nm, ch_WorldID = wid, ch_WalIndex = wi\<rparr>"
  have "wf_ClientHello ?h" using d1 d3 d4 d5 d6 by (simp add: wf_ClientHello_def)
  then show ?thesis
    using d1(1) d2(1) d3(1) d4(1) d5(1) d6(1) d7(1) d8 by (intro exI [of _ ?h]) (auto simp: ClientHello_bytes)
qed

lemma ServerHello_cover:
  assumes "12 \<le> length d"
  shows "\<exists>h rest. wf_ServerHello h \<and> d = ServerHello_Serialize h @ rest"
proof -
  from assms split_arr [of 8 4 d] obtain m d1 where d1: "d = m @ d1" "length m = 8" "4 \<le> length d1" by auto
  from d1(3) le32.split_field [of 0 d1] obtain v d2 where d2: "d1 = LE_PutUint32 v @ d2" by auto
  let ?h = "\<lparr>sh_Magic = m, sh_Version = v\<rparr>"
  have "wf_ServerHello ?h" using d1 by (simp add: wf_ServerHello_def)
  then show ?thesis using d1 d2 by (intro exI [of _ ?h]) (auto simp: ServerHello_bytes)
qed

lemma split_words:
  assumes "8 + k \<le> length d"
  shows "\<exists>a b c e rest. d = LE_PutUint16 a @ LE_PutUint16 b @ LE_PutUint16 c @ LE_PutUint16 e @ rest \<and>
    k \<le> length rest"
proof -
  from assms le16.split_field [of "6 + k" d] obtain a d1 where d1: "d = LE_PutUint16 a @ d1" "6 + k \<le> length d1" by auto
  from d1(2) le16.split_field [of "4 + k" d1] obtain b d2 where d2: "d1 = LE_PutUint16 b @ d2" "4 + k \<le> length d2" by auto
  from d2(2) le16.split_field [of "2 + k" d2] obtain c d3 where d3: "d2 = LE_PutUint16 c @ d3" "2 + k \<le> length d3" by auto
  from d3(2) le16.split_field [of k d3] obtain e d4 where d4: "d3 = LE_PutUint16 e @ d4" "k \<le> length d4" by auto
  from d1(1) d2(1) d3(1) d4 show ?thesis by blast
qed

lemma ClientPosition_cover:
  assumes "8 \<le> length d"
  shows "\<exists>p rest. d = ClientPosition_Serialize p @ rest"
proof -
  from assms split_words [of 0 d] obtain k x y z r where
    "d = LE_PutUint16 k @ LE_PutUint16 x @ LE_PutUint16 y @ LE_PutUint16 z @ r" by auto
  then show ?thesis
    by (intro exI [of _ "\<lparr>cp_Key = k, cp_X = x, cp_Y = y, cp_Z = z\<rparr>"]) (auto simp: ClientPosition_bytes)
qed

text \<open>The last two bytes of a server position are padding: the parser wants them and ignores
  their value.\<close>

lemma ServerPosition_cover:
  assumes "34 \<le> length d"
  shows "\<exists>p. wf_ServerPosition p \<and> ParseServerPosition d = Some (Inr p)"
proof -
  from assms split_arr [of 16 18 d] obtain i d1 where d1: "d = i @ d1" "length i = 16" "18 \<le> length d1" by auto
  from d1(3) split_arr [of 8 10 d1] obtain n d2 where d2: "d1 = n @ d2" "length n = 8" "10 \<le> length d2" by auto
  from d2(3) split_words [of 2 d2] obtain k x y z r where
    r: "d2 = LE_PutUint16 k @ LE_PutUint16 x @ LE_PutUint16 y @ LE_PutUint16 z @ r" "2 \<le> length r" by auto
  let ?p = "\<lparr>sp_ID = i, sp_Name = n, sp_Key = k, sp_X = x, sp_Y = y, sp_Z = z\<rparr>"
  have "ParseServerPosition d = Some (Inr ?p)"
    using d1(1,2) d2(1,2) r by (simp add: ParseServerPosition_def put_lengths get_puts)
  moreover have "wf_ServerPosition ?p" using d1 d2 by (simp add: wf_ServerPosition_def)
  ultimately show ?thesis by blast
qed

definition server_wal_bytes :: "ServerWal \<Rightarrow> bytes" where
  "server_wal_bytes x = LE_PutUint32 (sw_Index x) @ entry_bytes (sw_Entry x)"

lemma ServerWal_cover:
  assumes "4 \<le> length d"
  shows "(\<exists>e. ParseServerWal d = Some (Inl e)) \<or>
    (\<exists>x rest. wf_ServerWal x \<and> d = server_wal_bytes x @ rest)"
proof -
  from assms le32.split_field [of 0 d] obtain v d1 where d1: "d = LE_PutUint32 v @ d1" by auto
  show ?thesis
  proof (cases d1 rule: wal_codec.layout_cases)
    case (error e)
    with d1 show ?thesis by (simp add: ParseServerWal_def put_lengths get_puts)
  next
    case (ok e r)
    with d1 have "wf_ServerWal \<lparr>sw_Index = v, sw_Entry = e\<rparr> \<and>
        d = server_wal_bytes \<lparr>sw_Index = v, sw_Entry = e\<rparr> @ r"
      by (simp add: wf_ServerWal_def server_wal_bytes_def)
    then show ?thesis by blast
  qed
qed

interpretation client_hello: layout_codec ClientHello_Serialize ParseClientHello wf_ClientHello 65
  by unfold_locales (auto simp: ClientHello_parse, auto simp: ParseClientHello_def dest: ClientHello_cover)

interpretation server_hello: layout_codec ServerHello_Serialize ParseServerHello wf_ServerHello 12
  by unfold_locales (auto simp: ServerHello_parse, auto simp: ParseServerHello_def dest: ServerHello_cover)

interpretation client_position: layout_codec ClientPosition_Serialize ParseClientPosition "\<lambda>_. True" 8
  by unfold_locales (auto simp: ClientPosition_parse, auto simp: ParseClientPosition_def dest: ClientPosition_cover)

interpretation server_wal: layout_codec server_wal_bytes ParseServerWal wf_ServerWal 4
proof unfold_locales
  show "ParseServerWal (server_wal_bytes m @ rest) = Some (Inr m)" if "wf_ServerWal m" for m rest
    using ServerWal_parse [OF that ServerWal_bytes [OF that]] by (simp add: server_wal_bytes_def)
  show "\<exists>e. ParseServerWal d = Some (Inl e)" if "length d < 4" for d
    using that by (simp add: ParseServerWal_def)
qed (rule ServerWal_cover)

interpretation server_position: msg_codec ServerPosition_Serialize ParseServerPosition wf_ServerPosition 34
proof unfold_locales
  show short: "\<exists>e. ParseServerPosition d = Some (Inl e)" if "length d < 34" for d
    using that by (simp add: ParseServerPosition_def)
  show "wf_ServerPosition m" if "ParseServerPosition d = Some (Inr m)" for d m
    using that short [of d] ServerPosition_cover [of d] by (cases "length d < 34") auto
  show "ParseServerPosition d \<noteq> None" for d
    using short [of d] ServerPosition_cover [of d] by (cases "length d < 34") auto
qed (rule ServerPosition_parse)

section \<open>Packets on a connection\<close>

lemma packet_bytes:
  "small_packet p \<Longrightarrow> packet_bytes p =
     (LE_PutUint16 (of_nat (length (pkt_Data p))) @ [pkt_Op p]) @ pkt_Data p"
  by (simp add: packet_bytes_def small_packet_def SendRaw_def Let_def buffer_simps put_lengths)

lemma SendRaw_ok: "small_packet p \<Longrightarrow> SendRaw WrOk p = (packet_bytes p, None)"
  by (simp add: packet_bytes_def small_packet_def SendRaw_def Let_def)

text \<open>A write can always fail, as it does on a connection that has been closed.\<close>

lemma SendRaw_fails: "\<exists>bs err. SendRaw (WrFail 0) pkt = (bs, Some err)"
  by (auto simp: SendRaw_def Let_def)

lemma unat_size: "small_packet p \<Longrightarrow> unat (of_nat (length (pkt_Data p)) :: u16) = length (pkt_Data p)"
  by (simp add: small_packet_def unat_of_nat take_bit_nat_eq_self)

lemma RecvRaw_packet: "small_packet p \<Longrightarrow> RecvRaw fin (packet_bytes p @ rest) = Some (Inr (p, rest))"
  by (simp add: packet_bytes RecvRaw_def read_full_def put_lengths get_puts unat_size nth_append)

lemma RecvRaw_torn:
  assumes "small_packet x" "strict_prefix p (packet_bytes x)"
  shows "\<exists>e. RecvRaw fin p = Some (Inl e)"
  using assms(2) unfolding packet_bytes [OF assms(1)]
proof (cases rule: strict_prefix_header)
  case header
  then show ?thesis by (simp add: RecvRaw_def read_full_short put_lengths)
next
  case (data q)
  with assms(1) show ?thesis
    by (simp add: RecvRaw_def read_full_def put_lengths get_puts unat_size)
qed

interpretation packets: framed_stream packet_bytes RecvRaw small_packet
  by unfold_locales (simp_all add: RecvRaw_packet RecvRaw_torn, simp add: RecvRaw_def read_full_def)

lemma RecvRaw_Inr:
  assumes "RecvRaw fin bs = Some (Inr (p, rest))"
  shows "small_packet p" "bs = packet_bytes p @ rest"
proof -
  from assms obtain header bs1 where h: "read_full 3 fin bs = Inr (header, bs1)"
    by (auto simp: RecvRaw_def split: sum.splits prod.splits)
  then have h': "length header = 3" "bs = header @ bs1" by (simp_all add: read_full_Inr)
  with le16.split_field [of 1 header] obtain size t where t: "header = LE_PutUint16 size @ t" by auto
  with h' obtain op where op: "t = [op]" by (auto simp: put_lengths length_Suc_conv numeral_3_eq_3)
  from assms h h' t op obtain data where d: "read_full (unat size) fin bs1 = Inr (data, rest)"
    "p = \<lparr>pkt_Op = op, pkt_Data = data\<rparr>"
    by (auto simp: RecvRaw_def put_lengths get_puts nth_append split: sum.splits prod.splits)
  then have d': "length data = unat size" "bs1 = data @ rest" by (simp_all add: read_full_Inr)
  have "unat size < 2 ^ LENGTH(16)" by (rule unsigned_less)
  with d d' show small: "small_packet p" by (simp add: small_packet_def)
  from small d d' h' t op show "bs = packet_bytes p @ rest"
    by (simp add: packet_bytes)
qed

lemma RecvRaw_no_panic: "RecvRaw fin bs \<noteq> None"
proof (cases "read_full 3 fin bs")
  case (Inr hb)
  then obtain header bs1 where h: "hb = (header, bs1)" "length header = 3" by (cases hb) (auto simp: read_full_Inr)
  with le16.split_field [of 1 header] obtain size t where "header = LE_PutUint16 size @ t" by auto
  with Inr h show ?thesis
    by (auto simp: RecvRaw_def put_lengths get_puts split: sum.splits prod.splits)
qed (simp add: RecvRaw_def)

section \<open>Properties\<close>


text \<open>A server position reads back from its serialisation whatever follows it, although its last two
  bytes are padding that the parser requires and ignores.\<close>

theorem server_position_roundtrip:
  assumes "wf_ServerPosition p"
  shows "ParseServerPosition (ServerPosition_Serialize p @ rest) = Some (Inr p) \<and>
    length (ServerPosition_Serialize p) = 34"
  using assms server_position.parse_ser [OF assms]
  by (simp add: ServerPosition_bytes put_lengths) (simp add: wf_ServerPosition_def)

theorem server_position_roundtrip_witness:
  "ParseServerPosition (ServerPosition_Serialize \<lparr>sp_ID = replicate 16 1, sp_Name = replicate 8 2,
     sp_Key = 3, sp_X = - 5, sp_Y = 6, sp_Z = 7\<rparr> @ [9]) =
   Some (Inr \<lparr>sp_ID = replicate 16 1, sp_Name = replicate 8 2, sp_Key = 3, sp_X = - 5, sp_Y = 6, sp_Z = 7\<rparr>)"
  using server_position_roundtrip [of "\<lparr>sp_ID = replicate 16 1, sp_Name = replicate 8 2, sp_Key = 3,
    sp_X = - 5, sp_Y = 6, sp_Z = 7\<rparr>" "[9]"]
  by (simp add: wf_ServerPosition_def)

text \<open>No parser of the protocol panics, on any input.\<close>

theorem protocol_no_panic:
  "Parse d \<noteq> None \<and> ParseClientHello d \<noteq> None \<and> ParseServerHello d \<noteq> None \<and> ParseServerWal d \<noteq> None \<and>
   ParseClientPosition d \<noteq> None \<and> ParseServerPosition d \<noteq> None \<and> RecvRaw fin d \<noteq> None"
  using wal_codec.parse_no_panic client_hello.parse_no_panic server_hello.parse_no_panic
    server_wal.parse_no_panic client_position.parse_no_panic server_position.parse_no_panic
    RecvRaw_no_panic by simp

text \<open>C12: What one side sends with \<^verbatim>\<open>SendRaw\<close>, the other side receives with \<^verbatim>\<open>RecvRaw\<close>, in order. When the
  connection is cut inside a packet, exactly the packets before it arrive, and then an error.\<close>

theorem packets_arrive_in_order:
  assumes "\<forall>p\<in>set ps. SendRaw WrOk p = (packet_bytes p, None)"
    "SendRaw WrOk q = (packet_bytes q, None)" "strict_prefix part (packet_bytes q)"
  shows "\<exists>e. read_frames (RecvRaw fin) (Suc (length ps)) (concat (map packet_bytes ps) @ part) =
    Some (ps, Some e)"
proof -
  have "small_packet p" if "SendRaw WrOk p = (packet_bytes p, None)" for p
    using that by (auto simp: SendRaw_def Let_def small_packet_def split: if_splits)
  with assms show ?thesis by (intro packets.read_frames_torn [of ps q]) auto
qed

theorem packets_arrive_in_order_witness:
  "\<exists>e. read_frames (RecvRaw EOF) (Suc (length [\<lparr>pkt_Op = OpNOP, pkt_Data = []\<rparr>]))
      (concat (map packet_bytes [\<lparr>pkt_Op = OpNOP, pkt_Data = []\<rparr>]) @
       take 4 (packet_bytes \<lparr>pkt_Op = OpWalAck, pkt_Data = replicate 16 0\<rparr>)) =
    Some ([\<lparr>pkt_Op = OpNOP, pkt_Data = []\<rparr>], Some e)"
proof (rule packets_arrive_in_order [where q = "\<lparr>pkt_Op = OpWalAck, pkt_Data = replicate 16 0\<rparr>"])
  have small: "small_packet \<lparr>pkt_Op = OpWalAck, pkt_Data = replicate 16 0\<rparr>" by (simp add: small_packet_def)
  then have "length (packet_bytes \<lparr>pkt_Op = OpWalAck, pkt_Data = replicate 16 0\<rparr>) = 19"
    by (simp add: packet_bytes put_lengths)
  then show "strict_prefix (take 4 (packet_bytes \<lparr>pkt_Op = OpWalAck, pkt_Data = replicate 16 0\<rparr>))
      (packet_bytes \<lparr>pkt_Op = OpWalAck, pkt_Data = replicate 16 0\<rparr>)"
    by (intro strict_prefix_take) simp
qed (simp_all add: SendRaw_ok small_packet_def)

end
