(* ===== verification/IpcMsg.thy ===== *)
theory IpcMsg
  imports Interfaces OsFile
begin

text \<open>
  The messages between the client and the game: \<^verbatim>\<open>client/internal/ipc/msg.go\<close>, big-endian, and
  their frames on a unix socket, \<^verbatim>\<open>client/internal/ipc/unixsock.go\<close>. Shown: the formats that the
  client both writes and reads are inverse, what the bodies it only writes look like, that the
  parsers do not panic except for one input length of one of them, and that the socket delivers
  the messages written in order.
\<close>

section \<open>Types\<close>

definition ipc_OpHello :: u8 where "ipc_OpHello = 0x01"
definition ipc_OpWal :: u8 where "ipc_OpWal = 0x02"
definition ipc_OpWalQuery :: u8 where "ipc_OpWalQuery = 0x03"
definition ipc_OpWalAck :: u8 where "ipc_OpWalAck = 0x04"
definition ipc_OpPosition :: u8 where "ipc_OpPosition = 0x05"
definition ipc_OpInfoItem :: u8 where "ipc_OpInfoItem = 0x06"
definition ipc_OpInfoEntrance :: u8 where "ipc_OpInfoEntrance = 0x07"

lemmas ipc_opcode_defs = ipc_OpHello_def ipc_OpWal_def ipc_OpWalQuery_def ipc_OpWalAck_def
  ipc_OpPosition_def ipc_OpInfoItem_def ipc_OpInfoEntrance_def

record Message =
  msg_Seq :: u32
  msg_Op :: u8
  msg_Payload :: bytes

record MessageBodyPositionIn =
  pi_Key :: u16
  pi_X :: i16
  pi_Y :: i16
  pi_Z :: i16

record MessageBodyPositionOut =
  po_ID :: u16
  po_Color :: u16
  po_Name :: bytes
  po_Key :: u16
  po_X :: i16
  po_Y :: i16
  po_Z :: i16

record MessageBodyHelloIn =
  hi_Magic :: bytes
  hi_SessionID :: bytes
  hi_SessionSecret :: bytes
  hi_PlayerID :: bytes
  hi_PlayerName :: bytes
  hi_WorldID :: u8

record MessageBodyHelloOut =
  ho_Magic :: bytes
  ho_SeqGame :: u32
  ho_SeqNet :: u32

record MessageBodyWalIn =
  wi_Token :: u32
  wi_Type :: u8
  wi_Data :: bytes

record MessageBodyWalOut =
  wo_Index :: u32
  wo_Type :: u8
  wo_From :: u8
  wo_PlayerName :: bytes
  wo_Data :: bytes

record IpcWalItem =
  iwi_To :: u8
  iwi_Game :: u8
  iwi_GI :: u16
  iwi_Flags :: u16
  iwi_Key :: u32

record IpcWalEvent =
  iwe_EventID :: u32

record MessageBodyInfoItem =
  ii_Key :: u32
  ii_GI :: u16
  ii_Flags :: u8

record MessageBodyInfoEntrance =
  ie_Original :: u32
  ie_Entrance :: u32
  ie_Age :: u8

section \<open>Parsers\<close>

definition ParseMessage :: "bytes \<Rightarrow> Message go" where
  "ParseMessage data =
     (if length data < 5 then Some (Inl (Errorf ''message too short''))
      else do {
        seq \<leftarrow> slice data 0 4 \<bind> BE_Uint32;
        op \<leftarrow> idx data 4;
        payload \<leftarrow> slice_from data 5;
        Some (Inr \<lparr>msg_Seq = seq, msg_Op = op, msg_Payload = payload\<rparr>)
      })"

definition ParseMessageBodyPositionIn :: "bytes \<Rightarrow> MessageBodyPositionIn go" where
  "ParseMessageBodyPositionIn data =
     (if length data < 8 then Some (Inl (Errorf ''message body too short for POSITION_IN''))
      else do {
        key \<leftarrow> slice data 0 2 \<bind> BE_Uint16;
        x \<leftarrow> slice data 2 4 \<bind> BE_Uint16;
        y \<leftarrow> slice data 4 6 \<bind> BE_Uint16;
        z \<leftarrow> slice data 6 8 \<bind> BE_Uint16;
        Some (Inr \<lparr>pi_Key = key, pi_X = x, pi_Y = y, pi_Z = z\<rparr>)
      })"

definition ParseMessageBodyHelloIn :: "bytes \<Rightarrow> MessageBodyHelloIn go" where
  "ParseMessageBodyHelloIn data =
     (if length data < 57 then Some (Inl (Errorf ''message body too short for HELLO_IN''))
      else do {
        magic \<leftarrow> slice data 0 8;
        sid \<leftarrow> slice data 8 24;
        secret \<leftarrow> slice data 24 32;
        pid \<leftarrow> slice data 32 48;
        pname \<leftarrow> slice data 48 56;
        world \<leftarrow> idx data 56;
        Some (Inr \<lparr>hi_Magic = copy_array 8 magic, hi_SessionID = copy_array 16 sid,
          hi_SessionSecret = copy_array 8 secret, hi_PlayerID = copy_array 16 pid,
          hi_PlayerName = copy_array 8 pname, hi_WorldID = world\<rparr>)
      })"

definition ParseMessageBodyWalIn :: "bytes \<Rightarrow> MessageBodyWalIn go" where
  "ParseMessageBodyWalIn data =
     (if length data < 5 then Some (Inl (Errorf ''message body too short for WAL_IN''))
      else do {
        token \<leftarrow> slice data 0 4 \<bind> BE_Uint32;
        ty \<leftarrow> idx data 4;
        body \<leftarrow> slice_from data 5;
        Some (Inr \<lparr>wi_Token = token, wi_Type = ty, wi_Data = body\<rparr>)
      })"

definition ParseWalItem :: "bytes \<Rightarrow> IpcWalItem go" where
  "ParseWalItem data =
     (if length data < 10 then Some (Inl (Errorf ''WAL item too short''))
      else do {
        to \<leftarrow> idx data 0;
        game \<leftarrow> idx data 1;
        gi \<leftarrow> slice data 2 4 \<bind> BE_Uint16;
        flags \<leftarrow> slice data 4 6 \<bind> BE_Uint16;
        key \<leftarrow> slice data 6 10 \<bind> BE_Uint32;
        Some (Inr \<lparr>iwi_To = to, iwi_Game = game, iwi_GI = gi, iwi_Flags = flags, iwi_Key = key\<rparr>)
      })"

definition ParseWalEvent :: "bytes \<Rightarrow> IpcWalEvent go" where
  "ParseWalEvent data =
     (if length data < 4 then Some (Inl (Errorf ''WAL event too short''))
      else do {
        ident \<leftarrow> slice data 0 4 \<bind> BE_Uint32;
        Some (Inr \<lparr>iwe_EventID = ident\<rparr>)
      })"

text \<open>The second test repeats the first, so \<^verbatim>\<open>data[6]\<close> is read at length 6 too.\<close>

definition ParseMessageBodyInfoItem :: "bytes \<Rightarrow> MessageBodyInfoItem go" where
  "ParseMessageBodyInfoItem data =
     (if length data < 6 then Some (Inl (Errorf ''message body too short for INFO_ITEM''))
      else do {
        key \<leftarrow> slice data 0 4 \<bind> BE_Uint32;
        gi \<leftarrow> slice data 4 6 \<bind> BE_Uint16;
        flags \<leftarrow> (if length data \<ge> 6 then idx data 6 else Some 0x01);
        Some (Inr \<lparr>ii_Key = key, ii_GI = gi, ii_Flags = flags\<rparr>)
      })"

definition ParseMessageBodyInfoEntrance :: "bytes \<Rightarrow> MessageBodyInfoEntrance go" where
  "ParseMessageBodyInfoEntrance data =
     (if length data < 9 then Some (Inl (Errorf ''message body too short for INFO_ENTRANCE''))
      else do {
        original \<leftarrow> slice data 0 4 \<bind> BE_Uint32;
        entrance \<leftarrow> slice data 4 8 \<bind> BE_Uint32;
        age \<leftarrow> idx data 8;
        Some (Inr \<lparr>ie_Original = original, ie_Entrance = entrance, ie_Age = age\<rparr>)
      })"

section \<open>Serialisers\<close>

definition Message_Serialize :: "Message \<Rightarrow> bytes" where
  "Message_Serialize msg =
     (let data = replicate (5 + length (msg_Payload msg)) 0;
          data = copy_into data 0 4 (BE_PutUint32 (msg_Seq msg));
          data = data[4 := msg_Op msg];
          data = copy_into data 5 (5 + length (msg_Payload msg)) (msg_Payload msg)
      in data)"

definition MessageBodyHelloOut_Serialize :: "MessageBodyHelloOut \<Rightarrow> bytes" where
  "MessageBodyHelloOut_Serialize body =
     (let data = replicate 16 0;
          data = copy_into data 0 8 (ho_Magic body);
          data = copy_into data 8 12 (BE_PutUint32 (ho_SeqGame body));
          data = copy_into data 12 16 (BE_PutUint32 (ho_SeqNet body))
      in data)"

definition MessageBodyWalOut_Serialize :: "MessageBodyWalOut \<Rightarrow> bytes" where
  "MessageBodyWalOut_Serialize body =
     (let data = replicate (14 + length (wo_Data body)) 0;
          data = copy_into data 0 4 (BE_PutUint32 (wo_Index body));
          data = data[4 := wo_Type body];
          data = data[5 := wo_From body];
          data = copy_into data 6 14 (wo_PlayerName body);
          data = copy_into data 14 (14 + length (wo_Data body)) (wo_Data body)
      in data)"

definition WalItem_Serialize :: "IpcWalItem \<Rightarrow> bytes" where
  "WalItem_Serialize item =
     (let data = replicate 10 0;
          data = data[0 := iwi_To item];
          data = data[1 := iwi_Game item];
          data = copy_into data 2 4 (BE_PutUint16 (iwi_GI item));
          data = copy_into data 4 6 (BE_PutUint16 (iwi_Flags item));
          data = copy_into data 6 10 (BE_PutUint32 (iwi_Key item))
      in data)"

definition WalEvent_Serialize :: "IpcWalEvent \<Rightarrow> bytes" where
  "WalEvent_Serialize event =
     (let data = replicate 4 0;
          data = copy_into data 0 4 (BE_PutUint32 (iwe_EventID event))
      in data)"

definition MessageBodyPositionOut_Serialize :: "MessageBodyPositionOut \<Rightarrow> bytes" where
  "MessageBodyPositionOut_Serialize body =
     (let data = replicate 20 0;
          data = copy_into data 0 2 (BE_PutUint16 (po_ID body));
          data = copy_into data 2 4 (BE_PutUint16 (po_Color body));
          data = copy_into data 4 12 (po_Name body);
          data = copy_into data 12 14 (BE_PutUint16 (po_Key body));
          data = copy_into data 14 16 (BE_PutUint16 (po_X body));
          data = copy_into data 16 18 (BE_PutUint16 (po_Y body));
          data = copy_into data 18 20 (BE_PutUint16 (po_Z body))
      in data)"

section \<open>Frames on a unix socket\<close>

definition UnixConn_Read :: "go_error \<Rightarrow> bytes \<Rightarrow> (bytes \<times> bytes) go" where
  "UnixConn_Read fin bs =
     (case read_full 4 fin bs of
        Inl err \<Rightarrow> Some (Inl err)
      | Inr (header, bs) \<Rightarrow> do {
          len \<leftarrow> LE_Uint32 header;
          (case read_full (unat len) fin bs of
             Inl err \<Rightarrow> Some (Inl err)
           | Inr (msg, bs) \<Rightarrow> Some (Inr (msg, bs)))
        })"

text \<open>The two writes of \<^verbatim>\<open>Write\<close> with their outcomes; the result is what reached the socket.\<close>

definition UnixConn_Write :: "wr \<Rightarrow> wr \<Rightarrow> bytes \<Rightarrow> bytes \<times> go_error option" where
  "UnixConn_Write r1 r2 data =
     (let header = LE_PutUint32 (of_nat (length data)) in
      case r1 of
        WrFail n \<Rightarrow> (take n header, Some (SysErr 5))
      | WrOk \<Rightarrow>
          (case r2 of
             WrFail n \<Rightarrow> (header @ take n data, Some (SysErr 5))
           | WrOk \<Rightarrow> (header @ data, None)))"

definition unix_frame :: "bytes \<Rightarrow> bytes" where
  "unix_frame data = fst (UnixConn_Write WrOk WrOk data)"

section \<open>Byte layouts\<close>

lemmas be_lengths = be16.length_put be32.length_put
lemmas be_gets = be16.get_put0 be32.get_put0

lemma Message_bytes: "Message_Serialize m = BE_PutUint32 (msg_Seq m) @ [msg_Op m] @ msg_Payload m"
  by (simp add: Message_Serialize_def Let_def buffer_simps be_lengths)

lemma HelloOut_bytes: "length (ho_Magic b) = 8 \<Longrightarrow> MessageBodyHelloOut_Serialize b =
    ho_Magic b @ BE_PutUint32 (ho_SeqGame b) @ BE_PutUint32 (ho_SeqNet b)"
  by (simp add: MessageBodyHelloOut_Serialize_def Let_def buffer_simps be_lengths)

lemma WalOut_bytes: "length (wo_PlayerName b) = 8 \<Longrightarrow> MessageBodyWalOut_Serialize b =
    BE_PutUint32 (wo_Index b) @ [wo_Type b, wo_From b] @ wo_PlayerName b @ wo_Data b"
  by (simp add: MessageBodyWalOut_Serialize_def Let_def buffer_simps be_lengths)

lemma WalItem_bytes: "WalItem_Serialize i =
    [iwi_To i, iwi_Game i] @ BE_PutUint16 (iwi_GI i) @ BE_PutUint16 (iwi_Flags i) @ BE_PutUint32 (iwi_Key i)"
  by (simp add: WalItem_Serialize_def Let_def buffer_simps be_lengths)

lemma WalEvent_bytes: "WalEvent_Serialize e = BE_PutUint32 (iwe_EventID e)"
  by (simp add: WalEvent_Serialize_def Let_def buffer_simps be_lengths)

lemma PositionOut_bytes: "length (po_Name b) = 8 \<Longrightarrow> MessageBodyPositionOut_Serialize b =
    BE_PutUint16 (po_ID b) @ BE_PutUint16 (po_Color b) @ po_Name b @ BE_PutUint16 (po_Key b) @
    BE_PutUint16 (po_X b) @ BE_PutUint16 (po_Y b) @ BE_PutUint16 (po_Z b)"
  by (simp add: MessageBodyPositionOut_Serialize_def Let_def buffer_simps be_lengths)

section \<open>Codecs\<close>

text \<open>A message takes the whole frame: its payload is everything after the header.\<close>

lemma ParseMessage_Serialize: "ParseMessage (Message_Serialize m) = Some (Inr m)"
  by (simp add: Message_bytes ParseMessage_def be_lengths be_gets nth_append)

lemma ParseMessage_cases:
  obtains (error) "length d < 5" "ParseMessage d = Some (Inl (Errorf ''message too short''))"
  | (ok) m where "d = Message_Serialize m" "ParseMessage d = Some (Inr m)"
proof (cases "length d < 5")
  case True
  then show ?thesis by (intro error) (simp_all add: ParseMessage_def)
next
  case False
  with be32.split_field [of 1 d] obtain s d1 where d1: "d = BE_PutUint32 s @ d1" "1 \<le> length d1" by auto
  with split_u8 [of 0 d1] obtain op d2 where "d1 = [op] @ d2" by auto
  with d1 have "d = Message_Serialize \<lparr>msg_Seq = s, msg_Op = op, msg_Payload = d2\<rparr>"
    by (simp add: Message_bytes)
  with ok ParseMessage_Serialize show ?thesis by metis
qed

lemma ParseMessage_Inr: "ParseMessage d = Some (Inr m) \<longleftrightarrow> d = Message_Serialize m"
proof
  assume p: "ParseMessage d = Some (Inr m)"
  show "d = Message_Serialize m"
  proof (rule ParseMessage_cases [of d])
    fix m' assume "d = Message_Serialize m'" "ParseMessage d = Some (Inr m')"
    with p show ?thesis by simp
  qed (use p in simp)
qed (simp add: ParseMessage_Serialize)

lemma ipc_item_parse: "ParseWalItem (WalItem_Serialize i @ rest) = Some (Inr i)"
  by (simp add: WalItem_bytes ParseWalItem_def be_lengths be_gets)

lemma ipc_item_cover:
  assumes "10 \<le> length d"
  shows "\<exists>i rest. d = WalItem_Serialize i @ rest"
proof -
  from assms split_u8 [of 9 d] obtain t d1 where d1: "d = [t] @ d1" "9 \<le> length d1" by auto
  from d1(2) split_u8 [of 8 d1] obtain g d2 where d2: "d1 = [g] @ d2" "8 \<le> length d2" by auto
  from d2(2) be16.split_field [of 6 d2] obtain gi d3 where d3: "d2 = BE_PutUint16 gi @ d3" "6 \<le> length d3" by auto
  from d3(2) be16.split_field [of 4 d3] obtain fl d4 where d4: "d3 = BE_PutUint16 fl @ d4" "4 \<le> length d4" by auto
  from d4(2) be32.split_field [of 0 d4] obtain k d5 where d5: "d4 = BE_PutUint32 k @ d5" by auto
  from d1(1) d2(1) d3(1) d4(1) d5 show ?thesis
    by (intro exI [of _ "\<lparr>iwi_To = t, iwi_Game = g, iwi_GI = gi, iwi_Flags = fl, iwi_Key = k\<rparr>"])
       (auto simp: WalItem_bytes)
qed

interpretation ipc_item: layout_codec WalItem_Serialize ParseWalItem "\<lambda>_. True" 10
  by unfold_locales (auto simp: ipc_item_parse, auto simp: ParseWalItem_def dest: ipc_item_cover)

lemma ipc_event_cover: "4 \<le> length d \<Longrightarrow> \<exists>e rest. d = WalEvent_Serialize e @ rest"
  using be32.split_field [of 0 d] by (auto simp: WalEvent_bytes) (metis IpcWalEvent.select_convs(1))

interpretation ipc_event: layout_codec WalEvent_Serialize ParseWalEvent "\<lambda>_. True" 4
  by unfold_locales (auto simp: WalEvent_bytes ParseWalEvent_def be_lengths be_gets
      dest: ipc_event_cover [unfolded WalEvent_bytes])

section \<open>Panics\<close>

lemma BE_total: "2 \<le> length b \<Longrightarrow> \<exists>v. BE_Uint16 b = Some v" "4 \<le> length c \<Longrightarrow> \<exists>w. BE_Uint32 c = Some w"
  using be16.get_total [of b] be32.get_total [of c] by auto

lemma PositionIn_no_panic: "ParseMessageBodyPositionIn d \<noteq> None"
proof (cases "length d < 8")
  case False
  then obtain a b c e where "BE_Uint16 (take 2 d) = Some a" "BE_Uint16 (take 2 (drop 2 d)) = Some b"
    "BE_Uint16 (take 2 (drop 4 d)) = Some c" "BE_Uint16 (take 2 (drop 6 d)) = Some e"
    using BE_total(1) [of "take 2 d"] BE_total(1) [of "take 2 (drop 2 d)"]
      BE_total(1) [of "take 2 (drop 4 d)"] BE_total(1) [of "take 2 (drop 6 d)"] by auto
  with False show ?thesis by (simp add: ParseMessageBodyPositionIn_def)
qed (simp add: ParseMessageBodyPositionIn_def)

lemma WalIn_no_panic: "ParseMessageBodyWalIn d \<noteq> None"
  using BE_total(2) [of "take 4 d"] by (auto simp: ParseMessageBodyWalIn_def)

lemma InfoEntrance_no_panic: "ParseMessageBodyInfoEntrance d \<noteq> None"
proof (cases "length d < 9")
  case False
  then obtain v w where "BE_Uint32 (take 4 d) = Some v" "BE_Uint32 (take 4 (drop 4 d)) = Some w"
    using BE_total(2) [of "take 4 d"] BE_total(2) [of "take 4 (drop 4 d)"] by auto
  with False show ?thesis by (simp add: ParseMessageBodyInfoEntrance_def)
qed (simp add: ParseMessageBodyInfoEntrance_def)

lemma HelloIn_no_panic: "ParseMessageBodyHelloIn d \<noteq> None"
  by (auto simp: ParseMessageBodyHelloIn_def)

lemma InfoItem_panic: "ParseMessageBodyInfoItem d = None \<longleftrightarrow> length d = 6"
proof (cases "length d < 6")
  case False
  then obtain v w where "BE_Uint32 (take 4 d) = Some v" "BE_Uint16 (take 2 (drop 4 d)) = Some w"
    using BE_total(2) [of "take 4 d"] BE_total(1) [of "take 2 (drop 4 d)"] by auto
  with False show ?thesis by (auto simp: ParseMessageBodyInfoItem_def idx_def)
qed (simp add: ParseMessageBodyInfoItem_def)

lemma ParseMessage_no_panic: "ParseMessage d \<noteq> None"
  by (cases d rule: ParseMessage_cases) auto

section \<open>The socket\<close>

lemma unix_frame_eq: "unix_frame d = LE_PutUint32 (of_nat (length d)) @ d"
  by (simp add: unix_frame_def UnixConn_Write_def)

lemma unat_len_frame: "length d < 2 ^ 32 \<Longrightarrow> unat (of_nat (length d) :: u32) = length d"
  by (simp add: unat_of_nat take_bit_nat_eq_self)

interpretation unix_conn: framed_stream unix_frame UnixConn_Read "\<lambda>d. length d < 2 ^ 32"
proof unfold_locales
  show "UnixConn_Read fin (unix_frame x @ rest) = Some (Inr (x, rest))" if "length x < 2 ^ 32" for x fin rest
    using unat_len_frame [OF that]
    by (simp add: UnixConn_Read_def unix_frame_eq le32.length_put le32.get_put0)
  show "UnixConn_Read fin [] = Some (Inl fin)" for fin
    by (simp add: UnixConn_Read_def read_full_def)
  show "\<exists>e. UnixConn_Read fin p = Some (Inl e)"
    if "length x < 2 ^ 32" "strict_prefix p (unix_frame x)" for x p fin
    using that(2) unfolding unix_frame_eq
  proof (cases rule: strict_prefix_header)
    case header
    then show ?thesis by (simp add: UnixConn_Read_def read_full_short le32.length_put)
  next
    case (data q)
    with unat_len_frame [OF that(1)] show ?thesis
      by (simp add: UnixConn_Read_def read_full_short le32.length_put le32.get_put0)
  qed
qed

section \<open>Properties\<close>

text \<open>The message header and the item and event bodies read back exactly what the client writes: a
  message is the whole frame, a body ignores trailing bytes.\<close>

theorem ipc_codecs_exact:
  "(ParseMessage d = Some (Inr m) \<longleftrightarrow> d = Message_Serialize m) \<and>
   (ParseWalItem d = Some (Inr i) \<longleftrightarrow> (\<exists>rest. d = WalItem_Serialize i @ rest)) \<and>
   (ParseWalEvent d = Some (Inr e) \<longleftrightarrow> (\<exists>rest. d = WalEvent_Serialize e @ rest))"
proof (intro conjI)
  show "ParseMessage d = Some (Inr m) \<longleftrightarrow> d = Message_Serialize m"
    by (rule ParseMessage_Inr)
qed (use ipc_item.parse_Inr_iff ipc_event.parse_Inr_iff in auto)

text \<open>The parsers of the messages from the game do not panic, with one exception: an INFO_ITEM body of
  exactly six bytes passes the length check and then reads the seventh byte.\<close>

theorem ipc_panics_only_on_short_info_item:
  "ParseMessage d \<noteq> None \<and> ParseMessageBodyPositionIn d \<noteq> None \<and> ParseMessageBodyHelloIn d \<noteq> None \<and>
   ParseMessageBodyWalIn d \<noteq> None \<and> ParseWalItem d \<noteq> None \<and> ParseWalEvent d \<noteq> None \<and>
   ParseMessageBodyInfoEntrance d \<noteq> None \<and> (ParseMessageBodyInfoItem d = None \<longleftrightarrow> length d = 6)"
  using PositionIn_no_panic WalIn_no_panic InfoEntrance_no_panic HelloIn_no_panic InfoItem_panic
    ipc_item.parse_no_panic ipc_event.parse_no_panic ParseMessage_no_panic
  by simp

text \<open>What is written to the game's socket is read back message by message, in order, up to the end of
  the stream; messages are shorter than \<open>2\<^sup>3\<^sup>2\<close> bytes.\<close>

theorem unix_socket_in_order:
  assumes "\<forall>d\<in>set ds. length d < 2 ^ 32"
  shows "read_frames (UnixConn_Read fin) (Suc (length ds))
    (concat (map (\<lambda>d. fst (UnixConn_Write WrOk WrOk d)) ds)) = Some (ds, Some fin)"
  using unix_conn.read_frames_concat [OF assms, of "Suc (length ds)" fin]
  by (simp add: unix_frame_def [abs_def])

theorem unix_socket_in_order_witness:
  "read_frames (UnixConn_Read EOF) (Suc (length [[1, 2, 3], [], [4 :: byte]]))
    (concat (map (\<lambda>d. fst (UnixConn_Write WrOk WrOk d)) [[1, 2, 3], [], [4]])) =
   Some ([[1, 2, 3], [], [4]], Some EOF)"
  by (rule unix_socket_in_order) simp

end
