(* ===== verification/SendQueue.thy ===== *)
theory SendQueue
  imports Interfaces OsFile
begin

text \<open>
  The client's queue of entries that the server has not acknowledged yet, of
  \<^verbatim>\<open>client/internal/game/send_queue.go\<close>: a map from deduplication keys to serialised entries, and an
  append-only file that is emptied when the map is. The map is an association list, since Go's
  iteration order is not specified; where the code ranges over it, the order is an argument.

  Shown: the queue is a map with insert-if-absent and delete, its file holds at least the pending
  entries at any moment, so that opening it again brings all of them back, and the part of the
  code where this fails (a write that fails half-way is not undone).
\<close>

section \<open>State\<close>

record SendQueue =
  sq_file :: osfile
  sq_entries :: "(bytes \<times> bytes) list"
  sq_done :: bool

record sq_add_io =
  add_seek :: bool
  add_id :: wr
  add_len :: wr
  add_data :: wr
  add_sync :: bool

record sq_ack_io =
  ack_trunc :: bool
  ack_seek :: bool

definition add_all_ok :: sq_add_io where
  "add_all_ok = \<lparr>add_seek = True, add_id = WrOk, add_len = WrOk, add_data = WrOk, add_sync = True\<rparr>"

definition ack_all_ok :: sq_ack_io where
  "ack_all_ok = \<lparr>ack_trunc = True, ack_seek = True\<rparr>"

section \<open>Loading and opening\<close>

definition sq_put :: "SendQueue \<Rightarrow> bytes \<times> bytes \<Rightarrow> SendQueue" where
  "sq_put sq = (\<lambda>(ident, data). sq\<lparr>sq_entries := AList.update ident data (sq_entries sq)\<rparr>)"

function loadSendQueue :: "go_error \<Rightarrow> SendQueue \<Rightarrow> bytes \<Rightarrow> SendQueue go" where
  "loadSendQueue fin sq bs =
     (case read_full 16 fin bs of
        Inl err \<Rightarrow>
          (if err = EOF then Some (Inr sq)
           else Some (Inl (Wrapf ''send queue: failed to read entry ID: %v'' err)))
      | Inr (ident, bs1) \<Rightarrow>
          (case read_full 4 fin bs1 of
             Inl err \<Rightarrow> Some (Inl (Wrapf ''send queue: failed to read entry length: %v'' err))
           | Inr (lengthBuf, bs2) \<Rightarrow>
               (case LE_Uint32 lengthBuf of
                  None \<Rightarrow> None
                | Some len \<Rightarrow>
                    (case read_full (unat len) fin bs2 of
                       Inl err \<Rightarrow> Some (Inl (Wrapf ''send queue: failed to read entry data: %v'' err))
                     | Inr (data, bs3) \<Rightarrow> loadSendQueue fin (sq_put sq (ident, data)) bs3))))"
  by pat_completeness auto
termination
  by (relation "measure (\<lambda>(fin, sq, bs). length bs)") (auto simp: read_full_Inr)

declare loadSendQueue.simps [simp del]

definition OpenSendQueue :: "bytes result \<Rightarrow> go_error \<Rightarrow> SendQueue go" where
  "OpenSendQueue opened fin =
     (case opened of
        Inl err \<Rightarrow> Some (Inl (Wrapf ''send queue: %v'' err))
      | Inr content \<Rightarrow>
          (case loadSendQueue fin \<lparr>sq_file = opened_file content, sq_entries = [], sq_done = False\<rparr> content of
             Some (Inr sq) \<Rightarrow>
               Some (Inr (sq\<lparr>sq_file := (opened_file content)\<lparr>f_off := length content\<rparr>\<rparr>))
           | r \<Rightarrow> r))"

section \<open>Operations\<close>

text \<open>The errors of \<^verbatim>\<open>Truncate\<close> and of the final \<^verbatim>\<open>Sync\<close> are only printed.\<close>

definition Ack :: "sq_ack_io \<Rightarrow> SendQueue \<Rightarrow> bytes \<Rightarrow> SendQueue" where
  "Ack io sq ident =
     (if length (sq_entries sq) = 0 then sq
      else
        let sq = sq\<lparr>sq_entries := AList.delete ident (sq_entries sq)\<rparr>
        in if length (sq_entries sq) = 0 then
             (case file_truncate (ack_trunc io) 0 (sq_file sq) of
                (file, Some err) \<Rightarrow> sq\<lparr>sq_file := file\<rparr>
              | (file, None) \<Rightarrow> sq\<lparr>sq_file := fst (file_seek (ack_seek io) 0 file)\<rparr>)
           else sq)"

definition Add :: "sq_add_io \<Rightarrow> SendQueue \<Rightarrow> bytes \<Rightarrow> bytes \<Rightarrow> SendQueue \<times> go_error option" where
  "Add io sq ident data =
     (if map_of (sq_entries sq) ident \<noteq> None then (sq, None)
      else
     (case file_seek (add_seek io) (length (f_bytes (sq_file sq))) (sq_file sq) of
        (file, Some err) \<Rightarrow> (sq\<lparr>sq_file := file\<rparr>, Some (Wrapf ''failed to seek to end of send queue: %v'' err))
      | (file, None) \<Rightarrow>
     (case file_write (add_id io) ident file of
        (file, Some err) \<Rightarrow> (sq\<lparr>sq_file := file\<rparr>, Some (Wrapf ''failed to write entry ID to send queue: %v'' err))
      | (file, None) \<Rightarrow>
     (let lengthBuf = LE_PutUint32 (of_nat (length data)) in
     (case file_write (add_len io) lengthBuf file of
        (file, Some err) \<Rightarrow> (sq\<lparr>sq_file := file\<rparr>, Some (Wrapf ''failed to write entry length to send queue: %v'' err))
      | (file, None) \<Rightarrow>
     (case file_write (add_data io) data file of
        (file, Some err) \<Rightarrow> (sq\<lparr>sq_file := file\<rparr>, Some (Wrapf ''failed to write entry data to send queue: %v'' err))
      | (file, None) \<Rightarrow>
     (case file_sync (add_sync io) file of
        Some err \<Rightarrow> (sq\<lparr>sq_file := file\<rparr>, Some (Wrapf ''failed to sync send queue: %v'' err))
      | None \<Rightarrow> (sq_put (sq\<lparr>sq_file := file\<rparr>) (ident, data), None))))))))"

definition sq_Close :: "SendQueue \<Rightarrow> SendQueue" where
  "sq_Close sq = sq\<lparr>sq_done := True, sq_file := fst (file_close (sq_file sq))\<rparr>"

text \<open>\<open>ord\<close> is the order in which Go ranges over the map.\<close>

definition Pending :: "(bytes list \<Rightarrow> bytes list) \<Rightarrow> SendQueue \<Rightarrow> bytes list" where
  "Pending ord sq = ord (map snd (sq_entries sq))"

definition range_order :: "('a list \<Rightarrow> 'a list) \<Rightarrow> bool" where
  "range_order ord \<longleftrightarrow> (\<forall>xs. mset (ord xs) = mset xs)"

section \<open>Invariant\<close>

definition sq_record :: "bytes \<times> bytes \<Rightarrow> bytes" where
  "sq_record = (\<lambda>(ident, data). ident @ LE_PutUint32 (of_nat (length data)) @ data)"

definition sq_ok :: "bytes \<times> bytes \<Rightarrow> bool" where
  "sq_ok = (\<lambda>(ident, data). length ident = 16 \<and> length data < 2 ^ 32)"

definition replay :: "(bytes \<times> bytes) list \<Rightarrow> (bytes \<times> bytes) list" where
  "replay rs = foldl (\<lambda>al (k, v). AList.update k v al) [] rs"

text \<open>The pending entries as a map.\<close>

definition pending :: "SendQueue \<Rightarrow> bytes \<rightharpoonup> bytes" where
  "pending sq = map_of (sq_entries sq)"

text \<open>The file is open and holds records \<open>rs\<close> whose replay has every pending entry.\<close>

definition sq_inv :: "SendQueue \<Rightarrow> bool" where
  "sq_inv sq \<longleftrightarrow> distinct (map fst (sq_entries sq)) \<and> f_open (sq_file sq) \<and>
     (\<exists>rs. (\<forall>r\<in>set rs. sq_ok r) \<and> f_bytes (sq_file sq) = concat (map sq_record rs) \<and>
       pending sq \<subseteq>\<^sub>m map_of (replay rs))"

section \<open>Loading\<close>

lemma replay_Nil [simp]: "replay [] = []"
  by (simp add: replay_def)

lemma replay_snoc [simp]: "replay (rs @ [(k, v)]) = AList.update k v (replay rs)"
  by (simp add: replay_def)

lemma distinct_replay: "distinct (map fst (replay rs))"
  by (induction rs rule: rev_induct) (auto simp: distinct_update)

lemma foldl_sq_put: "foldl sq_put sq rs = sq\<lparr>sq_entries := foldl (\<lambda>al (k, v). AList.update k v al) (sq_entries sq) rs\<rparr>"
  by (induction rs arbitrary: sq) (auto simp: sq_put_def)

lemma unat_len_data: "length data < 2 ^ 32 \<Longrightarrow> unat (of_nat (length data) :: u32) = length data"
  by (simp add: unat_of_nat take_bit_nat_eq_self)

lemma sq_record_pair: "sq_record (k, d) = k @ LE_PutUint32 (of_nat (length d)) @ d"
  by (simp add: sq_record_def)

lemma load_sq_record:
  assumes "sq_ok r"
  shows "loadSendQueue fin sq (sq_record r @ rest) = loadSendQueue fin (sq_put sq r) rest"
proof -
  obtain k d where r: "r = (k, d)" by fastforce
  with assms have "length k = 16" "unat (of_nat (length d) :: u32) = length d"
    by (simp_all add: sq_ok_def unat_len_data)
  with r show ?thesis
    by (subst loadSendQueue.simps) (simp add: sq_record_pair le32.length_put le32.get_put0)
qed

lemma load_sq_torn:
  assumes "sq_ok r" "strict_prefix p (sq_record r)" "p \<noteq> []"
  shows "\<exists>e. loadSendQueue EOF sq p = Some (Inl e)"
proof -
  obtain k d where r: "r = (k, d)" by fastforce
  with assms have kd: "length k = 16" "unat (of_nat (length d) :: u32) = length d"
    by (simp_all add: sq_ok_def unat_len_data)
  from assms(2) have "strict_prefix p (k @ (LE_PutUint32 (of_nat (length d)) @ d))"
    by (simp add: r sq_record_pair)
  then show ?thesis
  proof (cases rule: strict_prefix_header)
    case header
    with assms(3) kd show ?thesis by (subst loadSendQueue.simps) (simp add: read_full_short)
  next
    case (data q)
    from data(3) show ?thesis
    proof (cases rule: strict_prefix_header)
      case header
      with data kd show ?thesis
        by (subst loadSendQueue.simps) (simp add: read_full_short le32.length_put)
    next
      case (data q')
      with \<open>p = k @ q\<close> kd show ?thesis
        by (subst loadSendQueue.simps) (simp add: read_full_short le32.length_put le32.get_put0)
    qed
  qed
qed

interpretation sq_log: record_log sq_record sq_put "loadSendQueue EOF" sq_ok
proof unfold_locales
  show "loadSendQueue EOF s [] = Some (Inr s)" for s
    by (subst loadSendQueue.simps) (simp add: read_full_def)
qed (simp_all add: load_sq_record load_sq_torn)

lemma OpenSendQueue_records:
  assumes "\<forall>r\<in>set rs. sq_ok r"
  shows "OpenSendQueue (Inr (concat (map sq_record rs))) EOF = Some (Inr
    \<lparr>sq_file = \<lparr>f_bytes = concat (map sq_record rs), f_off = length (concat (map sq_record rs)), f_open = True\<rparr>,
     sq_entries = replay rs, sq_done = False\<rparr>)"
  using sq_log.load_log [OF assms]
  by (simp add: OpenSendQueue_def foldl_sq_put replay_def opened_file_def)

section \<open>Operations\<close>

lemma AList_delete_Nil_iff: "AList.delete k al = [] \<longleftrightarrow> (\<forall>x\<in>set al. fst x = k)"
  by (induction al) (auto simp: AList.delete_eq)

lemma Ack_entries: "sq_entries (Ack io sq k) = AList.delete k (sq_entries sq)"
  by (auto simp: Ack_def Let_def split: prod.split option.split)

lemma pending_Ack: "pending (Ack io sq k) = (pending sq)(k := None)"
  by (simp add: pending_def Ack_entries delete_conv')

text \<open>The file after an acknowledgement: as before, or empty when the queue is empty.\<close>

lemma Ack_file:
  assumes "f_open (sq_file sq)"
  shows "f_open (sq_file (Ack io sq k))"
    and "f_bytes (sq_file (Ack io sq k)) = f_bytes (sq_file sq) \<or>
      f_bytes (sq_file (Ack io sq k)) = [] \<and> sq_entries (Ack io sq k) = []"
  using assms
  by (auto simp: Ack_def Let_def file_truncate_def file_seek_def AList_delete_Nil_iff
      split: prod.split option.split)

lemma Ack_inv:
  assumes "sq_inv sq"
  shows "sq_inv (Ack io sq k)"
proof -
  from assms obtain rs where rs: "\<forall>r\<in>set rs. sq_ok r" "f_bytes (sq_file sq) = concat (map sq_record rs)"
    "pending sq \<subseteq>\<^sub>m map_of (replay rs)" and o: "f_open (sq_file sq)" and d: "distinct (map fst (sq_entries sq))"
    by (auto simp: sq_inv_def)
  have sub: "pending (Ack io sq k) \<subseteq>\<^sub>m map_of (replay rs)"
    using rs(3) by (auto simp: pending_Ack map_le_def)
  from Ack_file(2) [OF o, of io k] show ?thesis
  proof
    assume "f_bytes (sq_file (Ack io sq k)) = f_bytes (sq_file sq)"
    with rs sub Ack_file(1) [OF o] d show ?thesis
      by (auto simp: sq_inv_def Ack_entries distinct_delete)
  next
    assume "f_bytes (sq_file (Ack io sq k)) = [] \<and> sq_entries (Ack io sq k) = []"
    with Ack_file(1) [OF o] show ?thesis
      by (auto simp: sq_inv_def pending_def intro!: exI [of _ "[]"])
  qed
qed

lemmas sq_file_defs = file_write_def file_seek_def file_sync_def

lemma Add_dup: "pending sq k \<noteq> None \<Longrightarrow> Add io sq k d = (sq, None)"
  by (simp add: Add_def pending_def)

lemma Add_pending:
  assumes "Add io sq k d = (sq', r)"
  shows "pending sq' = (if r = None \<and> pending sq k = None then (pending sq)(k \<mapsto> d) else pending sq)"
  using assms
  by (auto simp: Add_def pending_def sq_put_def update_conv' Let_def
      split: prod.splits option.splits if_splits)

lemma Add_ok:
  assumes "Add io sq k d = (sq', None)" "pending sq k = None" "f_open (sq_file sq)"
  shows "sq' = sq_put (sq\<lparr>sq_file := (sq_file sq)\<lparr>f_bytes := f_bytes (sq_file sq) @ sq_record (k, d),
    f_off := length (f_bytes (sq_file sq) @ sq_record (k, d))\<rparr>\<rparr>) (k, d)"
  using assms
  by (auto simp: Add_def pending_def sq_file_defs sq_record_pair Let_def add.assoc
      split: prod.splits option.splits if_splits wr.splits)

lemma Add_inv:
  assumes "sq_inv sq" "Add io sq k d = (sq', None)" "sq_ok (k, d)"
  shows "sq_inv sq'"
proof (cases "pending sq k")
  case (Some v)
  with assms show ?thesis by (simp add: Add_dup)
next
  case None
  from assms(1) obtain rs where rs: "\<forall>r\<in>set rs. sq_ok r" "f_bytes (sq_file sq) = concat (map sq_record rs)"
    "pending sq \<subseteq>\<^sub>m map_of (replay rs)" and o: "f_open (sq_file sq)" and d: "distinct (map fst (sq_entries sq))"
    by (auto simp: sq_inv_def)
  have sub: "(pending sq)(k \<mapsto> d) \<subseteq>\<^sub>m map_of (replay (rs @ [(k, d)]))"
    using rs(3) by (auto simp: update_conv' map_le_def)
  show ?thesis
    using Add_ok [OF assms(2) None o] rs(1,2) sub o d assms(3)
    by (auto simp: sq_inv_def sq_put_def pending_def update_conv' distinct_update
        intro!: exI [of _ "rs @ [(k, d)]"])
qed

section \<open>The interface of a queue of unacknowledged entries\<close>

text \<open>What the game session relies on.\<close>

locale ack_queue =
  fixes add :: "'io \<Rightarrow> 'q \<Rightarrow> bytes \<Rightarrow> bytes \<Rightarrow> 'q \<times> go_error option"
    and ack :: "'aio \<Rightarrow> 'q \<Rightarrow> bytes \<Rightarrow> 'q"
    and pend :: "'q \<Rightarrow> bytes \<rightharpoonup> bytes"
  assumes pend_add: "add io q k d = (q', r) \<Longrightarrow>
      pend q' = (if r = None \<and> pend q k = None then (pend q)(k \<mapsto> d) else pend q)"
    and pend_ack: "pend (ack aio q k) = (pend q)(k := None)"
begin

lemma add_stored: "add io q k d = (q', None) \<Longrightarrow> k \<in> dom (pend q')"
  by (auto dest!: pend_add simp: domIff)

lemma add_keeps: "dom (pend q) \<subseteq> dom (pend (fst (add io q k d)))"
  by (cases "add io q k d") (auto dest!: pend_add)

lemma add_dom: "dom (pend (fst (add io q k d))) \<subseteq> insert k (dom (pend q))"
  by (cases "add io q k d") (auto dest!: pend_add split: if_splits)

lemma ack_dom: "dom (pend (ack aio q k)) = dom (pend q) - {k}"
  by (auto simp: pend_ack)

end

interpretation sq: ack_queue Add Ack pending
  by unfold_locales (simp_all add: Add_pending pending_Ack)

lemma Pending_mset: "range_order ord \<Longrightarrow> mset (Pending ord sq) = mset (map snd (sq_entries sq))"
  by (simp add: Pending_def range_order_def)

lemma Pending_set:
  assumes "sq_inv sq" "range_order ord"
  shows "set (Pending ord sq) = ran (pending sq)"
  using assms mset_eq_setD [OF Pending_mset [OF assms(2), of sq]]
  by (simp add: sq_inv_def pending_def ran_distinct)

lemma Add_all_ok:
  assumes "f_open (sq_file q)"
  shows "snd (Add add_all_ok q k d) = None" "f_open (sq_file (fst (Add add_all_ok q k d)))"
  using assms by (simp_all add: Add_def sq_file_defs add_all_ok_def Let_def sq_put_def)

section \<open>Runs\<close>

datatype sq_op = OpAdd sq_add_io bytes bytes | OpAck sq_ack_io bytes

fun sq_apply :: "SendQueue \<Rightarrow> sq_op \<Rightarrow> SendQueue" where
  "sq_apply q (OpAdd io k d) = fst (Add io q k d)"
| "sq_apply q (OpAck io k) = Ack io q k"

fun sq_run_ok :: "SendQueue \<Rightarrow> sq_op list \<Rightarrow> bool" where
  "sq_run_ok q [] = True"
| "sq_run_ok q (OpAdd io k d # ops) =
     (sq_ok (k, d) \<and> snd (Add io q k d) = None \<and> sq_run_ok (fst (Add io q k d)) ops)"
| "sq_run_ok q (OpAck io k # ops) = sq_run_ok (Ack io q k) ops"

lemma sq_run_inv: "sq_inv q \<Longrightarrow> sq_run_ok q ops \<Longrightarrow> sq_inv (foldl sq_apply q ops)"
proof (induction q ops rule: sq_run_ok.induct)
  case (2 q io k d ops)
  then show ?case using Add_inv [of q io k d "fst (Add io q k d)"] by (cases "Add io q k d") auto
qed (auto intro: Ack_inv)

lemma sq_inv_reopen:
  assumes "sq_inv q"
  shows "\<exists>q'. OpenSendQueue (Inr (f_bytes (sq_file q))) EOF = Some (Inr q') \<and>
    pending q \<subseteq>\<^sub>m pending q' \<and> sq_inv q'"
proof -
  from assms obtain rs where rs: "\<forall>r\<in>set rs. sq_ok r" "f_bytes (sq_file q) = concat (map sq_record rs)"
    "pending q \<subseteq>\<^sub>m map_of (replay rs)" by (auto simp: sq_inv_def)
  with OpenSendQueue_records [OF rs(1)] show ?thesis
    by (auto simp: sq_inv_def pending_def distinct_replay intro!: exI [of _ rs])
qed

abbreviation empty_queue :: SendQueue where
  "empty_queue \<equiv> \<lparr>sq_file = \<lparr>f_bytes = [], f_off = 0, f_open = True\<rparr>, sq_entries = [], sq_done = False\<rparr>"

lemma empty_queue_inv: "sq_inv empty_queue"
  by (auto simp: sq_inv_def pending_def intro!: exI [of _ "[]"])

section \<open>Properties\<close>

text \<open>The send queue is a map with insert-if-absent and delete: \<^verbatim>\<open>Add\<close> stores an entry whose key is
  not pending and leaves the queue alone otherwise or on an error, and \<^verbatim>\<open>Ack\<close> removes exactly the
  acknowledged key, whatever the disk does.\<close>

theorem send_queue_is_map:
  "pending (fst (Add io sq k d)) =
     (if snd (Add io sq k d) = None \<and> pending sq k = None then (pending sq)(k \<mapsto> d) else pending sq) \<and>
   pending (Ack aio sq k) = (pending sq)(k := None)"
  by (cases "Add io sq k d") (auto simp: sq.pend_ack dest: sq.pend_add)


lemma example_run_ok:
  "sq_run_ok empty_queue [OpAdd add_all_ok (replicate 16 1) [5, 6], OpAdd add_all_ok (replicate 16 2) [7],
     OpAck ack_all_ok (replicate 16 1)]"
  by (simp add: Add_all_ok sq_ok_def)


text \<open>When the last pending entry is acknowledged and the truncation succeeds, the file is empty, so
  nothing comes back after a restart; an acknowledged entry comes back only while others are pending.\<close>

theorem send_queue_drained:
  assumes "sq_inv q" "pending q \<noteq> Map.empty" "pending (Ack io q k) = Map.empty" "ack_trunc io"
  shows "OpenSendQueue (Inr (f_bytes (sq_file (Ack io q k)))) EOF = Some (Inr empty_queue)"
proof -
  have "sq_entries q \<noteq> []" "AList.delete k (sq_entries q) = []"
    using assms(2,3) by (auto simp: pending_def Ack_entries)
  with assms(1,4) have "f_bytes (sq_file (Ack io q k)) = []"
    by (auto simp: Ack_def sq_inv_def file_truncate_def file_seek_def)
  with OpenSendQueue_records [of "[]"] show ?thesis by simp
qed

theorem send_queue_drained_witness:
  "OpenSendQueue (Inr (f_bytes (sq_file (Ack ack_all_ok
      (fst (Add add_all_ok empty_queue (replicate 16 1) [5, 6])) (replicate 16 1))))) EOF = Some (Inr empty_queue)"
proof (rule send_queue_drained)
  let ?q = "fst (Add add_all_ok empty_queue (replicate 16 1) [5, 6])"
  have A: "Add add_all_ok empty_queue (replicate 16 1) [5, 6] = (?q, None)"
    by (simp add: prod_eq_iff Add_all_ok)
  from Add_inv [OF empty_queue_inv A] show "sq_inv ?q" by (simp add: sq_ok_def)
  from Add_pending [OF A] show "pending ?q \<noteq> Map.empty"
    and "pending (Ack ack_all_ok ?q (replicate 16 1)) = Map.empty"
    by (simp_all add: pending_Ack) (simp_all add: pending_def fun_upd_idem)
qed (simp add: ack_all_ok_def)

text \<open>C11: A failed \<^verbatim>\<open>Add\<close> is not undone on disk. There is a failure in the middle of writing one entry after
  which a later \<^verbatim>\<open>Add\<close> reports success and its entry is pending, and yet the queue's file does not
  open any more.\<close>

theorem send_queue_torn_write:
  "\<exists>io k1 d1 k2 d2 q1 q2 err e. Add io empty_queue k1 d1 = (q1, Some err) \<and>
     Add add_all_ok q1 k2 d2 = (q2, None) \<and> pending q2 k2 = Some d2 \<and>
     OpenSendQueue (Inr (f_bytes (sq_file q2))) EOF = Some (Inl e)"
proof (intro exI conjI)
  let ?q1 = "empty_queue\<lparr>sq_file := \<lparr>f_bytes = replicate 3 1, f_off = 3, f_open = True\<rparr>\<rparr>"
  let ?bs = "replicate 3 1 @ replicate 16 2 @ [2, 0, 0, 0] @ [7, 8]"
  let ?q2 = "?q1\<lparr>sq_file := \<lparr>f_bytes = ?bs, f_off = 25, f_open = True\<rparr>, sq_entries := [(replicate 16 2, [7, 8])]\<rparr>"
  show "Add (add_all_ok\<lparr>add_id := WrFail 3\<rparr>) empty_queue (replicate 16 1) [5] =
      (?q1, Some (Wrapf ''failed to write entry ID to send queue: %v'' (SysErr 5)))"
    by (simp add: Add_def sq_file_defs add_all_ok_def Let_def)
  show "Add add_all_ok ?q1 (replicate 16 2) [7, 8] = (?q2, None)"
    by (simp add: Add_def sq_file_defs add_all_ok_def Let_def sq_put_def LE_PutUint32_def write_at_def)
  show "pending ?q2 (replicate 16 2) = Some [7, 8]" by (simp add: pending_def)
  have bs: "?bs = (replicate 3 1 @ replicate 13 2) @ [2, 2, 2, 2] @ [0, 0, 0, 7, 8]"
    by (simp add: eval_nat_numeral)
  have "read_full 16 EOF ?bs = Inr (replicate 3 1 @ replicate 13 2, [2, 2, 2, 2] @ [0, 0, 0, 7, 8])"
    unfolding bs by (rule read_full_append) simp
  moreover have "read_full 4 EOF ([2, 2, 2, 2] @ [0, 0, 0, 7, 8]) = Inr ([2, 2, 2, 2], [0, 0, 0, 7, 8])"
    by (rule read_full_append) simp
  moreover have "LE_Uint32 [2, 2, 2, 2] = Some 0x02020202" by simp
  moreover have "read_full (unat (0x02020202 :: u32)) EOF [0, 0, 0, 7, 8] = Inl UnexpectedEOF"
    by (simp add: read_full_def)
  ultimately have "loadSendQueue EOF q ?bs =
      Some (Inl (Wrapf ''send queue: failed to read entry data: %v'' UnexpectedEOF))" for q
    by (subst loadSendQueue.simps) (simp del: append.simps append_Cons LE_Uint32.simps)
  then show "OpenSendQueue (Inr (f_bytes (sq_file ?q2))) EOF =
      Some (Inl (Wrapf ''send queue: failed to read entry data: %v'' UnexpectedEOF))"
    by (simp add: OpenSendQueue_def opened_file_def del: append.simps append_Cons)
qed

end
