(* ===== verification/PositionSystem.thy ===== *)
theory PositionSystem
  imports Protocol IpcMsg SendQueue
begin

text \<open>
  The positions of the other players, \<^verbatim>\<open>client/internal/game/position_system.go\<close>: the client sends
  its own position every 50 ms and gives each other player a 16-bit local id for the game, which
  returns to a free list when the player has not been heard of for 30 ticks. The mutex makes each
  operation one step. Shown: no two players share an id, ids are reused only after a time-out, and
  a player is forgotten after exactly 30 ticks without a position.

  The map from player ids is an association list; \<open>ord\<close> is the order in which Go ranges over it.
\<close>

section \<open>State\<close>

record PositionData =
  pd_Key :: u16
  pd_X :: i16
  pd_Y :: i16
  pd_Z :: i16

record PlayerData =
  pl_Name :: bytes
  pl_LocalID :: u16
  pl_TTL :: int

record PositionSystem =
  ps_pos :: PositionData
  ps_local :: "(bytes \<times> PlayerData) list"
  ps_localIdFree :: "u16 list"
  ps_localIdNext :: u16

definition createPositionSystem :: PositionSystem where
  "createPositionSystem =
     \<lparr>ps_pos = \<lparr>pd_Key = 0xffff, pd_X = 0, pd_Y = 0, pd_Z = 0\<rparr>, ps_local = [], ps_localIdFree = [],
      ps_localIdNext = 1\<rparr>"

section \<open>Operations\<close>

text \<open>The packet for \<^verbatim>\<open>TrySendUplink\<close>, if there is a new position, and the state afterwards.\<close>

definition sendSelfPos :: "PositionSystem \<Rightarrow> PositionSystem \<times> Packet list" where
  "sendSelfPos s =
     (if pd_Key (ps_pos s) \<noteq> 0xffff then
        let body = \<lparr>cp_Key = pd_Key (ps_pos s), cp_X = pd_X (ps_pos s), cp_Y = pd_Y (ps_pos s),
              cp_Z = pd_Z (ps_pos s)\<rparr>;
            pkt = \<lparr>pkt_Op = OpPosition, pkt_Data = ClientPosition_Serialize body\<rparr>
        in (s\<lparr>ps_pos := (ps_pos s)\<lparr>pd_Key := 0xffff\<rparr>\<rparr>, [pkt])
      else (s, []))"

text \<open>The body of the loop of \<^verbatim>\<open>lowerTTLs\<close> for one player.\<close>

definition lowerTTL :: "PositionSystem \<Rightarrow> bytes \<Rightarrow> PositionSystem" where
  "lowerTTL s ident =
     (case map_of (ps_local s) ident of
        None \<Rightarrow> s
      | Some data \<Rightarrow>
          let data = data\<lparr>pl_TTL := pl_TTL data - 1\<rparr>
          in if pl_TTL data \<le> 0
             then s\<lparr>ps_local := AList.delete ident (ps_local s),
                    ps_localIdFree := ps_localIdFree s @ [pl_LocalID data]\<rparr>
             else s\<lparr>ps_local := AList.update ident data (ps_local s)\<rparr>)"

definition lowerTTLs :: "(bytes list \<Rightarrow> bytes list) \<Rightarrow> PositionSystem \<Rightarrow> PositionSystem" where
  "lowerTTLs ord s = foldl lowerTTL s (ord (map fst (ps_local s)))"

definition tick :: "(bytes list \<Rightarrow> bytes list) \<Rightarrow> PositionSystem \<Rightarrow> PositionSystem \<times> Packet list" where
  "tick ord s = (let (s, pkts) = sendSelfPos s in (lowerTTLs ord s, pkts))"

definition OnGamePos :: "PositionSystem \<Rightarrow> MessageBodyPositionIn \<Rightarrow> PositionSystem" where
  "OnGamePos s msg =
     s\<lparr>ps_pos := \<lparr>pd_Key = pi_Key msg, pd_X = pi_X msg, pd_Y = pi_Y msg, pd_Z = pi_Z msg\<rparr>\<rparr>"

text \<open>The state afterwards and the message for \<^verbatim>\<open>TrySend\<close>.\<close>

definition OnServerPos :: "PositionSystem \<Rightarrow> ServerPosition \<Rightarrow> (PositionSystem \<times> Message) option" where
  "OnServerPos s pkt =
     (let (s, data) =
        (case map_of (ps_local s) (sp_ID pkt) of
           None \<Rightarrow>
             (let (s, localID) =
                (if length (ps_localIdFree s) > 0 then
                   (s\<lparr>ps_localIdFree := take (length (ps_localIdFree s) - 1) (ps_localIdFree s)\<rparr>,
                    ps_localIdFree s ! (length (ps_localIdFree s) - 1))
                 else (s\<lparr>ps_localIdNext := ps_localIdNext s + 1\<rparr>, ps_localIdNext s));
                  data = \<lparr>pl_Name = sp_Name pkt, pl_LocalID = localID, pl_TTL = 30\<rparr>
              in (s\<lparr>ps_local := AList.update (sp_ID pkt) data (ps_local s)\<rparr>, data))
         | Some data \<Rightarrow>
             (let data = data\<lparr>pl_TTL := 30\<rparr>
              in (s\<lparr>ps_local := AList.update (sp_ID pkt) data (ps_local s)\<rparr>, data)))
      in do {
        color \<leftarrow> slice (sp_ID pkt) 0 2 \<bind> BE_Uint16;
        let body = \<lparr>po_ID = pl_LocalID data, po_Color = color, po_Name = sp_Name pkt,
              po_Key = sp_Key pkt, po_X = sp_X pkt, po_Y = sp_Y pkt, po_Z = sp_Z pkt\<rparr>;
        Some (s, \<lparr>msg_Seq = 0, msg_Op = ipc_OpPosition,
          msg_Payload = MessageBodyPositionOut_Serialize body\<rparr>)
      })"

section \<open>Invariant\<close>

definition live_ids :: "PositionSystem \<Rightarrow> u16 list" where
  "live_ids s = map (pl_LocalID \<circ> snd) (ps_local s)"

text \<open>
  The ids in use and the free ones are together exactly the ids handed out so far, each once;
  every player's time to live is between 1 and 30.
\<close>

definition ps_inv :: "PositionSystem \<Rightarrow> bool" where
  "ps_inv s \<longleftrightarrow> distinct (map fst (ps_local s)) \<and> 0 < ps_localIdNext s \<and>
     mset (live_ids s) + mset (ps_localIdFree s) = mset (map of_nat [1..<unat (ps_localIdNext s)]) \<and>
     (\<forall>d\<in>snd ` set (ps_local s). 1 \<le> pl_TTL d \<and> pl_TTL d \<le> 30)"

text \<open>What a tick without news does to what is known of a player.\<close>

definition aged :: "PlayerData option \<Rightarrow> PlayerData option" where
  "aged d = (case d of None \<Rightarrow> None
     | Some d \<Rightarrow> if pl_TTL d \<le> 1 then None else Some (d\<lparr>pl_TTL := pl_TTL d - 1\<rparr>))"

section \<open>Lemmas on association lists\<close>

lemma mset_snd_delete:
  "distinct (map fst al) \<Longrightarrow> map_of al k = Some v \<Longrightarrow>
   mset (map snd al) = add_mset v (mset (map snd (AList.delete k al)))"
proof (induction al)
  case (Cons x al)
  have "AList.delete k al = al" if "k \<notin> fst ` set al"
    using that by (simp add: delete_notin_dom)
  with Cons show ?case by (cases x) (auto split: if_splits)
qed simp

lemma map_snd_update:
  "distinct (map fst al) \<Longrightarrow> map_of al k = Some v \<Longrightarrow> f v' = f v \<Longrightarrow>
   map (f \<circ> snd) (AList.update k v' al) = map (f \<circ> snd) al"
  by (induction al) auto

lemma map_snd_update_new:
  "map_of al k = None \<Longrightarrow> AList.update k v al = al @ [(k, v)]"
  by (induction al) (auto split: if_splits)

lemma snd_set_update: "snd ` set (AList.update k v al) \<subseteq> insert v (snd ` set al)"
  by (induction al) auto

section \<open>The invariant is kept\<close>

lemma create_inv: "ps_inv createPositionSystem"
  by (simp add: ps_inv_def createPositionSystem_def live_ids_def)

lemma lowerTTL_ids:
  assumes "distinct (map fst (ps_local s))"
  shows "mset (live_ids (lowerTTL s k)) + mset (ps_localIdFree (lowerTTL s k)) =
    mset (live_ids s) + mset (ps_localIdFree s)"
proof (cases "map_of (ps_local s) k")
  case (Some d)
  have "mset (live_ids s) = add_mset (pl_LocalID d) (mset (map (pl_LocalID \<circ> snd) (AList.delete k (ps_local s))))"
    using arg_cong [OF mset_snd_delete [OF assms Some], of "image_mset pl_LocalID"]
    by (simp add: live_ids_def image_mset.compositionality comp_def)
  moreover have "map (pl_LocalID \<circ> snd) (AList.update k (d\<lparr>pl_TTL := t\<rparr>) (ps_local s)) = live_ids s" for t
    using map_snd_update [OF assms Some, of pl_LocalID] by (simp add: live_ids_def)
  ultimately show ?thesis
    using Some by (simp add: lowerTTL_def live_ids_def Let_def del: mset_map)
qed (simp add: lowerTTL_def)

lemma lowerTTL_frame [simp]:
  "ps_localIdNext (lowerTTL s k) = ps_localIdNext s" "ps_pos (lowerTTL s k) = ps_pos s"
  by (simp_all add: lowerTTL_def Let_def split: option.split)

lemma lowerTTL_inv:
  assumes "ps_inv s"
  shows "ps_inv (lowerTTL s k)"
proof (cases "map_of (ps_local s) k")
  case (Some d)
  have dist: "distinct (map fst (ps_local s))" and ttl: "\<forall>d\<in>snd ` set (ps_local s). 1 \<le> pl_TTL d \<and> pl_TTL d \<le> 30"
    using assms by (simp_all add: ps_inv_def)
  from Some ttl have d: "1 \<le> pl_TTL d" "pl_TTL d \<le> 30" by (force dest: map_of_SomeD)+
  have "\<forall>d\<in>snd ` set (ps_local (lowerTTL s k)). 1 \<le> pl_TTL d \<and> pl_TTL d \<le> 30"
  proof (cases "pl_TTL d \<le> 1")
    case True
    then show ?thesis
      using Some ttl by (simp add: lowerTTL_def Let_def AList.delete_eq)
  next
    case False
    then show ?thesis
      using Some d ttl subsetD [OF snd_set_update [of k "d\<lparr>pl_TTL := pl_TTL d - 1\<rparr>" "ps_local s"]]
      by (fastforce simp: lowerTTL_def Let_def)
  qed
  moreover have "distinct (map fst (ps_local (lowerTTL s k)))"
    using Some dist by (simp add: lowerTTL_def Let_def distinct_delete distinct_update)
  ultimately show ?thesis
    using assms lowerTTL_ids [OF dist, of k] by (simp add: ps_inv_def)
qed (use assms in \<open>simp add: lowerTTL_def\<close>)

lemma foldl_lowerTTL_inv: "ps_inv s \<Longrightarrow> ps_inv (foldl lowerTTL s ks)"
  by (induction ks arbitrary: s) (auto simp: lowerTTL_inv)

lemma lowerTTLs_inv: "ps_inv s \<Longrightarrow> ps_inv (lowerTTLs ord s)"
  by (simp add: lowerTTLs_def foldl_lowerTTL_inv)

lemma sendSelfPos_frame [simp]:
  "ps_local (fst (sendSelfPos s)) = ps_local s" "ps_localIdFree (fst (sendSelfPos s)) = ps_localIdFree s"
  "ps_localIdNext (fst (sendSelfPos s)) = ps_localIdNext s"
  by (simp_all add: sendSelfPos_def Let_def)

lemma sendSelfPos_inv [simp]: "ps_inv (fst (sendSelfPos s)) = ps_inv s"
  by (simp add: ps_inv_def live_ids_def)

lemma fst_tick: "fst (tick ord s) = lowerTTLs ord (fst (sendSelfPos s))"
  by (simp add: tick_def split_beta)

lemma tick_inv: "ps_inv s \<Longrightarrow> ps_inv (fst (tick ord s))"
  by (simp add: fst_tick lowerTTLs_inv)

lemma OnGamePos_inv: "ps_inv s \<Longrightarrow> ps_inv (OnGamePos s m)"
  by (simp add: ps_inv_def OnGamePos_def live_ids_def)

section \<open>Ageing\<close>

lemma lowerTTL_map_of:
  "map_of (ps_local (lowerTTL s k)) = (map_of (ps_local s))(k := aged (map_of (ps_local s) k))"
  by (auto simp: lowerTTL_def aged_def Let_def update_conv' delete_conv' fun_eq_iff split: option.split)

lemma foldl_lowerTTL_map_of:
  "distinct ks \<Longrightarrow> map_of (ps_local (foldl lowerTTL s ks)) k =
     (if k \<in> set ks then aged (map_of (ps_local s) k) else map_of (ps_local s) k)"
  by (induction ks arbitrary: s) (auto simp: lowerTTL_map_of)

text \<open>A pass over the players, in any order, ages each of them once.\<close>

lemma lowerTTLs_map_of:
  assumes "ps_inv s" "range_order ord"
  shows "map_of (ps_local (lowerTTLs ord s)) k = aged (map_of (ps_local s) k)"
proof -
  let ?ks = "ord (map fst (ps_local s))"
  have m: "mset ?ks = mset (map fst (ps_local s))" using assms(2) by (simp add: range_order_def)
  from assms(1) have "distinct ?ks" by (metis m mset_eq_imp_distinct_iff ps_inv_def)
  moreover have "k \<notin> set ?ks \<Longrightarrow> map_of (ps_local s) k = None"
    using mset_eq_setD [OF m] by (simp add: map_of_eq_None_iff)
  ultimately show ?thesis by (auto simp: lowerTTLs_def foldl_lowerTTL_map_of aged_def)
qed

lemma tick_map_of:
  assumes "ps_inv s" "range_order ord"
  shows "map_of (ps_local (fst (tick ord s))) k = aged (map_of (ps_local s) k)"
  using lowerTTLs_map_of [of "fst (sendSelfPos s)"] assms by (simp add: fst_tick)

lemma tick_iterate:
  assumes "ps_inv s" "range_order ord" "map_of (ps_local s) k = Some d"
  shows "map_of (ps_local (((\<lambda>s. fst (tick ord s)) ^^ n) s)) k =
    (if int n < pl_TTL d then Some (d\<lparr>pl_TTL := pl_TTL d - int n\<rparr>) else None)"
proof (induction n)
  case 0
  from assms(1,3) have "1 \<le> pl_TTL d" by (force simp: ps_inv_def dest: map_of_SomeD)
  with assms(3) show ?case by simp
next
  case (Suc n)
  have "ps_inv (((\<lambda>s. fst (tick ord s)) ^^ n) s)" by (induction n) (auto simp: assms(1) tick_inv)
  from tick_map_of [OF this assms(2)] Suc show ?case by (auto simp: aged_def)
qed

section \<open>Positions from the server\<close>

definition position_msg :: "ServerPosition \<Rightarrow> u16 \<Rightarrow> Message \<Rightarrow> bool" where
  "position_msg p i m \<longleftrightarrow> msg_Op m = ipc_OpPosition \<and>
     (\<exists>c. BE_Uint16 (sp_ID p) = Some c \<and>
       msg_Payload m = MessageBodyPositionOut_Serialize \<lparr>po_ID = i, po_Color = c, po_Name = sp_Name p,
         po_Key = sp_Key p, po_X = sp_X p, po_Y = sp_Y p, po_Z = sp_Z p\<rparr>)"

text \<open>The three ways \<^const>\<open>OnServerPos\<close> goes: a player it knows, a freed id, a fresh id.\<close>

lemma OnServerPos_cases:
  assumes "length (sp_ID p) = 16"
  obtains (known) d m where
      "map_of (ps_local s) (sp_ID p) = Some d" "position_msg p (pl_LocalID d) m"
      "OnServerPos s p = Some (s\<lparr>ps_local := AList.update (sp_ID p) (d\<lparr>pl_TTL := 30\<rparr>) (ps_local s)\<rparr>, m)"
  | (reused) i free m where
      "map_of (ps_local s) (sp_ID p) = None" "ps_localIdFree s = free @ [i]" "position_msg p i m"
      "OnServerPos s p = Some (s\<lparr>ps_localIdFree := free,
         ps_local := ps_local s @ [(sp_ID p, \<lparr>pl_Name = sp_Name p, pl_LocalID = i, pl_TTL = 30\<rparr>)]\<rparr>, m)"
  | (fresh) m where
      "map_of (ps_local s) (sp_ID p) = None" "ps_localIdFree s = []" "position_msg p (ps_localIdNext s) m"
      "OnServerPos s p = Some (s\<lparr>ps_localIdNext := ps_localIdNext s + 1,
         ps_local := ps_local s @ [(sp_ID p, \<lparr>pl_Name = sp_Name p, pl_LocalID = ps_localIdNext s, pl_TTL = 30\<rparr>)]\<rparr>, m)"
proof -
  from assms obtain b0 b1 bs where b: "sp_ID p = b0 # b1 # bs"
    by (cases "sp_ID p"; cases "tl (sp_ID p)") auto
  define c :: u16 where "c = ucast b1 OR push_bit 8 (ucast b0)"
  have c: "slice (sp_ID p) 0 2 \<bind> BE_Uint16 = Some c" "BE_Uint16 (sp_ID p) = Some c"
    using assms by (simp_all add: b c_def)
  let ?m = "\<lambda>i. \<lparr>msg_Seq = 0, msg_Op = ipc_OpPosition, msg_Payload = MessageBodyPositionOut_Serialize
    \<lparr>po_ID = i, po_Color = c, po_Name = sp_Name p, po_Key = sp_Key p, po_X = sp_X p, po_Y = sp_Y p, po_Z = sp_Z p\<rparr>\<rparr>"
  have m: "position_msg p i (?m i)" for i using c by (simp add: position_msg_def)
  show thesis
  proof (cases "map_of (ps_local s) (sp_ID p)")
    case (Some d)
    show thesis by (rule known [OF Some m]) (simp add: OnServerPos_def Some c Let_def)
  next
    case None
    show thesis
    proof (cases "ps_localIdFree s" rule: rev_cases)
      case Nil
      show thesis
        by (rule fresh [OF None Nil m]) (simp add: OnServerPos_def None Nil c Let_def map_snd_update_new)
    next
      case (snoc free i)
      show thesis
        by (rule reused [OF None snoc m]) (simp add: OnServerPos_def None snoc c Let_def map_snd_update_new)
    qed
  qed
qed

lemma next_ids:
  assumes "(n :: u16) \<noteq> 0" "n + 1 \<noteq> 0"
  shows "mset (map of_nat [1..<unat (n + 1)]) = add_mset n (mset (map of_nat [1..<unat n]))"
proof -
  from assms(2) have "unat (n + 1) = Suc (unat n)" by (metis add.commute unatSuc)
  moreover have "1 \<le> unat n" using assms(1) by (simp add: Suc_le_eq unat_gt_0)
  ultimately show ?thesis by simp
qed

text \<open>
  With fewer than 65534 players known, an id is free or the counter has not reached its end.
\<close>

lemma no_wrap:
  assumes "ps_inv s" "length (ps_local s) < 65534" "ps_localIdFree s = []"
  shows "ps_localIdNext s + 1 \<noteq> 0"
proof
  assume "ps_localIdNext s + 1 = 0"
  then have "ps_localIdNext s = - 1" by (simp add: eq_neg_iff_add_eq_0)
  then have "unat (ps_localIdNext s) = 65535" by (simp add: unsigned_minus_1_eq_mask mask_eq_exp_minus_1)
  moreover have "size (mset (live_ids s)) = unat (ps_localIdNext s) - 1"
    using assms(1,3) unfolding ps_inv_def by (metis add.right_neutral length_map length_upt mset.simps(1) size_mset)
  ultimately show False using assms(2) by (simp add: live_ids_def)
qed

lemma OnServerPos_inv:
  assumes "ps_inv s" "length (sp_ID p) = 16"
    and "sp_ID p \<in> fst ` set (ps_local s) \<or> length (ps_local s) < 65534"
    and "OnServerPos s p = Some (s', m)"
  shows "ps_inv s'"
  using assms(2)
proof (cases rule: OnServerPos_cases [where s = s])
  case (known d m')
  have dist: "distinct (map fst (ps_local s))" using assms(1) by (simp add: ps_inv_def)
  have "map (pl_LocalID \<circ> snd) (AList.update (sp_ID p) (d\<lparr>pl_TTL := 30\<rparr>) (ps_local s)) = live_ids s"
    using map_snd_update [OF dist known(1), of pl_LocalID] by (simp add: live_ids_def)
  with known assms(1,4) subsetD [OF snd_set_update [of "sp_ID p" "d\<lparr>pl_TTL := 30\<rparr>" "ps_local s"]]
  show ?thesis by (fastforce simp: ps_inv_def live_ids_def distinct_update simp del: mset_map)
next
  case (reused i free m')
  with assms(1,4) show ?thesis
    by (auto simp: ps_inv_def live_ids_def map_of_eq_None_iff)
next
  case (fresh m')
  have "ps_localIdNext s + 1 \<noteq> 0" using no_wrap assms(1,3) fresh(1,2) by (auto simp: map_of_eq_None_iff)
  with fresh assms(1,4) next_ids [of "ps_localIdNext s"] show ?thesis
    by (auto simp: ps_inv_def live_ids_def map_of_eq_None_iff word_gt_0 simp del: mset_map)
qed

lemma OnServerPos_spec:
  assumes "length (sp_ID p) = 16"
  shows "\<exists>s' m d. OnServerPos s p = Some (s', m) \<and> position_msg p (pl_LocalID d) m \<and>
    map_of (ps_local s') (sp_ID p) = Some d \<and> pl_TTL d = 30 \<and>
    (\<forall>d0. map_of (ps_local s) (sp_ID p) = Some d0 \<longrightarrow> d = d0\<lparr>pl_TTL := 30\<rparr>) \<and>
    (\<forall>k. k \<noteq> sp_ID p \<longrightarrow> map_of (ps_local s') k = map_of (ps_local s) k)"
  using assms
proof (cases rule: OnServerPos_cases [where s = s])
  case (known d m)
  show ?thesis
    by (intro exI [of _ "d\<lparr>pl_TTL := 30\<rparr>"] exI conjI known(3)) (use known in \<open>auto simp: update_conv'\<close>)
next
  case (reused i free m)
  show ?thesis
    by (intro exI [of _ "\<lparr>pl_Name = sp_Name p, pl_LocalID = i, pl_TTL = 30\<rparr>"] exI conjI reused(4))
      (use reused in \<open>auto simp: map_add_def split: option.split\<close>)
next
  case (fresh m)
  show ?thesis
    by (intro exI [of _ "\<lparr>pl_Name = sp_Name p, pl_LocalID = ps_localIdNext s, pl_TTL = 30\<rparr>"] exI conjI fresh(4))
      (use fresh in \<open>auto simp: map_add_def split: option.split\<close>)
qed

section \<open>Runs\<close>

datatype ps_op = Tick | GamePos MessageBodyPositionIn | ServerPos ServerPosition

fun ps_apply :: "(bytes list \<Rightarrow> bytes list) \<Rightarrow> PositionSystem \<Rightarrow> ps_op \<Rightarrow> PositionSystem option" where
  "ps_apply ord s Tick = Some (fst (tick ord s))"
| "ps_apply ord s (GamePos m) = Some (OnGamePos s m)"
| "ps_apply ord s (ServerPos p) = map_option fst (OnServerPos s p)"

fun ps_run :: "(bytes list \<Rightarrow> bytes list) \<Rightarrow> PositionSystem \<Rightarrow> ps_op list \<Rightarrow> PositionSystem option" where
  "ps_run ord s [] = Some s"
| "ps_run ord s (op # ops) = ps_apply ord s op \<bind> (\<lambda>s. ps_run ord s ops)"

text \<open>The players a run hears of.\<close>

fun op_players :: "ps_op \<Rightarrow> bytes set" where
  "op_players (ServerPos p) = {sp_ID p}"
| "op_players _ = {}"

definition known_players :: "PositionSystem \<Rightarrow> bytes set" where
  "known_players s = fst ` set (ps_local s)"

lemma length_known: "ps_inv s \<Longrightarrow> length (ps_local s) = card (known_players s)"
  unfolding ps_inv_def known_players_def by (metis distinct_card length_map set_map)

lemma dom_known: "known_players s = {k. map_of (ps_local s) k \<noteq> None}"
  by (simp add: known_players_def flip: dom_map_of_conv_image_fst add: dom_def)

lemma known_tick: "known_players (fst (tick ord s)) \<subseteq> known_players s"
proof -
  have "known_players (lowerTTL s k) \<subseteq> known_players s" for s k
    by (auto simp: dom_known lowerTTL_map_of aged_def split: if_splits option.splits)
  then have "known_players (foldl lowerTTL s ks) \<subseteq> known_players s" for s ks
    by (induction ks arbitrary: s) (simp, use subset_trans in \<open>simp, blast\<close>)
  from this [of "fst (sendSelfPos s)"] show ?thesis
    by (simp add: fst_tick lowerTTLs_def known_players_def)
qed

lemma OnServerPos_known:
  assumes "length (sp_ID p) = 16"
  shows "\<exists>s' m. OnServerPos s p = Some (s', m) \<and> known_players s' = insert (sp_ID p) (known_players s)"
  using assms by (cases rule: OnServerPos_cases [where s = s]) (simp_all add: known_players_def dom_update)

lemma ps_apply_step:
  assumes "ps_inv s" "\<forall>k\<in>op_players op. length k = 16" "card P \<le> 65534" "finite P"
    and "known_players s \<subseteq> P" "op_players op \<subseteq> P"
  shows "\<exists>s'. ps_apply ord s op = Some s' \<and> ps_inv s' \<and> known_players s' \<subseteq> P"
proof (cases op)
  case Tick
  then show ?thesis using assms(1,5) tick_inv known_tick by fastforce
next
  case (GamePos m)
  then show ?thesis using assms(1,5) OnGamePos_inv by (simp add: known_players_def OnGamePos_def)
next
  case (ServerPos p)
  with assms(2) have len: "length (sp_ID p) = 16" by simp
  obtain s' m where s': "OnServerPos s p = Some (s', m)"
    "known_players s' = insert (sp_ID p) (known_players s)"
    using OnServerPos_known [OF len] by blast
  have "card (insert (sp_ID p) (known_players s)) \<le> 65534"
    using ServerPos assms(3-6) card_mono [of P "insert (sp_ID p) (known_players s)"] by simp
  then have "sp_ID p \<in> fst ` set (ps_local s) \<or> length (ps_local s) < 65534"
    using length_known [OF assms(1)] by (auto simp: known_players_def card_insert_if split: if_splits)
  from OnServerPos_inv [OF assms(1) len this s'(1)] have "ps_inv s'" .
  with ServerPos s' assms(5,6) show ?thesis by simp
qed

lemma ps_run_inv:
  assumes "ps_inv s" "\<forall>k\<in>\<Union>(op_players ` set ops). length k = 16" "card P \<le> 65534" "finite P"
    and "known_players s \<subseteq> P" "\<Union>(op_players ` set ops) \<subseteq> P"
  shows "\<exists>s'. ps_run ord s ops = Some s' \<and> ps_inv s'"
  using assms
proof (induction ops arbitrary: s)
  case (Cons op ops)
  then obtain s1 where "ps_apply ord s op = Some s1" "ps_inv s1" "known_players s1 \<subseteq> P"
    using ps_apply_step [of s op P ord] by auto
  with Cons show ?case by simp
qed simp

lemma ps_inv_ids: "ps_inv s \<Longrightarrow> distinct (live_ids s) \<and> 0 \<notin> set (live_ids s)"
proof -
  assume inv: "ps_inv s"
  let ?all = "map of_nat [1..<unat (ps_localIdNext s)] :: u16 list"
  have u: "unat (of_nat i :: u16) = i" if "i < unat (ps_localIdNext s)" for i
    using less_trans [OF that unsigned_less] by (simp add: of_nat_inverse)
  have "inj_on (of_nat :: nat \<Rightarrow> u16) {1..<unat (ps_localIdNext s)}"
    by (rule inj_onI) (metis atLeastLessThan_iff u)
  then have "distinct ?all" by (simp add: distinct_map)
  moreover have "0 \<notin> set ?all"
    using u by (force dest: arg_cong [of _ _ unat])
  moreover from inv have m: "mset (live_ids s @ ps_localIdFree s) = mset ?all" by (simp add: ps_inv_def)
  ultimately have "distinct (live_ids s @ ps_localIdFree s)" "0 \<notin> set (live_ids s @ ps_localIdFree s)"
    using mset_eq_imp_distinct_iff mset_eq_setD by blast+
  then show ?thesis by simp
qed

section \<open>Properties\<close>

text \<open>C16: Whatever the order of ticks, game positions and server positions, as long as they come
  from at most 65534 players the system never panics, and in the state it reaches no two players
  have the same local id and none has id 0, whatever ids have been freed and reused on the way.\<close>

theorem position_ids_unique:
  assumes "\<forall>k\<in>\<Union>(op_players ` set ops). length k = 16"
    and "card (\<Union>(op_players ` set ops)) \<le> 65534"
  shows "\<exists>s. ps_run ord createPositionSystem ops = Some s \<and> distinct (live_ids s) \<and> 0 \<notin> set (live_ids s)"
proof -
  let ?P = "\<Union>(op_players ` set ops)"
  have "finite (op_players op)" for op by (cases op) auto
  then have "finite ?P" by blast
  moreover have "known_players createPositionSystem \<subseteq> ?P"
    by (simp add: known_players_def createPositionSystem_def)
  ultimately show ?thesis
    using ps_run_inv [OF create_inv assms(1,2)] ps_inv_ids by blast
qed

definition example_pos :: "byte \<Rightarrow> ServerPosition" where
  "example_pos b = \<lparr>sp_ID = replicate 16 b, sp_Name = replicate 8 65, sp_Key = 3, sp_X = 1,
     sp_Y = 2, sp_Z = 3\<rparr>"

theorem position_ids_unique_witness:
  "\<exists>s. ps_run rev createPositionSystem [ServerPos (example_pos 1), Tick, ServerPos (example_pos 2)] = Some s \<and>
     distinct (live_ids s) \<and> 0 \<notin> set (live_ids s)"
proof (rule position_ids_unique, goal_cases)
  case 1
  show ?case by (simp add: example_pos_def)
next
  case 2
  show ?case by (simp add: card_insert_if)
qed

text \<open>C17: A position from the server makes its player known for exactly the next 30 ticks if no other
  position of the player arrives: the record keeps the local id and name it had, or gets a fresh
  one, its time to live counts down from 30 to 1, and the message to the game carries that id.
  Other players are not touched by the packet.\<close>

theorem position_times_out:
  assumes "ps_inv s" "range_order ord" "length (sp_ID p) = 16" "length (ps_local s) < 65534"
  shows "\<exists>s' m d. OnServerPos s p = Some (s', m) \<and> position_msg p (pl_LocalID d) m \<and>
    (\<forall>d0. map_of (ps_local s) (sp_ID p) = Some d0 \<longrightarrow> d = d0\<lparr>pl_TTL := 30\<rparr>) \<and>
    (\<forall>k. k \<noteq> sp_ID p \<longrightarrow> map_of (ps_local s') k = map_of (ps_local s) k) \<and>
    (\<forall>n. map_of (ps_local (((\<lambda>s. fst (tick ord s)) ^^ n) s')) (sp_ID p) =
      (if n < 30 then Some (d\<lparr>pl_TTL := 30 - int n\<rparr>) else None))"
proof -
  obtain s' m d where s': "OnServerPos s p = Some (s', m)" "position_msg p (pl_LocalID d) m"
    "map_of (ps_local s') (sp_ID p) = Some d" "pl_TTL d = 30"
    "\<forall>d0. map_of (ps_local s) (sp_ID p) = Some d0 \<longrightarrow> d = d0\<lparr>pl_TTL := 30\<rparr>"
    "\<forall>k. k \<noteq> sp_ID p \<longrightarrow> map_of (ps_local s') k = map_of (ps_local s) k"
    using OnServerPos_spec [OF assms(3), of s] by (elim exE conjE) (rule that)
  from s'(1) have "ps_inv s'" using OnServerPos_inv assms(1,3,4) by blast
  from tick_iterate [OF this assms(2) s'(3)] s'(4)
  have "\<forall>n. map_of (ps_local (((\<lambda>s. fst (tick ord s)) ^^ n) s')) (sp_ID p) =
      (if n < 30 then Some (d\<lparr>pl_TTL := 30 - int n\<rparr>) else None)"
    by simp
  with s'(1,2,5,6) show ?thesis by (intro exI conjI)
qed

theorem position_times_out_witness:
  "\<exists>s' m d. OnServerPos createPositionSystem (example_pos 7) = Some (s', m) \<and>
     position_msg (example_pos 7) (pl_LocalID d) m \<and>
     map_of (ps_local (((\<lambda>s. fst (tick rev s)) ^^ 29) s')) (replicate 16 7) = Some (d\<lparr>pl_TTL := 1\<rparr>) \<and>
     map_of (ps_local (((\<lambda>s. fst (tick rev s)) ^^ 30) s')) (replicate 16 7) = None"
proof -
  have hyps: "range_order rev" "length (sp_ID (example_pos 7)) = 16" "length (ps_local createPositionSystem) < 65534"
    by (simp_all add: range_order_def example_pos_def createPositionSystem_def)
  obtain s' m d where *: "OnServerPos createPositionSystem (example_pos 7) = Some (s', m)"
    "position_msg (example_pos 7) (pl_LocalID d) m"
    "\<forall>n. map_of (ps_local (((\<lambda>s. fst (tick rev s)) ^^ n) s')) (sp_ID (example_pos 7)) =
      (if n < 30 then Some (d\<lparr>pl_TTL := 30 - int n\<rparr>) else None)"
    using position_times_out [OF create_inv hyps] by (elim exE conjE) (rule that)
  from *(3) [rule_format, of 29] *(3) [rule_format, of 30] have
    "map_of (ps_local (((\<lambda>s. fst (tick rev s)) ^^ 29) s')) (replicate 16 7) = Some (d\<lparr>pl_TTL := 1\<rparr>)"
    "map_of (ps_local (((\<lambda>s. fst (tick rev s)) ^^ 30) s')) (replicate 16 7) = None"
    by (simp_all add: example_pos_def del: funpow.simps)
  with *(1,2) show ?thesis by (intro exI conjI)
qed

end
