(* ===== verification/DataPath.thy ===== *)
theory DataPath
  imports Prelude
begin

text \<open>
  Hexadecimal text, as \<^verbatim>\<open>encoding/hex\<close> and \<^verbatim>\<open>fmt\<close> write and read it, and the directories that the
  server (\<^verbatim>\<open>getDataPath\<close>) and the client (\<^verbatim>\<open>makeDataDir\<close>) give to a session. Shown: decoding
  reads back what encoding writes, and two sessions never share a directory.
\<close>

section \<open>Hexadecimal text\<close>

definition hex_digit :: "nat \<Rightarrow> char" where
  "hex_digit n = ''0123456789abcdef'' ! n"

definition hex_byte :: "byte \<Rightarrow> string" where
  "hex_byte b = [hex_digit (unat b div 16), hex_digit (unat b mod 16)]"

text \<open>\<^verbatim>\<open>hex.EncodeToString\<close>, and \<^verbatim>\<open>%x\<close> on a byte slice.\<close>

definition EncodeToString :: "bytes \<Rightarrow> string" where
  "EncodeToString bs = concat (map hex_byte bs)"

definition fromHexChar :: "char \<Rightarrow> nat option" where
  "fromHexChar c =
     (let n = of_char c :: nat
      in if 48 \<le> n \<and> n \<le> 57 then Some (n - 48)
         else if 97 \<le> n \<and> n \<le> 102 then Some (n - 97 + 10)
         else if 65 \<le> n \<and> n \<le> 70 then Some (n - 65 + 10)
         else None)"

text \<open>\<^verbatim>\<open>hex.DecodeString\<close>; the code only asks whether there is an error.\<close>

fun DecodeString :: "string \<Rightarrow> bytes result" where
  "DecodeString [] = Inr []"
| "DecodeString [c] =
     (case fromHexChar c of None \<Rightarrow> Inl (Errorf ''encoding/hex: invalid byte: %#U'')
      | Some _ \<Rightarrow> Inl (Errorf ''encoding/hex: odd length hex string''))"
| "DecodeString (c # d # cs) =
     (case (fromHexChar c, fromHexChar d) of
        (Some a, Some b) \<Rightarrow>
          (case DecodeString cs of
             Inl err \<Rightarrow> Inl err
           | Inr bs \<Rightarrow> Inr (of_nat (a * 16 + b) # bs))
      | _ \<Rightarrow> Inl (Errorf ''encoding/hex: invalid byte: %#U''))"

section \<open>Session directories\<close>

text \<open>
  \<^verbatim>\<open>fmt.Sprintf("%s/sessions/%02x/%030x", prefix, id[0], id[1:])\<close>: \<^verbatim>\<open>%030x\<close> pads with zeros to
  30 digits. An empty id is a panic.
\<close>

definition session_path :: "string \<Rightarrow> bytes \<Rightarrow> string option" where
  "session_path dir sid =
     (case sid of
        [] \<Rightarrow> None
      | b # bs \<Rightarrow>
          (let digits = EncodeToString bs
           in Some (dir @ ''/sessions/'' @ hex_byte b @ ''/'' @
                replicate (30 - length digits) (CHR ''0'') @ digits)))"

text \<open>\<open>mkdir\<close> is what \<^verbatim>\<open>os.MkdirAll\<close> returns.\<close>

definition getDataPath :: "go_error option \<Rightarrow> string \<Rightarrow> bytes \<Rightarrow> string go" where
  "getDataPath mkdir dir sessionID =
     (case session_path dir sessionID of
        None \<Rightarrow> None
      | Some dataDir \<Rightarrow>
          (case mkdir of
             Some err \<Rightarrow> Some (Inl (Wrapf ''failed to create data directory: %v'' err))
           | None \<Rightarrow> Some (Inr dataDir)))"

definition makeDataDir :: "go_error option \<Rightarrow> string \<Rightarrow> bytes \<Rightarrow> string go" where
  "makeDataDir mkdir dir sid =
     (case session_path dir sid of
        None \<Rightarrow> None
      | Some dataDir \<Rightarrow>
          (case mkdir of Some err \<Rightarrow> Some (Inl err) | None \<Rightarrow> Some (Inr dataDir)))"

section \<open>Lemmas\<close>

lemma fromHexChar_digit: "n < 16 \<Longrightarrow> fromHexChar (hex_digit n) = Some n"
  by (auto simp: less_Suc_eq numeral_eq_Suc hex_digit_def fromHexChar_def)

lemma DecodeString_hex_byte:
  "DecodeString (hex_byte b @ cs) = (case DecodeString cs of Inl e \<Rightarrow> Inl e | Inr bs \<Rightarrow> Inr (b # bs))"
proof -
  have "unat b < 2 ^ 8" using unsigned_less [of b] by simp
  then have "unat b div 16 < 16" by simp
  moreover have "of_nat (unat b div 16 * 16 + unat b mod 16) = b"
    by (simp only: div_mult_mod_eq) simp
  ultimately show ?thesis
    by (simp add: hex_byte_def fromHexChar_digit del: of_nat_add of_nat_mult split: sum.split)
qed

lemma Decode_Encode: "DecodeString (EncodeToString bs) = Inr bs"
  by (induction bs) (simp_all add: EncodeToString_def DecodeString_hex_byte)

lemma EncodeToString_inject [simp]: "EncodeToString bs = EncodeToString bs' \<longleftrightarrow> bs = bs'"
  by (metis Decode_Encode sum.inject(2))

lemma length_EncodeToString [simp]: "length (EncodeToString bs) = 2 * length bs"
  by (induction bs) (simp_all add: EncodeToString_def hex_byte_def)

lemma EncodeToString_eq_Nil [simp]: "EncodeToString bs = [] \<longleftrightarrow> bs = []"
  by (metis length_0_conv length_EncodeToString mult_is_0 zero_neq_numeral)

lemma hex_byte_inject [simp]: "hex_byte b = hex_byte b' \<longleftrightarrow> b = b'"
  using EncodeToString_inject [of "[b]" "[b']"] by (simp add: EncodeToString_def)

lemma length_hex_byte [simp]: "length (hex_byte b) = 2"
  by (simp add: hex_byte_def)

lemma session_path_16:
  assumes "length sid = 16"
  shows "session_path dir sid =
    Some (dir @ ''/sessions/'' @ hex_byte (hd sid) @ ''/'' @ EncodeToString (tl sid))"
  using assms by (cases sid) (simp_all add: session_path_def)

text \<open>Hexadecimal text written by the program reads back, and with one data directory no two sessions
  of the server or of the client share a directory: the path of a 16-byte session id determines
  the id. Both sides use the same layout.\<close>

theorem session_paths_distinct:
  assumes "length sid = 16" "length sid' = 16"
    and "getDataPath None dir sid = Some (Inr p)" "makeDataDir None dir sid' = Some (Inr p')"
  shows "(p = p' \<longleftrightarrow> sid = sid') \<and> DecodeString (EncodeToString sid) = Inr sid"
proof -
  have ne: "sid = hd sid # tl sid" "sid' = hd sid' # tl sid'" 
    using assms(1,2) by (cases sid; simp; fail) (use assms(2) in \<open>cases sid'; simp\<close>)
  have "p = p' \<longleftrightarrow> hex_byte (hd sid) = hex_byte (hd sid') \<and> tl sid = tl sid'"
    using assms by (auto simp: getDataPath_def makeDataDir_def session_path_16)
  also have "\<dots> \<longleftrightarrow> sid = sid'" using ne by (metis hex_byte_inject)
  finally show ?thesis by (simp add: Decode_Encode)
qed

theorem session_paths_distinct_witness:
  "getDataPath None ''d'' (replicate 16 7) = Some (Inr (''d/sessions/07/'' @ EncodeToString (replicate 15 7))) \<and>
   makeDataDir None ''d'' (replicate 15 7 @ [8]) = Some (Inr (''d/sessions/07/'' @ EncodeToString (replicate 14 7 @ [8]))) \<and>
   EncodeToString (replicate 15 7) \<noteq> EncodeToString (replicate 14 7 @ [8])"
proof -
  have p: "getDataPath None ''d'' (replicate 16 7) = Some (Inr (''d/sessions/07/'' @ EncodeToString (replicate 15 7)))"
    "makeDataDir None ''d'' (replicate 15 7 @ [8]) = Some (Inr (''d/sessions/07/'' @ EncodeToString (replicate 14 7 @ [8])))"
    by code_simp+
  have "replicate 16 (7 :: byte) \<noteq> replicate 15 7 @ [8]" by code_simp
  with session_paths_distinct [OF _ _ p] p show ?thesis by simp
qed

end
