(* ===== verification/GameInfo.thy ===== *)
theory GameInfo
  imports DataPath
begin

text \<open>
  What the client reads from the game's patch file, \<^verbatim>\<open>client/internal/game/info.go\<close>: the session id and
  secret in hexadecimal, the world, the mode, and three optional tables of names. The patch file is
  the function \<open>read\<close> from member names to their content (\<^verbatim>\<open>reader.Open\<close> and \<^verbatim>\<open>io.ReadAll\<close> in one, with
  their error), and decoding a JSON text into a Go structure is a function per structure, gathered
  in the record \<open>decoders\<close>. Shown: what \<^verbatim>\<open>ExtractGameInfo\<close> accepts and what it returns.
\<close>

section \<open>Data\<close>

datatype InfoMode = InfoModeSingle | InfoModeCoop | InfoModeMulti

record Info =
  in_SessionID :: bytes
  in_SessionSecret :: bytes
  in_WorldID :: u8
  in_Mode :: InfoMode
  in_Items :: "u16 \<rightharpoonup> string"
  in_Locations :: "u32 \<rightharpoonup> string"
  in_Entrances :: "u32 \<rightharpoonup> string"

record rawMeta =
  rm_SessionID :: string
  rm_SessionSecret :: string
  rm_WorldID :: u8
  rm_Mode :: string

record decoders =
  dec_meta :: "bytes \<Rightarrow> rawMeta result"
  dec_version :: "bytes \<Rightarrow> int result"
  dec_items :: "bytes \<Rightarrow> (u16 \<times> string) list result"
  dec_locations :: "bytes \<Rightarrow> (u32 \<times> string) list result"
  dec_entrances :: "bytes \<Rightarrow> (u32 \<times> string) list result"

section \<open>Operations\<close>

text \<open>
  The part that \<^verbatim>\<open>parseItems\<close>, \<^verbatim>\<open>parseLocations\<close> and \<^verbatim>\<open>parseEntrances\<close> share: read the member, check the
  version, decode; any failure leaves the table alone.
\<close>

definition parse_table ::
    "(bytes \<Rightarrow> int result) \<Rightarrow> (bytes \<Rightarrow> ('k \<times> string) list result) \<Rightarrow> bytes result \<Rightarrow> ('k \<rightharpoonup> string) \<Rightarrow> ('k \<rightharpoonup> string)" where
  "parse_table version decode content table =
     (case content of
        Inl err \<Rightarrow> table
      | Inr data \<Rightarrow>
          (case version data of
             Inl err \<Rightarrow> table
           | Inr v \<Rightarrow>
               if v \<noteq> 1 then table
               else
                 (case decode data of
                    Inl err \<Rightarrow> table
                  | Inr entries \<Rightarrow> foldl (\<lambda>t (k, name). t(k \<mapsto> name)) table entries)))"

definition parseItems :: "decoders \<Rightarrow> (string \<Rightarrow> bytes result) \<Rightarrow> Info \<Rightarrow> Info" where
  "parseItems dec read info = info\<lparr>in_Items :=
     parse_table (dec_version dec) (dec_items dec) (read ''manifests/items.json'') (in_Items info)\<rparr>"

definition parseLocations :: "decoders \<Rightarrow> (string \<Rightarrow> bytes result) \<Rightarrow> Info \<Rightarrow> Info" where
  "parseLocations dec read info = info\<lparr>in_Locations :=
     parse_table (dec_version dec) (dec_locations dec) (read ''manifests/locations.json'') (in_Locations info)\<rparr>"

definition parseEntrances :: "decoders \<Rightarrow> (string \<Rightarrow> bytes result) \<Rightarrow> Info \<Rightarrow> Info" where
  "parseEntrances dec read info = info\<lparr>in_Entrances :=
     parse_table (dec_version dec) (dec_entrances dec) (read ''manifests/entrances.json'') (in_Entrances info)\<rparr>"

definition mode_of :: "string \<Rightarrow> InfoMode option" where
  "mode_of m =
     (if m = ''single'' then Some InfoModeSingle
      else if m = ''coop'' then Some InfoModeCoop
      else if m = ''multi'' then Some InfoModeMulti
      else None)"

text \<open>\<open>opened\<close> is the outcome of \<^verbatim>\<open>zip.OpenReader\<close>.\<close>

definition ExtractGameInfo :: "decoders \<Rightarrow> (string \<Rightarrow> bytes result) result \<Rightarrow> Info result" where
  "ExtractGameInfo dec opened =
     (case opened of
        Inl err \<Rightarrow> Inl err
      | Inr read \<Rightarrow>
     (case read ''meta.json'' of
        Inl err \<Rightarrow> Inl err
      | Inr metaData \<Rightarrow>
     (case dec_meta dec metaData of
        Inl err \<Rightarrow> Inl err
      | Inr meta \<Rightarrow>
     (case DecodeString (rm_SessionID meta) of
        Inl err \<Rightarrow> Inl err
      | Inr sessionID \<Rightarrow>
      if length sessionID \<noteq> 16
      then Inl (Errorf ''invalid session ID length: expected 16 bytes, got %d'')
      else
     (case DecodeString (rm_SessionSecret meta) of
        Inl err \<Rightarrow> Inl err
      | Inr sessionSecret \<Rightarrow>
      if length sessionSecret \<noteq> 8
      then Inl (Errorf ''invalid session secret length: expected 8 bytes, got %d'')
      else
     (case mode_of (rm_Mode meta) of
        None \<Rightarrow> Inl (Errorf ''unknown mode: %s'')
      | Some mode \<Rightarrow>
          (let info = \<lparr>in_SessionID = copy_array 16 sessionID, in_SessionSecret = copy_array 8 sessionSecret,
                 in_WorldID = rm_WorldID meta, in_Mode = mode, in_Items = Map.empty,
                 in_Locations = Map.empty, in_Entrances = Map.empty\<rparr>;
               info = parseItems dec read info;
               info = parseLocations dec read info;
               info = parseEntrances dec read info
           in Inr info)))))))"

section \<open>Properties\<close>

lemma parse_table_ok:
  assumes "content = Inr data" "version data = Inr 1" "decode data = Inr entries"
  shows "parse_table version decode content Map.empty = map_of (rev entries)"
proof -
  have "foldl (\<lambda>t (k, name). t(k \<mapsto> name)) t entries = t ++ map_of (rev entries)" for t :: "'a \<rightharpoonup> string"
    by (induction entries arbitrary: t) (auto simp: map_add_upd fun_eq_iff map_add_def split: option.split)
  with assms show ?thesis by (simp add: parse_table_def)
qed

text \<open>The game information is accepted exactly when the metadata decode, the id is the hexadecimal
  text of 16 bytes, the secret that of 8 bytes and the mode is one of the three; it then has these
  bytes, this world and this mode, and a readable item table of version 1 maps each id to its last
  name in the file. A missing or broken table does not reject the file.\<close>

theorem extract_game_info_exact:
  assumes "opened = Inr read" "read ''meta.json'' = Inr metaData" "dec_meta dec metaData = Inr meta"
  shows "((\<exists>info. ExtractGameInfo dec opened = Inr info) \<longleftrightarrow>
      (\<exists>sid sec mode. DecodeString (rm_SessionID meta) = Inr sid \<and> length sid = 16 \<and>
        DecodeString (rm_SessionSecret meta) = Inr sec \<and> length sec = 8 \<and> mode_of (rm_Mode meta) = Some mode)) \<and>
    (\<forall>info. ExtractGameInfo dec opened = Inr info \<longrightarrow>
      DecodeString (rm_SessionID meta) = Inr (in_SessionID info) \<and> length (in_SessionID info) = 16 \<and>
      DecodeString (rm_SessionSecret meta) = Inr (in_SessionSecret info) \<and> length (in_SessionSecret info) = 8 \<and>
      in_WorldID info = rm_WorldID meta \<and> mode_of (rm_Mode meta) = Some (in_Mode info) \<and>
      (\<forall>data entries. read ''manifests/items.json'' = Inr data \<and> dec_version dec data = Inr 1 \<and>
        dec_items dec data = Inr entries \<longrightarrow> in_Items info = map_of (rev entries)))"
proof (cases "\<exists>sid sec mode. DecodeString (rm_SessionID meta) = Inr sid \<and> length sid = 16 \<and>
    DecodeString (rm_SessionSecret meta) = Inr sec \<and> length sec = 8 \<and> mode_of (rm_Mode meta) = Some mode")
  case True
  then obtain sid sec mode where *: "DecodeString (rm_SessionID meta) = Inr sid" "length sid = 16"
    "DecodeString (rm_SessionSecret meta) = Inr sec" "length sec = 8" "mode_of (rm_Mode meta) = Some mode" by blast
  show ?thesis
    using * by (auto simp: ExtractGameInfo_def assms Let_def parseItems_def parseLocations_def parseEntrances_def parse_table_ok)
next
  case False
  then have "\<nexists>info. ExtractGameInfo dec opened = Inr info"
    by (auto simp: ExtractGameInfo_def assms split: sum.splits option.splits if_splits)
  with False show ?thesis by blast
qed

definition example_decoders :: decoders where
  "example_decoders = \<lparr>dec_meta = (\<lambda>_. Inr \<lparr>rm_SessionID = EncodeToString (replicate 16 7),
       rm_SessionSecret = EncodeToString (replicate 8 9), rm_WorldID = 2, rm_Mode = ''multi''\<rparr>),
     dec_version = (\<lambda>_. Inr 1), dec_items = (\<lambda>_. Inr [(1, ''BOMB''), (1, ''BOW'')]),
     dec_locations = (\<lambda>_. Inr []), dec_entrances = (\<lambda>_. Inr [])\<rparr>"

theorem extract_game_info_exact_witness:
  "\<exists>info. ExtractGameInfo example_decoders (Inr (\<lambda>_. Inr [])) = Inr info \<and>
     in_SessionID info = replicate 16 7 \<and> in_Mode info = InfoModeMulti \<and> in_Items info 1 = Some ''BOW''"
proof -
  let ?read = "\<lambda>_. Inr [] :: bytes result"
  let ?meta = "\<lparr>rm_SessionID = EncodeToString (replicate 16 7), rm_SessionSecret = EncodeToString (replicate 8 9),
    rm_WorldID = 2, rm_Mode = ''multi''\<rparr>"
  have m: "dec_meta example_decoders [] = Inr ?meta" by (simp add: example_decoders_def)
  note th = extract_game_info_exact [OF refl _ m, of ?read]
  have md: "mode_of ''multi'' = Some InfoModeMulti" by (simp add: mode_of_def)
  from th obtain info where i: "ExtractGameInfo example_decoders (Inr ?read) = Inr info"
    by (auto simp: Decode_Encode md)
  with th have "Inr (replicate 16 7) = (Inr (in_SessionID info) :: bytes result)" "Some InfoModeMulti = Some (in_Mode info)"
    "in_Items info = map_of (rev [(1, ''BOMB''), (1, ''BOW'')])"
    by (auto simp: Decode_Encode md example_decoders_def)
  with i show ?thesis by simp
qed

end
