(* ===== verification/GoChan.thy ===== *)
theory GoChan
  imports Prelude
begin

text \<open>
  Go's buffered channels and the forms of \<^verbatim>\<open>select\<close> the sources use. A channel is its capacity and
  the values in it; a receive or send that would block is \<^const>\<open>None\<close>. The contexts of the sources
  are booleans: whether the context has been cancelled. When several cases of a \<^verbatim>\<open>select\<close> are ready
  the runtime picks one; the pick is an argument, so what holds for all picks holds for all runs.
\<close>

record 'a chan =
  ch_cap :: nat
  ch_buf :: "'a list"

datatype select_pick = PickComm | PickDone

definition make_chan :: "nat \<Rightarrow> 'a chan" where
  "make_chan n = \<lparr>ch_cap = n, ch_buf = []\<rparr>"

definition chan_send :: "'a \<Rightarrow> 'a chan \<Rightarrow> 'a chan option" where
  "chan_send x c = (if length (ch_buf c) < ch_cap c then Some (c\<lparr>ch_buf := ch_buf c @ [x]\<rparr>) else None)"

definition chan_recv :: "'a chan \<Rightarrow> ('a \<times> 'a chan) option" where
  "chan_recv c = (case ch_buf c of [] \<Rightarrow> None | x # xs \<Rightarrow> Some (x, c\<lparr>ch_buf := xs\<rparr>))"

text \<open>
  \<^verbatim>\<open>select { case c <- x: case <-ctx.Done(): }\<close>: blocks when the channel is full and the context is
  alive. The flag says whether \<open>x\<close> was sent.
\<close>

definition select_send :: "bool \<Rightarrow> select_pick \<Rightarrow> 'a \<Rightarrow> 'a chan \<Rightarrow> ('a chan \<times> bool) option" where
  "select_send cancelled pick x c =
     (case chan_send x c of
        Some c' \<Rightarrow> if cancelled \<and> pick = PickDone then Some (c, False) else Some (c', True)
      | None \<Rightarrow> if cancelled then Some (c, False) else None)"

text \<open>\<^verbatim>\<open>select { case c <- x: case <-ctx.Done(): default: }\<close>, which never blocks.\<close>

definition try_send :: "bool \<Rightarrow> select_pick \<Rightarrow> 'a \<Rightarrow> 'a chan \<Rightarrow> 'a chan" where
  "try_send cancelled pick x c =
     (case select_send cancelled pick x c of Some (c', _) \<Rightarrow> c' | None \<Rightarrow> c)"

section \<open>The interface of a bounded first-in-first-out buffer\<close>

locale bounded_fifo =
  fixes send :: "'a \<Rightarrow> 'c \<Rightarrow> 'c option"
    and recv :: "'c \<Rightarrow> ('a \<times> 'c) option"
    and items :: "'c \<Rightarrow> 'a list"
    and cap :: "'c \<Rightarrow> nat"
  assumes send_items: "send x c = Some c' \<Longrightarrow> items c' = items c @ [x] \<and> cap c' = cap c"
    and send_blocks: "send x c = None \<longleftrightarrow> cap c \<le> length (items c)"
    and recv_items: "recv c = Some (x, c') \<Longrightarrow> items c = x # items c' \<and> cap c' = cap c"
    and recv_blocks: "recv c = None \<longleftrightarrow> items c = []"
begin

lemma send_bounded: "send x c = Some c' \<Longrightarrow> length (items c') \<le> cap c'"
  using send_items send_blocks by (metis Suc_leI length_append_singleton not_le option.distinct(1))

lemma recv_bounded: "recv c = Some (x, c') \<Longrightarrow> length (items c) \<le> cap c \<Longrightarrow> length (items c') \<le> cap c'"
  using recv_items by fastforce

lemma send_recv: "send x c = Some c' \<Longrightarrow> items c = [] \<Longrightarrow> \<exists>c''. recv c' = Some (x, c'') \<and> items c'' = []"
  using send_items recv_items recv_blocks by (cases "recv c'") fastforce+

end

interpretation chan: bounded_fifo chan_send chan_recv ch_buf ch_cap
  by unfold_locales (auto simp: chan_send_def chan_recv_def split: if_splits list.splits)

section \<open>Lemmas on \<open>select\<close>\<close>

lemma buf_make_chan [simp]: "ch_buf (make_chan n) = []" "ch_cap (make_chan n) = n"
  by (simp_all add: make_chan_def)

lemma select_send_done: "select_send True PickDone x c = Some (c, False)"
  by (simp add: select_send_def split: option.split)

lemma select_send_cases:
  assumes "select_send d pick x c = Some (c', b)"
  obtains (sent) "b" "chan_send x c = Some c'" "ch_buf c' = ch_buf c @ [x]"
  | (dropped) "\<not> b" "d" "c' = c"
proof (cases b)
  case True
  with assms have "chan_send x c = Some c'"
    by (auto simp: select_send_def split: option.splits if_splits)
  with True chan.send_items [OF this] sent show ?thesis by simp
next
  case False
  with assms have "d" "c' = c" by (auto simp: select_send_def split: option.splits if_splits)
  with False dropped show ?thesis by simp
qed

lemma try_send_buf: "ch_buf (try_send d pick x c) = ch_buf c \<or> ch_buf (try_send d pick x c) = ch_buf c @ [x]"
  by (auto simp: try_send_def chan_send_def select_send_def split: if_splits)

lemma try_send_cap [simp]: "ch_cap (try_send d pick x c) = ch_cap c"
  by (auto simp: try_send_def chan_send_def select_send_def split: if_splits)

lemma try_send_alive:
  "ch_buf (try_send False pick x c) = (if length (ch_buf c) < ch_cap c then ch_buf c @ [x] else ch_buf c)"
  by (simp add: try_send_def chan_send_def select_send_def)

lemma try_send_bounded: "length (ch_buf c) \<le> ch_cap c \<Longrightarrow> length (ch_buf (try_send d pick x c)) \<le> ch_cap c"
  by (auto simp: try_send_def chan_send_def select_send_def split: if_splits)

end
