(* ===== verification/Daemon.thy ===== *)
theory Daemon
  imports GoChan Interfaces OsFile DataPath
begin

text \<open>
  What the tracker daemon of the client, \<^verbatim>\<open>client/internal/daemon\<close>, is made of: the messages a game session
  sends it (\<^verbatim>\<open>msg.go\<close>) and its clients with the channels that are subscribed to them (\<^verbatim>\<open>client.go\<close>).
  \<^verbatim>\<open>encoding/json\<close> is the pair of parameters \<open>marshal\<close> and \<open>unmarshal\<close>. Shown: messages arrive one by one
  in order.
\<close>

section \<open>Messages\<close>

datatype MsgType = MsgTypeGameStart | MsgTypeGameEnd | MsgTypeInfoItem | MsgTypeInfoEntrance

record Msg =
  dm_Type :: MsgType
  dm_SessionID :: string
  dm_PlayerID :: string
  dm_PlayerName :: bytes
  dm_WorldID :: int
  dm_Item :: string
  dm_Location :: string
  dm_Original :: string
  dm_Entrance :: string
  dm_Age :: string
  dm_Self :: "bool option"

text \<open>A message with only its type set.\<close>

definition zero_msg :: "MsgType \<Rightarrow> Msg" where
  "zero_msg t = \<lparr>dm_Type = t, dm_SessionID = '''', dm_PlayerID = '''', dm_PlayerName = [], dm_WorldID = 0,
     dm_Item = '''', dm_Location = '''', dm_Original = '''', dm_Entrance = '''', dm_Age = '''', dm_Self = None\<rparr>"

text \<open>The bytes written, and the error; \<open>r1\<close> and \<open>r2\<close> are the outcomes of the two writes.\<close>

definition sendMsg :: "(Msg \<Rightarrow> bytes result) \<Rightarrow> wr \<Rightarrow> wr \<Rightarrow> Msg \<Rightarrow> bytes \<times> go_error option" where
  "sendMsg marshal r1 r2 msg =
     (case marshal msg of
        Inl err \<Rightarrow> ([], Some err)
      | Inr data \<Rightarrow>
          (let sz = of_nat (length data) :: u32; header = LE_PutUint32 sz
           in case r1 of
                WrFail n \<Rightarrow> (take n header, Some (SysErr 5))
              | WrOk \<Rightarrow>
                  (case r2 of
                     WrFail n \<Rightarrow> (header @ take n data, Some (SysErr 5))
                   | WrOk \<Rightarrow> (header @ data, None))))"

definition recvMsg :: "(bytes \<Rightarrow> Msg result) \<Rightarrow> go_error \<Rightarrow> bytes \<Rightarrow> (Msg \<times> bytes) go" where
  "recvMsg unmarshal fin bs =
     (case read_full 4 fin bs of
        Inl err \<Rightarrow> Some (Inl err)
      | Inr (header, bs1) \<Rightarrow>
          (case LE_Uint32 header of
             None \<Rightarrow> None
           | Some sz \<Rightarrow>
               (case read_full (unat sz) fin bs1 of
                  Inl err \<Rightarrow> Some (Inl err)
                | Inr (data, bs2) \<Rightarrow>
                    (case unmarshal data of
                       Inl err \<Rightarrow> Some (Inl err)
                     | Inr msg \<Rightarrow> Some (Inr (msg, bs2))))))"

section \<open>Clients and their subscribers\<close>

text \<open>
  A channel is its address; \<open>cl_closed\<close> are the closed ones. Closing a closed channel and sending
  on one are panics.
\<close>

record client =
  cl_id :: bytes
  cl_subs :: "nat set"
  cl_done :: bool
  cl_closed :: "nat set"
  cl_next :: nat

definition newClient :: "bytes \<Rightarrow> client" where
  "newClient ident = \<lparr>cl_id = ident, cl_subs = {}, cl_done = False, cl_closed = {}, cl_next = 0\<rparr>"

definition close_chan :: "client \<Rightarrow> nat \<Rightarrow> client option" where
  "close_chan c ch = (if ch \<in> cl_closed c then None else Some (c\<lparr>cl_closed := insert ch (cl_closed c)\<rparr>))"

text \<open>\<^verbatim>\<open>subscribe\<close> makes a channel with a new address.\<close>

definition subscribe :: "client \<Rightarrow> client \<times> nat" where
  "subscribe c = (c\<lparr>cl_subs := insert (cl_next c) (cl_subs c), cl_next := Suc (cl_next c)\<rparr>, cl_next c)"

definition unsubscribe :: "client \<Rightarrow> nat \<Rightarrow> client option" where
  "unsubscribe c ch =
     (if ch \<notin> cl_subs c then Some c
      else map_option (\<lambda>c. c\<lparr>cl_subs := cl_subs c - {ch}\<rparr>) (close_chan c ch))"

text \<open>\<open>subs\<close> is the order in which Go ranges over the map of subscribers.\<close>

fun close_subs :: "client \<Rightarrow> nat list \<Rightarrow> client option" where
  "close_subs c [] = Some c"
| "close_subs c (sub # subs) =
     (case close_chan c sub of
        None \<Rightarrow> None
      | Some c \<Rightarrow> close_subs (c\<lparr>cl_subs := cl_subs c - {sub}\<rparr>) subs)"

definition client_close :: "nat list \<Rightarrow> client \<Rightarrow> client option" where
  "client_close subs c =
     (case close_subs c subs of
        None \<Rightarrow> None
      | Some c \<Rightarrow> if cl_done c then None else Some (c\<lparr>cl_done := True\<rparr>))"

text \<open>
  \<^verbatim>\<open>broadcast\<close>: the channels have no buffer, so a subscriber gets the message when it is waiting
  (\<open>waiting\<close>) and misses it otherwise. The result is the set of those that got it.
\<close>

definition broadcast :: "(nat \<Rightarrow> bool) \<Rightarrow> client \<Rightarrow> nat set option" where
  "broadcast waiting c =
     (if cl_subs c \<inter> cl_closed c \<noteq> {} then None else Some {ch \<in> cl_subs c. waiting ch})"

section \<open>Messages on the socket\<close>

text \<open>A message whose JSON text reads back and has a length that fits its header.\<close>

definition json_ok :: "(Msg \<Rightarrow> bytes result) \<Rightarrow> (bytes \<Rightarrow> Msg result) \<Rightarrow> Msg \<Rightarrow> bool" where
  "json_ok marshal unmarshal m \<longleftrightarrow>
     (\<exists>data. marshal m = Inr data \<and> unmarshal data = Inr m \<and> length data < 2 ^ 32)"

lemma json_frame:
  assumes "json_ok marshal unmarshal m"
  obtains data where "fst (sendMsg marshal WrOk WrOk m) = LE_PutUint32 (of_nat (length data)) @ data"
    "unmarshal data = Inr m" "unat (of_nat (length data) :: u32) = length data"
proof -
  from assms obtain data where d: "marshal m = Inr data" "unmarshal data = Inr m" "length data < 2 ^ 32"
    by (auto simp: json_ok_def)
  then have "unat (of_nat (length data) :: u32) = length data" by (simp add: unat_of_nat take_bit_nat_eq_self)
  with d that show thesis by (simp add: sendMsg_def)
qed

interpretation daemon_msgs: framed_stream "\<lambda>m. fst (sendMsg marshal WrOk WrOk m)" "recvMsg unmarshal"
  "json_ok marshal unmarshal" for marshal unmarshal
proof unfold_locales
  fix x fin rest assume "json_ok marshal unmarshal x"
  then obtain data where "fst (sendMsg marshal WrOk WrOk x) = LE_PutUint32 (of_nat (length data)) @ data"
    "unmarshal data = Inr x" "unat (of_nat (length data) :: u32) = length data" by (rule json_frame)
  then show "recvMsg unmarshal fin (fst (sendMsg marshal WrOk WrOk x) @ rest) = Some (Inr (x, rest))"
    by (simp add: recvMsg_def le32.length_put le32.get_put0)
next
  show "recvMsg unmarshal fin [] = Some (Inl fin)" for fin by (simp add: recvMsg_def read_full_def)
next
  fix x p fin assume "json_ok marshal unmarshal x" and p: "strict_prefix p (fst (sendMsg marshal WrOk WrOk x))"
  then obtain data where d: "fst (sendMsg marshal WrOk WrOk x) = LE_PutUint32 (of_nat (length data)) @ data"
    "unat (of_nat (length data) :: u32) = length data" using json_frame by blast
  from p show "\<exists>e. recvMsg unmarshal fin p = Some (Inl e)" unfolding d(1)
  proof (cases rule: strict_prefix_header)
    case header
    then show ?thesis by (simp add: recvMsg_def read_full_short le32.length_put)
  next
    case (data q)
    with d(2) show ?thesis by (simp add: recvMsg_def read_full_short le32.length_put le32.get_put0)
  qed
qed

section \<open>Properties\<close>

text \<open>The messages a game session sends to the daemon arrive one by one, in order and complete, up to
  the end of the stream, for messages whose JSON text decodes to the message.\<close>

theorem daemon_messages_in_order:
  assumes "\<forall>m\<in>set ms. json_ok marshal unmarshal m"
  shows "read_frames (recvMsg unmarshal fin) (Suc (length ms))
    (concat (map (\<lambda>m. fst (sendMsg marshal WrOk WrOk m)) ms)) = Some (ms, Some fin)"
  by (rule daemon_msgs.read_frames_concat [OF assms]) simp

theorem daemon_messages_in_order_witness:
  "read_frames (recvMsg (\<lambda>_. Inr (zero_msg MsgTypeGameEnd)) EOF) 3
     (concat (map (\<lambda>m. fst (sendMsg (\<lambda>_. Inr [0x7b, 0x7d]) WrOk WrOk m)) [zero_msg MsgTypeGameEnd, zero_msg MsgTypeGameEnd])) =
   Some ([zero_msg MsgTypeGameEnd, zero_msg MsgTypeGameEnd], Some EOF)"
  using daemon_messages_in_order [of "[zero_msg MsgTypeGameEnd, zero_msg MsgTypeGameEnd]" "\<lambda>_. Inr [0x7b, 0x7d]"
      "\<lambda>_. Inr (zero_msg MsgTypeGameEnd)" EOF]
  by (simp add: json_ok_def numeral_3_eq_3)

end
