(* ===== verification/GameSession.thy ===== *)
theory GameSession
  imports WalStream PositionSystem GameInfo Daemon
begin

text \<open>
  The session of the client with a running game, \<^verbatim>\<open>client/internal/game/session.go\<close>: how it is opened,
  what it does with the messages of the game and with the packets of the server, and what it sends.
  Each handler is a function on the session; where the code may have to wait (\<^verbatim>\<open>Send\<close>, the daemon)
  the handler returns what is left to do. The goroutines that call them are in \<^verbatim>\<open>Uplink\<close>.

  The send queue is absent (\<^const>\<open>None\<close>) in single-player mode; calling it then is a nil dereference.
\<close>

section \<open>State\<close>

record GameSession =
  gs_Info :: Info
  gs_PlayerID :: bytes
  gs_PlayerName :: bytes
  gs_SeqGame :: u32
  gs_SeqNet :: u32
  gs_msgIn :: "Message chan"
  gs_msgOut :: "Message chan"
  gs_uplinkIn :: "Packet chan"
  gs_uplinkOut :: "Packet chan"
  gs_done :: bool
  gs_dataDir :: string
  gs_sendQ :: "SendQueue option"
  gs_wal :: WAL
  gs_positions :: PositionSystem

text \<open>What the disk, the random generator and the scheduler contribute to one handler.\<close>

record gs_env =
  ge_append :: append_io
  ge_ack :: sq_ack_io
  ge_add :: sq_add_io
  ge_rand :: bytes
  ge_pick :: select_pick

text \<open>What is left to do when a message of the game has been looked at.\<close>

datatype msg_next =
    MsgReturn
  | MsgSend Message
  | MsgWal u32
  | MsgDaemon Msg

section \<open>Sending\<close>

definition TrySend :: "select_pick \<Rightarrow> GameSession \<Rightarrow> Message \<Rightarrow> GameSession" where
  "TrySend pick s msg = s\<lparr>gs_msgOut := try_send (gs_done s) pick msg (gs_msgOut s)\<rparr>"

definition TrySendUplink :: "GameSession \<Rightarrow> Packet \<Rightarrow> GameSession" where
  "TrySendUplink s pkt =
     (if gs_done s then s
      else case chan_send pkt (gs_uplinkOut s) of
        Some c \<Rightarrow> s\<lparr>gs_uplinkOut := c\<rparr>
      | None \<Rightarrow> s)"

text \<open>The number \<^verbatim>\<open>handleMsgOut\<close> gives to a message.\<close>

definition number_msg :: "GameSession \<Rightarrow> Message \<Rightarrow> GameSession \<times> Message" where
  "number_msg s msg = (s\<lparr>gs_SeqNet := gs_SeqNet s + 1\<rparr>, msg\<lparr>msg_Seq := gs_SeqNet s\<rparr>)"

section \<open>Packets of the server\<close>

definition ack_queue_key :: "gs_env \<Rightarrow> GameSession \<Rightarrow> bytes \<Rightarrow> (GameSession \<times> go_error option) option" where
  "ack_queue_key env s key =
     (case gs_sendQ s of
        None \<Rightarrow> None
      | Some q \<Rightarrow> Some (s\<lparr>gs_sendQ := Some (Ack (ge_ack env) q key)\<rparr>, None))"

definition handleUplinkPacket :: "gs_env \<Rightarrow> GameSession \<Rightarrow> Packet \<Rightarrow> (GameSession \<times> go_error option) option" where
  "handleUplinkPacket env s pkt =
     (if pkt_Op pkt = OpNOP then Some (s, None)
      else if pkt_Op pkt = OpWal then
        (case ParseServerWal (pkt_Data pkt) of
           None \<Rightarrow> None
         | Some (Inl err) \<Rightarrow> Some (s, Some (Wrapf ''failed to parse server WAL packet: %v'' err))
         | Some (Inr body) \<Rightarrow>
             (case Append (ge_append env) (gs_wal s) (sw_Entry body) of
                (w, Some err) \<Rightarrow> Some (s\<lparr>gs_wal := w\<rparr>, Some (Wrapf ''failed to append WAL entry: %v'' err))
              | (w, None) \<Rightarrow>
                  (case DedupKey (sw_Entry body) of
                     Inl err \<Rightarrow> Some (s\<lparr>gs_wal := w\<rparr>, Some (Wrapf ''failed to compute deduplication key: %v'' err))
                   | Inr dedupKey \<Rightarrow> ack_queue_key env (s\<lparr>gs_wal := w\<rparr>) dedupKey)))
      else if pkt_Op pkt = OpWalAck then
        if length (pkt_Data pkt) \<noteq> 16 then Some (s, Some (Errorf ''invalid WAL ACK packet length: %d''))
        else ack_queue_key env s (copy_array 16 (pkt_Data pkt))
      else if pkt_Op pkt = OpPosition then
        (case ParseServerPosition (pkt_Data pkt) of
           None \<Rightarrow> None
         | Some (Inl err) \<Rightarrow> Some (s, Some (Wrapf ''failed to parse server position packet: %v'' err))
         | Some (Inr posMsg) \<Rightarrow>
             (case OnServerPos (gs_positions s) posMsg of
                None \<Rightarrow> None
              | Some (ps, msg) \<Rightarrow> Some (TrySend (ge_pick env) (s\<lparr>gs_positions := ps\<rparr>) msg, None)))
      else Some (s, None))"

section \<open>Messages of the game\<close>

text \<open>The error of \<^verbatim>\<open>sendQ.Add\<close> is dropped.\<close>

definition newWalEntry :: "gs_env \<Rightarrow> GameSession \<Rightarrow> WalEntry \<Rightarrow> (GameSession \<times> go_error option) option" where
  "newWalEntry env s entry =
     (case Serialize entry of
        Inl err \<Rightarrow> Some (s, Some err)
      | Inr data \<Rightarrow>
     (case DedupKey entry of
        Inl err \<Rightarrow> Some (s, Some err)
      | Inr dedupKey \<Rightarrow>
     (case gs_sendQ s of
        None \<Rightarrow> None
      | Some q \<Rightarrow>
          (let s = s\<lparr>gs_sendQ := Some (fst (Add (ge_add env) q dedupKey data))\<rparr>;
               pkt = \<lparr>pkt_Op = OpWal, pkt_Data = data\<rparr>
           in Some (TrySendUplink s pkt, None)))))"

text \<open>The entry \<^verbatim>\<open>handleWalIn\<close> makes of what the game reports.\<close>

definition wal_in_entry :: "gs_env \<Rightarrow> GameSession \<Rightarrow> MessageBodyWalIn \<Rightarrow> WalEntry go" where
  "wal_in_entry env s w =
     (let entry = zero_entry\<lparr>entry_PlayerID := copy_array 16 (gs_PlayerID s),
            entry_PlayerName := copy_array 8 (gs_PlayerName s), entry_From := in_WorldID (gs_Info s)\<rparr>
      in if wi_Type w = WalItem then
           (case ParseWalItem (wi_Data w) of
              None \<Rightarrow> None
            | Some (Inl err) \<Rightarrow> Some (Inl err)
            | Some (Inr item) \<Rightarrow>
                (case (if iwi_Flags item AND 0x0001 \<noteq> 0 then LE_Uint32 (copy_array 4 (ge_rand env)) else Some 0) of
                   None \<Rightarrow> None
                 | Some nonce \<Rightarrow>
                     Some (Inr (entry\<lparr>entry_Type := WalItem, entry_Item := \<lparr>item_To = iwi_To item,
                       item_Game = iwi_Game item, item_GI = iwi_GI item, item_Flags = iwi_Flags item,
                       item_Key = iwi_Key item, item_Nonce = nonce\<rparr>\<rparr>))))
         else if wi_Type w = WalEvent then
           (case ParseWalEvent (wi_Data w) of
              None \<Rightarrow> None
            | Some (Inl err) \<Rightarrow> Some (Inl err)
            | Some (Inr event) \<Rightarrow>
                Some (Inr (entry\<lparr>entry_Type := WalEvent, entry_Event := \<lparr>event_ID = iwe_EventID event\<rparr>\<rparr>)))
         else Some (Inl (Errorf ''unhandled WAL type: %d'')))"

text \<open>The message left to \<^verbatim>\<open>Send\<close> is the acknowledgement of the game's token.\<close>

definition handleWalIn :: "gs_env \<Rightarrow> GameSession \<Rightarrow> MessageBodyWalIn \<Rightarrow> (GameSession \<times> Message result) option" where
  "handleWalIn env s w =
     (case wal_in_entry env s w of
        None \<Rightarrow> None
      | Some (Inl err) \<Rightarrow> Some (s, Inl err)
      | Some (Inr entry) \<Rightarrow>
          (case newWalEntry env s entry of
             None \<Rightarrow> None
           | Some (s, Some err) \<Rightarrow> Some (s, Inl (Wrapf ''failed to create new WAL entry: %v'' err))
           | Some (s, None) \<Rightarrow>
               Some (s, Inr \<lparr>msg_Seq = 0, msg_Op = ipc_OpWalAck, msg_Payload = BE_PutUint32 (wi_Token w)\<rparr>)))"

text \<open>
  The body of the loop of \<^verbatim>\<open>sendGameWal\<close>: the message for an entry, and the message for an index, if
  there is an entry.
\<close>

definition entry_msg :: "GameSession \<Rightarrow> u32 \<Rightarrow> WalEntry \<Rightarrow> Message" where
  "entry_msg s index entry =
     (let playerName = (if entry_PlayerID entry \<noteq> gs_PlayerID s
            then copy_array 8 (entry_PlayerName entry) else replicate 8 0);
          data = (if entry_Type entry = WalItem then
              WalItem_Serialize \<lparr>iwi_To = item_To (entry_Item entry), iwi_Game = item_Game (entry_Item entry),
                iwi_GI = item_GI (entry_Item entry), iwi_Flags = item_Flags (entry_Item entry),
                iwi_Key = item_Key (entry_Item entry)\<rparr>
            else if entry_Type entry = WalEvent then
              WalEvent_Serialize \<lparr>iwe_EventID = event_ID (entry_Event entry)\<rparr>
            else []);
          wrapper = \<lparr>wo_Index = index, wo_Type = entry_Type entry, wo_From = entry_From entry,
            wo_PlayerName = playerName, wo_Data = data\<rparr>
      in \<lparr>msg_Seq = 0, msg_Op = ipc_OpWal, msg_Payload = MessageBodyWalOut_Serialize wrapper\<rparr>)"

definition game_wal_msg :: "GameSession \<Rightarrow> u32 \<Rightarrow> Message option option" where
  "game_wal_msg s index = map_option (map_option (entry_msg s index)) (Get (gs_wal s) index)"

text \<open>
  \<^verbatim>\<open>sendGameWal\<close> on a log that does not change meanwhile: the messages it sends. \<open>n\<close> counts the
  rounds left.
\<close>

fun sendGameWal_loop :: "GameSession \<Rightarrow> u32 \<Rightarrow> u32 \<Rightarrow> nat \<Rightarrow> Message list option" where
  "sendGameWal_loop s index i 0 = Some []"
| "sendGameWal_loop s index i (Suc n) =
     (case game_wal_msg s (index + i) of
        None \<Rightarrow> None
      | Some None \<Rightarrow> Some []
      | Some (Some msg) \<Rightarrow> map_option (Cons msg) (sendGameWal_loop s index (i + 1) n))"

definition sendGameWal :: "GameSession \<Rightarrow> u32 \<Rightarrow> Message list option" where
  "sendGameWal s index = sendGameWal_loop s index 0 16"

definition entranceName :: "GameSession \<Rightarrow> u32 \<Rightarrow> string" where
  "entranceName s ident =
     (if ident = 0xffffffff then ''''
      else case in_Entrances (gs_Info s) ident of
        None \<Rightarrow> ''UNKNOWN''
      | Some e \<Rightarrow> if e = '''' then ''UNKNOWN'' else e)"

definition ageName :: "u8 \<Rightarrow> string" where
  "ageName age = (if age = 0 then ''ADULT'' else if age = 1 then ''CHILD'' else ''UNKNOWN'')"

text \<open>A missing name is the empty string, Go's zero value.\<close>

definition name_of :: "('k \<rightharpoonup> string) \<Rightarrow> 'k \<Rightarrow> string" where
  "name_of table k = (case table k of None \<Rightarrow> '''' | Some n \<Rightarrow> n)"

definition handleMsg :: "gs_env \<Rightarrow> GameSession \<Rightarrow> Message \<Rightarrow> (GameSession \<times> msg_next result) option" where
  "handleMsg env s msg =
     (let (s, expectedSeq) =
        (if msg_Op msg = ipc_OpHello then (s, 0)
         else (s\<lparr>gs_SeqGame := gs_SeqGame s + 1\<rparr>, gs_SeqGame s))
      in if msg_Seq msg \<noteq> expectedSeq then Some (s, Inl (Errorf ''unexpected sequence number: got %d, expected %d''))
      else if msg_Op msg = ipc_OpHello then Some (s, Inl (Errorf ''unexpected HELLO message from game''))
      else if msg_Op msg = ipc_OpWal then
        (case ParseMessageBodyWalIn (msg_Payload msg) of
           None \<Rightarrow> None
         | Some (Inl err) \<Rightarrow> Some (s, Inl err)
         | Some (Inr walMsg) \<Rightarrow>
             if in_Mode (gs_Info s) \<noteq> InfoModeSingle then
               (case handleWalIn env s walMsg of
                  None \<Rightarrow> None
                | Some (s, Inl err) \<Rightarrow> Some (s, Inl err)
                | Some (s, Inr ack) \<Rightarrow> Some (s, Inr (MsgSend ack)))
             else Some (s, Inr MsgReturn))
      else if msg_Op msg = ipc_OpWalQuery then
        if length (msg_Payload msg) < 4 then Some (s, Inl (Errorf ''WAL_QUERY message too short''))
        else
          (case BE_Uint32 (msg_Payload msg) of
             None \<Rightarrow> None
           | Some index \<Rightarrow> Some (s, Inr (MsgWal index)))
      else if msg_Op msg = ipc_OpPosition then
        (case ParseMessageBodyPositionIn (msg_Payload msg) of
           None \<Rightarrow> None
         | Some (Inl err) \<Rightarrow> Some (s, Inl err)
         | Some (Inr posMsg) \<Rightarrow>
             if in_Mode (gs_Info s) \<noteq> InfoModeSingle
             then Some (s\<lparr>gs_positions := OnGamePos (gs_positions s) posMsg\<rparr>, Inr MsgReturn)
             else Some (s, Inr MsgReturn))
      else if msg_Op msg = ipc_OpInfoItem then
        (case ParseMessageBodyInfoItem (msg_Payload msg) of
           None \<Rightarrow> None
         | Some (Inl err) \<Rightarrow> Some (s, Inl err)
         | Some (Inr m) \<Rightarrow>
             Some (s, Inr (MsgDaemon ((zero_msg MsgTypeInfoItem)
               \<lparr>dm_Item := name_of (in_Items (gs_Info s)) (ii_GI m),
                dm_Location := name_of (in_Locations (gs_Info s)) (ii_Key m),
                dm_Self := Some (ii_Flags m AND 0x01 \<noteq> 0)\<rparr>))))
      else if msg_Op msg = ipc_OpInfoEntrance then
        (case ParseMessageBodyInfoEntrance (msg_Payload msg) of
           None \<Rightarrow> None
         | Some (Inl err) \<Rightarrow> Some (s, Inl err)
         | Some (Inr m) \<Rightarrow>
             Some (s, Inr (MsgDaemon ((zero_msg MsgTypeInfoEntrance)
               \<lparr>dm_Entrance := entranceName s (ie_Entrance m),
                dm_Original := entranceName s (ie_Original m),
                dm_Age := ageName (ie_Age m)\<rparr>))))
      else Some (s, Inr MsgReturn))"

section \<open>Opening a session\<close>

record run_io =
  ri_mkdir :: "go_error option"
  ri_sendq :: "bytes result"
  ri_sendq_fin :: go_error
  ri_wal :: "bytes result"
  ri_wal_fin :: go_error
  ri_rand :: bytes

definition game_magic :: bytes where
  "game_magic = [0x4f, 0x6f, 0x54, 0x4d, 0x4d, 0x7f, 0x01, 0x00]"

text \<open>
  \<^verbatim>\<open>Run\<close> up to the start of the goroutines: the session and the hello written to the game, or the
  reason it returns (the text it prints).
\<close>

definition Run_open ::
    "run_io \<Rightarrow> string \<Rightarrow> Info \<Rightarrow> MessageBodyHelloIn \<Rightarrow> (GameSession \<times> Message) go" where
  "Run_open io dataPrefix info hello =
     (if hi_SessionID hello \<noteq> in_SessionID info \<or> hi_SessionSecret hello \<noteq> in_SessionSecret info
      then Some (Inl (Errorf ''Session mismatch between game and patchfile''))
      else if hi_WorldID hello \<noteq> in_WorldID info
      then Some (Inl (Errorf ''World ID mismatch between game and patchfile''))
      else
     (case makeDataDir (ri_mkdir io) dataPrefix (hi_SessionID hello) of
        None \<Rightarrow> None
      | Some (Inl err) \<Rightarrow> Some (Inl (Wrapf ''failed to create data directory:'' err))
      | Some (Inr dataDir) \<Rightarrow>
     (case (if in_Mode info \<noteq> InfoModeSingle
            then (case OpenSendQueue (ri_sendq io) (ri_sendq_fin io) of
                    None \<Rightarrow> None
                  | Some (Inl err) \<Rightarrow> Some (Inl err)
                  | Some (Inr q) \<Rightarrow> Some (Inr (Some q)))
            else Some (Inr None)) of
        None \<Rightarrow> None
      | Some (Inl err) \<Rightarrow> Some (Inl (Wrapf ''failed to open send queue:'' err))
      | Some (Inr sendQ) \<Rightarrow>
     (case OpenWAL (ri_wal io) (ri_wal_fin io) of
        None \<Rightarrow> None
      | Some (Inl err) \<Rightarrow> Some (Inl (Wrapf ''failed to open WAL:'' err))
      | Some (Inr w) \<Rightarrow>
          do {
            seqGame \<leftarrow> LE_Uint32 (take 4 (copy_array 8 (ri_rand io)));
            seqNet \<leftarrow> LE_Uint32 (drop 4 (copy_array 8 (ri_rand io)));
            let session = \<lparr>gs_Info = info, gs_PlayerID = hi_PlayerID hello, gs_PlayerName = hi_PlayerName hello,
                  gs_SeqGame = seqGame, gs_SeqNet = seqNet, gs_msgIn = make_chan 16, gs_msgOut = make_chan 16,
                  gs_uplinkIn = make_chan 16, gs_uplinkOut = make_chan 16, gs_done = False, gs_dataDir = dataDir,
                  gs_sendQ = sendQ, gs_wal = w, gs_positions = createPositionSystem\<rparr>;
            let helloOut = \<lparr>msg_Seq = 0, msg_Op = ipc_OpHello, msg_Payload = MessageBodyHelloOut_Serialize
                  \<lparr>ho_Magic = game_magic, ho_SeqGame = seqGame, ho_SeqNet = seqNet\<rparr>\<rparr>;
            Some (Inr (session, helloOut))
          }))))"

section \<open>Lemmas\<close>

lemma game_wal_msg_Get:
  assumes "wal_mem_inv (gs_wal s)" "length (wal_entries (gs_wal s)) < 2 ^ 32"
  shows "game_wal_msg s i = Some (if unat i < length (wal_entries (gs_wal s))
    then Some (entry_msg s i (wal_entries (gs_wal s) ! unat i)) else None)"
  using Get_spec [OF assms, of i] by (simp add: game_wal_msg_def)

text \<open>The loop stops at the end of the log, before its index can wrap around.\<close>

lemma sendGameWal_loop_window:
  fixes index :: u32
  defines "msgs s k \<equiv> entry_msg s (index + of_nat k) (wal_entries (gs_wal s) ! (unat index + k))"
  assumes "wal_mem_inv (gs_wal s)" "length (wal_entries (gs_wal s)) < 2 ^ 32"
    and "k = 0 \<or> unat index + k \<le> length (wal_entries (gs_wal s))"
  shows "sendGameWal_loop s index (of_nat k) n =
    Some (map (msgs s) [k..<k + min n (length (wal_entries (gs_wal s)) - (unat index + k))])"
  using assms(4)
proof (induction n arbitrary: k)
  case (Suc n)
  let ?len = "length (wal_entries (gs_wal s))"
  have u: "unat (index + of_nat k) = unat index + k"
    using Suc.prems assms(3) unat_plus_of_nat [of index k] by (cases "k = 0") auto
  show ?case
  proof (cases "unat index + k < ?len")
    case True
    then have "sendGameWal_loop s index (of_nat (Suc k)) n =
        Some (map (msgs s) [Suc k..<Suc k + min n (?len - (unat index + Suc k))])"
      by (intro Suc.IH) simp
    moreover have "[k..<k + min (Suc n) (?len - (unat index + k))] =
        k # [Suc k..<Suc k + min n (?len - (unat index + Suc k))]"
    proof -
      have e: "k + min (Suc n) (?len - (unat index + k)) = Suc k + min n (?len - (unat index + Suc k))"
        using True by linarith
      show ?thesis unfolding e by (rule upt_conv_Cons) simp
    qed
    ultimately show ?thesis
      using True by (simp add: game_wal_msg_Get [OF assms(2,3)] u msgs_def add.commute [of 1])
  next
    case False
    then show ?thesis by (simp add: game_wal_msg_Get [OF assms(2,3)] u)
  qed
qed simp

lemma wal_in_entry_wf:
  assumes "wal_in_entry env s w = Some (Inr e)"
  shows "wf_entry e"
  using assms
  by (auto simp: wal_in_entry_def wf_entry_def zero_entry_def Let_def split: if_splits option.splits sum.splits)

lemma wal_in_entry_no_panic: "wal_in_entry env s w \<noteq> None"
proof -
  have "LE_Uint32 (copy_array 4 (ge_rand env)) \<noteq> None" by (rule le32.get_total) simp
  then show ?thesis
    using ipc_item.parse_no_panic [of "wi_Data w"] ipc_event.parse_no_panic [of "wi_Data w"]
    by (auto simp: wal_in_entry_def Let_def split: option.split sum.split)
qed

lemma newWalEntry_ok:
  assumes "wf_entry e" "gs_sendQ s = Some q"
  shows "newWalEntry env s e = Some (TrySendUplink (s\<lparr>gs_sendQ := Some (fst (Add (ge_add env) q (entry_key e) (entry_bytes e)))\<rparr>)
    \<lparr>pkt_Op = OpWal, pkt_Data = entry_bytes e\<rparr>, None)"
  using assms by (simp add: newWalEntry_def Serialize_ok DedupKey_ok)

lemma TrySendUplink_frame [simp]:
  "gs_sendQ (TrySendUplink s pkt) = gs_sendQ s" "gs_wal (TrySendUplink s pkt) = gs_wal s"
  "gs_Info (TrySendUplink s pkt) = gs_Info s" "gs_uplinkIn (TrySendUplink s pkt) = gs_uplinkIn s"
  "gs_SeqGame (TrySendUplink s pkt) = gs_SeqGame s" "gs_SeqNet (TrySendUplink s pkt) = gs_SeqNet s"
  by (simp_all add: TrySendUplink_def split: option.split)

lemma newWalEntry_frame:
  assumes "newWalEntry env s e = Some (s', r)"
  shows "gs_SeqGame s' = gs_SeqGame s" "gs_wal s' = gs_wal s" "gs_uplinkIn s' = gs_uplinkIn s"
    "gs_Info s' = gs_Info s" "gs_done s' = gs_done s"
  using assms by (auto simp: newWalEntry_def TrySendUplink_def Let_def split: sum.splits option.splits if_splits)

lemma handleWalIn_frame:
  assumes "handleWalIn env s w = Some (s', r)"
  shows "gs_SeqGame s' = gs_SeqGame s" "gs_wal s' = gs_wal s" "gs_uplinkIn s' = gs_uplinkIn s"
    "gs_Info s' = gs_Info s" "gs_done s' = gs_done s"
  using assms by (auto simp: handleWalIn_def dest: newWalEntry_frame split: option.splits sum.splits)

text \<open>The sequence number, before anything else is looked at.\<close>

lemma handleMsg_seq:
  assumes "handleMsg env s msg = Some (s', Inr r)"
  shows "msg_Op msg \<noteq> ipc_OpHello" "msg_Seq msg = gs_SeqGame s" "gs_SeqGame s' = gs_SeqGame s + 1"
proof -
  from assms show h: "msg_Op msg \<noteq> ipc_OpHello" by (auto simp: handleMsg_def Let_def split: if_splits)
  with assms show "msg_Seq msg = gs_SeqGame s" by (auto simp: handleMsg_def Let_def split: if_splits)
  then show "gs_SeqGame s' = gs_SeqGame s + 1"
    using assms h by (auto simp: handleMsg_def Let_def dest!: handleWalIn_frame(1) split: if_splits option.splits sum.splits)
qed

lemma handleMsg_bad_seq:
  assumes "msg_Op msg \<noteq> ipc_OpHello" "msg_Seq msg \<noteq> gs_SeqGame s"
  shows "handleMsg env s msg = Some (s\<lparr>gs_SeqGame := gs_SeqGame s + 1\<rparr>,
    Inl (Errorf ''unexpected sequence number: got %d, expected %d''))"
  using assms by (simp add: handleMsg_def)

text \<open>The messages \<^verbatim>\<open>handleMsgLoop\<close> handles until one of them is an error, and their number.\<close>

fun handle_msgs :: "GameSession \<Rightarrow> (gs_env \<times> Message) list \<Rightarrow> (GameSession \<times> nat) option" where
  "handle_msgs s [] = Some (s, 0)"
| "handle_msgs s ((env, msg) # ms) =
     (case handleMsg env s msg of
        None \<Rightarrow> None
      | Some (s, Inl err) \<Rightarrow> Some (s, 0)
      | Some (s, Inr next) \<Rightarrow> map_option (\<lambda>(s, n). (s, Suc n)) (handle_msgs s ms))"

lemma handle_msgs_seq:
  "handle_msgs s ms = Some (s', n) \<Longrightarrow> n \<le> length ms \<and>
     (\<forall>k<n. msg_Op (snd (ms ! k)) \<noteq> ipc_OpHello \<and> msg_Seq (snd (ms ! k)) = gs_SeqGame s + of_nat k)"
proof (induction s ms arbitrary: n rule: handle_msgs.induct)
  case (2 s env msg ms)
  show ?case
  proof (cases "\<exists>s1 next. handleMsg env s msg = Some (s1, Inr next)")
    case False
    with "2.prems" have "n = 0" by (auto split: option.splits sum.splits)
    then show ?thesis by simp
  next
    case True
    then obtain s1 nx where h: "handleMsg env s msg = Some (s1, Inr nx)" by blast
    with "2.prems" obtain m where m: "handle_msgs s1 ms = Some (s', m)" "n = Suc m" by auto
    from "2.IH" [OF h refl refl m(1)] handleMsg_seq [OF h] m(2) show ?thesis
      by (auto simp: less_Suc_eq_0_disj)
  qed
qed simp

section \<open>Properties\<close>

text \<open>C27: A query of the game at an index is answered with the entries of the client's log from that
  index on, in order, each with its index, up to 16 of them; there is no panic, and an index behind
  the end of the log gets no answer.\<close>

theorem game_query_window:
  assumes "wal_mem_inv (gs_wal s)" "length (wal_entries (gs_wal s)) < 2 ^ 32"
  shows "sendGameWal s index = Some (map (\<lambda>k. entry_msg s (index + of_nat k) (wal_entries (gs_wal s) ! (unat index + k)))
    [0..<min 16 (length (wal_entries (gs_wal s)) - unat index)])"
  using sendGameWal_loop_window [OF assms, of 0 index 16] by (simp add: sendGameWal_def)

definition example_info :: Info where
  "example_info = \<lparr>in_SessionID = replicate 16 7, in_SessionSecret = replicate 8 9, in_WorldID = 1,
     in_Mode = InfoModeMulti, in_Items = Map.empty, in_Locations = Map.empty, in_Entrances = Map.empty\<rparr>"

definition example_game :: "WalEntry list \<Rightarrow> GameSession" where
  "example_game es = \<lparr>gs_Info = example_info, gs_PlayerID = replicate 16 1, gs_PlayerName = replicate 8 65,
     gs_SeqGame = 5, gs_SeqNet = 9, gs_msgIn = make_chan 16, gs_msgOut = make_chan 16,
     gs_uplinkIn = make_chan 16, gs_uplinkOut = make_chan 16, gs_done = False, gs_dataDir = ''d'',
     gs_sendQ = Some empty_queue, gs_wal = reopened es, gs_positions = createPositionSystem\<rparr>"

theorem game_query_window_witness:
  "sendGameWal (example_game [example_item, example_event]) 1 =
     Some [entry_msg (example_game [example_item, example_event]) 1 example_event]"
proof -
  let ?s = "example_game [example_item, example_event]"
  have "wal_inv (reopened [example_item, example_event])" by (rule reopened_inv) simp
  then have w: "wal_mem_inv (gs_wal ?s)" "wal_entries (gs_wal ?s) = [example_item, example_event]"
    by (simp_all add: example_game_def wal_inv_def) (simp add: reopened_def)
  with game_query_window [OF w(1), of 1] show ?thesis by simp
qed

text \<open>C28: The client only acts on messages of the game that come in sequence: the messages handled before
  the first error carry consecutive numbers, starting with the one announced in the hello, and a
  message with another number ends the loop with nothing but the counter changed.\<close>

theorem game_messages_in_sequence:
  assumes "handle_msgs s ms = Some (s', n)"
  shows "n \<le> length ms \<and>
    (\<forall>k<n. msg_Op (snd (ms ! k)) \<noteq> ipc_OpHello \<and> msg_Seq (snd (ms ! k)) = gs_SeqGame s + of_nat k) \<and>
    (\<forall>env msg. msg_Op msg \<noteq> ipc_OpHello \<and> msg_Seq msg \<noteq> gs_SeqGame s \<longrightarrow>
      (\<exists>err. handleMsg env s msg = Some (s\<lparr>gs_SeqGame := gs_SeqGame s + 1\<rparr>, Inl err)))"
  using handle_msgs_seq [OF assms] handleMsg_bad_seq by blast

definition example_gs_env :: gs_env where
  "example_gs_env = \<lparr>ge_append = all_ok, ge_ack = ack_all_ok, ge_add = add_all_ok, ge_rand = [], ge_pick = PickComm\<rparr>"

theorem game_messages_in_sequence_witness:
  "\<exists>s'. handle_msgs (example_game []) [(example_gs_env, \<lparr>msg_Seq = 5, msg_Op = ipc_OpWalQuery, msg_Payload = [0, 0, 0, 0]\<rparr>),
       (example_gs_env, \<lparr>msg_Seq = 8, msg_Op = ipc_OpWalQuery, msg_Payload = [0, 0, 0, 0]\<rparr>)] = Some (s', 1) \<and>
     (5 :: u32) = gs_SeqGame (example_game []) + of_nat 0"
proof -
  let ?ms = "[(example_gs_env, \<lparr>msg_Seq = 5, msg_Op = ipc_OpWalQuery, msg_Payload = [0, 0, 0, 0]\<rparr>),
    (example_gs_env, \<lparr>msg_Seq = 8, msg_Op = ipc_OpWalQuery, msg_Payload = [0, 0, 0, 0]\<rparr>)]"
  obtain s' where s': "handle_msgs (example_game []) ?ms = Some (s', 1)"
    by (simp add: handleMsg_def example_game_def ipc_opcode_defs)
  from game_messages_in_sequence [OF this] show ?thesis using s' by auto
qed


definition example_report :: MessageBodyWalIn where
  "example_report = \<lparr>wi_Token = 3, wi_Type = WalEvent, wi_Data = [0, 0, 0, 7]\<rparr>"

lemma example_report_entry:
  "\<exists>e. wal_in_entry env s example_report = Some (Inr e)"
  by (simp add: wal_in_entry_def example_report_def WalEvent_def WalItem_def ParseWalEvent_def slice_def)


text \<open>C30: The promise of the previous property hangs on the disk, since the error of \<^verbatim>\<open>sendQ.Add\<close> is dropped.
  When the queue refuses the entry and the channel to the server is full, the game still gets its
  acknowledgement, nothing but the queue's file can have changed, and the report is in no queue,
  no channel and no log of the client.\<close>

theorem game_ack_can_lose_entry:
  assumes "wal_in_entry env s w = Some (Inr e)" "gs_sendQ s = Some q" "entry_key e \<notin> dom (pending q)"
    and "Add (ge_add env) q (entry_key e) (entry_bytes e) = (q', Some err)"
    and "ch_cap (gs_uplinkOut s) \<le> length (ch_buf (gs_uplinkOut s))"
  shows "handleWalIn env s w = Some (s\<lparr>gs_sendQ := Some q'\<rparr>,
      Inr \<lparr>msg_Seq = 0, msg_Op = ipc_OpWalAck, msg_Payload = BE_PutUint32 (wi_Token w)\<rparr>) \<and>
    entry_key e \<notin> dom (pending q')"
proof -
  have "chan_send p (gs_uplinkOut s) = None" for p using assms(5) by (simp add: chan_send_def)
  then have "handleWalIn env s w = Some (s\<lparr>gs_sendQ := Some q'\<rparr>,
      Inr \<lparr>msg_Seq = 0, msg_Op = ipc_OpWalAck, msg_Payload = BE_PutUint32 (wi_Token w)\<rparr>)"
    using newWalEntry_ok [OF wal_in_entry_wf [OF assms(1)] assms(2), of env] assms(1,4)
    by (simp add: handleWalIn_def TrySendUplink_def)
  moreover have "pending q' = pending q" using Add_pending [OF assms(4)] by simp
  ultimately show ?thesis using assms(3) by simp
qed

theorem game_ack_can_lose_entry_witness:
  "\<exists>env s s' q'. handleWalIn env s example_report =
       Some (s', Inr \<lparr>msg_Seq = 0, msg_Op = ipc_OpWalAck, msg_Payload = BE_PutUint32 3\<rparr>) \<and>
     gs_sendQ s' = Some q' \<and> pending q' = Map.empty \<and> gs_uplinkOut s' = gs_uplinkOut s"
proof -
  let ?env = "example_gs_env\<lparr>ge_add := add_all_ok\<lparr>add_seek := False\<rparr>\<rparr>"
  let ?full = "\<lparr>ch_cap = 16, ch_buf = replicate 16 \<lparr>pkt_Op = OpNOP, pkt_Data = []\<rparr>\<rparr>"
  let ?s = "(example_game [])\<lparr>gs_uplinkOut := ?full\<rparr>"
  obtain e where e: "wal_in_entry ?env ?s example_report = Some (Inr e)"
    using example_report_entry by blast
  have q: "gs_sendQ ?s = Some empty_queue" "entry_key e \<notin> dom (pending empty_queue)"
    by (simp_all add: example_game_def pending_def)
  obtain err where a: "Add (ge_add ?env) empty_queue (entry_key e) (entry_bytes e) = (empty_queue, Some err)"
    by (simp add: Add_def add_all_ok_def file_seek_def)
  have "wi_Token example_report = 3" by (simp add: example_report_def)
  with game_ack_can_lose_entry [OF e q a] show ?thesis by (fastforce simp: pending_def)
qed

end
