(* ===== verification/Uplink.thy ===== *)
theory Uplink
  imports GameSession
begin

text \<open>
  The goroutines of the client, \<^verbatim>\<open>client/internal/game/session.go\<close> and \<^verbatim>\<open>uplink.go\<close>: reading and
  writing the game's messages, handling them, re-sending the send queue, ticking the positions,
  and keeping a connection to the server (dial, drain, handshake, two pumps, keep-alives, packets).
  They are a step relation in which every channel operation, every handled message or packet and
  every read or write of a connection is a step of its own; a handler of \<^verbatim>\<open>GameSession\<close> is one step.

  A connection to the server is the packets that have arrived and are not read, and the packets
  written. A failed read or write, a time-out and a closed connection are the \<open>fail\<close> steps, which
  are possible at any moment. \<open>cr_arrived\<close> and \<open>cr_start\<close> only record what has happened: all packets
  that have arrived on the current connection, and the index given in its hello.
\<close>

section \<open>State\<close>

datatype mi_pc = MiRead | MiPut Message | MiEnd
datatype mo_pc = MoWait | MoWrite Message | MoEnd
datatype lp_pc = LpWait | LpSend Message | LpWal u32 u32 | LpWalSend Message u32 u32 | LpDaemon Msg | LpEnd
datatype sq_pc = SqLoop | SqPut "bytes list" | SqSleep | SqEnd

text \<open>
  \<open>UpLoop\<close> is the test of \<^verbatim>\<open>handleUplink\<close>, \<open>UpRetry\<close> its pause; the rest is \<^verbatim>\<open>handleUplinkConn\<close>: \<open>UpRun\<close>
  waits for the connection's context, \<open>UpWait\<close> for the goroutines of the connection.
\<close>

datatype up_pc = UpLoop | UpDial | UpDrain | UpHello | UpReply | UpRun | UpWait | UpRetry | UpEnd
datatype pi_pc = PiLoop | PiRecv | PiPut Packet | PiEnd
datatype po_pc = PoLoop | PoWait | PoWrite Packet | PoEnd
datatype no_pc = NoLoop | NoWait | NoEnd
datatype hk_pc = HkLoop | HkWait | HkEnd
datatype pos_pc = PosRun | PosEnd

record ClientRun =
  cr_s :: GameSession
  cr_gameRx :: "bytes list"
  cr_gameTx :: "Message list"
  cr_daemon :: "Msg chan"
  cr_inPc :: mi_pc
  cr_outPc :: mo_pc
  cr_loopPc :: lp_pc
  cr_posPc :: pos_pc
  cr_posDone :: bool
  cr_sqPc :: sq_pc
  cr_upPc :: up_pc
  cr_upDone :: bool
  cr_piPc :: pi_pc
  cr_poPc :: po_pc
  cr_noPc :: no_pc
  cr_hkPc :: hk_pc
  cr_conn :: nat
  cr_rx :: "Packet list"
  cr_tx :: "Packet list"
  cr_arrived :: "Packet list"
  cr_start :: u32

text \<open>
  The position system has a context of its own (\<open>cr_posDone\<close>), which only its \<^verbatim>\<open>Close\<close> cancels; its
  goroutine \<^verbatim>\<open>run\<close> ticks until then. The context of a connection is a child of the session's.
\<close>

definition up_ctx :: "ClientRun \<Rightarrow> bool" where
  "up_ctx c \<longleftrightarrow> cr_upDone c \<or> gs_done (cr_s c)"

definition upd_s :: "(GameSession \<Rightarrow> GameSession) \<Rightarrow> ClientRun \<Rightarrow> ClientRun" where
  "upd_s f c = c\<lparr>cr_s := f (cr_s c)\<rparr>"

text \<open>\<^verbatim>\<open>s.cancel()\<close>.\<close>

definition cancel_s :: "ClientRun \<Rightarrow> ClientRun" where
  "cancel_s = upd_s (gs_done_update (\<lambda>_. True))"

text \<open>The client when \<^verbatim>\<open>Run\<close> has started its goroutines; in single-player mode there is no uplink.\<close>

definition Run_start :: "GameSession \<Rightarrow> Message \<Rightarrow> Msg chan \<Rightarrow> ClientRun" where
  "Run_start s helloOut daemon =
     \<lparr>cr_s = s, cr_gameRx = [], cr_gameTx = [helloOut], cr_daemon = daemon, cr_inPc = MiRead, cr_outPc = MoWait,
      cr_loopPc = LpWait, cr_posPc = PosRun, cr_posDone = False,
      cr_sqPc = (if in_Mode (gs_Info s) \<noteq> InfoModeSingle then SqLoop else SqEnd),
      cr_upPc = (if in_Mode (gs_Info s) \<noteq> InfoModeSingle then UpLoop else UpEnd),
      cr_upDone = True, cr_piPc = PiEnd, cr_poPc = PoEnd, cr_noPc = NoEnd, cr_hkPc = HkEnd,
      cr_conn = 0, cr_rx = [], cr_tx = [], cr_arrived = [], cr_start = 0\<rparr>"

section \<open>Messages of the game\<close>

text \<open>Where \<^verbatim>\<open>handleMsgLoop\<close> is after the first part of \<^verbatim>\<open>handleMsg\<close>.\<close>

fun after_msg :: "msg_next \<Rightarrow> lp_pc" where
  "after_msg MsgReturn = LpWait"
| "after_msg (MsgSend msg) = LpSend msg"
| "after_msg (MsgWal index) = LpWal index 0"
| "after_msg (MsgDaemon m) = LpDaemon m"

text \<open>\<^verbatim>\<open>Close\<close> of the position system cancels its context; \<^verbatim>\<open>Send\<close> to the game and \<^verbatim>\<open>SendUplink\<close> wait for room in their channel or for the end of the context.\<close>

abbreviation PositionSystem_Close :: "ClientRun \<Rightarrow> ClientRun" where
  "PositionSystem_Close c \<equiv> c\<lparr>cr_posDone := True\<rparr>"

abbreviation Session_Send :: "GameSession \<Rightarrow> select_pick \<Rightarrow> Message \<Rightarrow> (Message chan \<times> bool) option" where
  "Session_Send s pick msg \<equiv> select_send (gs_done s) pick msg (gs_msgOut s)"

abbreviation SendUplink :: "GameSession \<Rightarrow> select_pick \<Rightarrow> Packet \<Rightarrow> (Packet chan \<times> bool) option" where
  "SendUplink s pick pkt \<equiv> select_send (gs_done s) pick pkt (gs_uplinkOut s)"

text \<open>
  \<^verbatim>\<open>handleMsgIn\<close> (\<open>mi_\<close>), \<^verbatim>\<open>handleMsgOut\<close> (\<open>mo_\<close>), \<^verbatim>\<open>handleMsgLoop\<close> (\<open>lp_\<close>, with \<^verbatim>\<open>Send\<close> and the loop of
  \<^verbatim>\<open>sendGameWal\<close>), \<^verbatim>\<open>run\<close> of the position system (\<open>pos_\<close>) and the end of the session's context.
\<close>

inductive game_step :: "ClientRun \<Rightarrow> ClientRun \<Rightarrow> bool" where
  mi_arrive: "game_step c (c\<lparr>cr_gameRx := cr_gameRx c @ [raw]\<rparr>)"
| mi_read: "cr_inPc c = MiRead \<Longrightarrow> cr_gameRx c = raw # rest \<Longrightarrow> ParseMessage raw = Some (Inr msg) \<Longrightarrow>
    game_step c (c\<lparr>cr_gameRx := rest, cr_inPc := MiPut msg\<rparr>)"
| mi_bad: "cr_inPc c = MiRead \<Longrightarrow> cr_gameRx c = raw # rest \<Longrightarrow> ParseMessage raw = Some (Inl err) \<Longrightarrow>
    game_step c (cancel_s (c\<lparr>cr_gameRx := rest, cr_inPc := MiEnd\<rparr>))"
| mi_fail: "cr_inPc c = MiRead \<Longrightarrow> game_step c (cancel_s (c\<lparr>cr_inPc := MiEnd\<rparr>))"
| mi_put: "cr_inPc c = MiPut msg \<Longrightarrow> select_send (gs_done (cr_s c)) pick msg (gs_msgIn (cr_s c)) = Some (ch, sent) \<Longrightarrow>
    game_step c (upd_s (gs_msgIn_update (\<lambda>_. ch)) (c\<lparr>cr_inPc := (if sent then MiRead else MiEnd)\<rparr>))"
| mo_take: "cr_outPc c = MoWait \<Longrightarrow> chan_recv (gs_msgOut (cr_s c)) = Some (msg, ch) \<Longrightarrow>
    number_msg ((cr_s c)\<lparr>gs_msgOut := ch\<rparr>) msg = (s', msg') \<Longrightarrow>
    game_step c (c\<lparr>cr_s := s', cr_outPc := MoWrite msg'\<rparr>)"
| mo_stop: "cr_outPc c = MoWait \<Longrightarrow> gs_done (cr_s c) \<Longrightarrow> game_step c (c\<lparr>cr_outPc := MoEnd\<rparr>)"
| mo_write: "cr_outPc c = MoWrite msg \<Longrightarrow>
    game_step c (c\<lparr>cr_outPc := MoWait, cr_gameTx := cr_gameTx c @ [msg]\<rparr>)"
| mo_fail: "cr_outPc c = MoWrite msg \<Longrightarrow> game_step c (cancel_s (c\<lparr>cr_outPc := MoEnd\<rparr>))"
| lp_msg: "cr_loopPc c = LpWait \<Longrightarrow> chan_recv (gs_msgIn (cr_s c)) = Some (msg, ch) \<Longrightarrow>
    handleMsg env ((cr_s c)\<lparr>gs_msgIn := ch\<rparr>) msg = Some (s', Inr nx) \<Longrightarrow>
    game_step c (c\<lparr>cr_s := s', cr_loopPc := after_msg nx\<rparr>)"
| lp_err: "cr_loopPc c = LpWait \<Longrightarrow> chan_recv (gs_msgIn (cr_s c)) = Some (msg, ch) \<Longrightarrow>
    handleMsg env ((cr_s c)\<lparr>gs_msgIn := ch\<rparr>) msg = Some (s', Inl err) \<Longrightarrow>
    game_step c (cancel_s (c\<lparr>cr_s := s', cr_loopPc := LpEnd\<rparr>))"
| lp_stop: "cr_loopPc c = LpWait \<Longrightarrow> gs_done (cr_s c) \<Longrightarrow> game_step c (c\<lparr>cr_loopPc := LpEnd\<rparr>)"
| lp_send: "cr_loopPc c = LpSend msg \<Longrightarrow>
    Session_Send (cr_s c) pick msg = Some (ch, sent) \<Longrightarrow>
    game_step c (upd_s (gs_msgOut_update (\<lambda>_. ch)) (c\<lparr>cr_loopPc := LpWait\<rparr>))"
| lp_wal: "cr_loopPc c = LpWal index i \<Longrightarrow> i < 16 \<Longrightarrow> game_wal_msg (cr_s c) (index + i) = Some (Some msg) \<Longrightarrow>
    game_step c (c\<lparr>cr_loopPc := LpWalSend msg index i\<rparr>)"
| lp_wal_end: "cr_loopPc c = LpWal index i \<Longrightarrow> 16 \<le> i \<or> game_wal_msg (cr_s c) (index + i) = Some None \<Longrightarrow>
    game_step c (c\<lparr>cr_loopPc := LpWait\<rparr>)"
| lp_wal_send: "cr_loopPc c = LpWalSend msg index i \<Longrightarrow>
    Session_Send (cr_s c) pick msg = Some (ch, sent) \<Longrightarrow>
    game_step c (upd_s (gs_msgOut_update (\<lambda>_. ch)) (c\<lparr>cr_loopPc := LpWal index (i + 1)\<rparr>))"
| lp_daemon: "cr_loopPc c = LpDaemon m \<Longrightarrow> chan_send m (cr_daemon c) = Some ch \<Longrightarrow>
    game_step c (c\<lparr>cr_daemon := ch, cr_loopPc := LpWait\<rparr>)"
| daemon_recv: "chan_recv (cr_daemon c) = Some (m, ch) \<Longrightarrow> game_step c (c\<lparr>cr_daemon := ch\<rparr>)"
| pos_tick: "range_order ord \<Longrightarrow> tick ord (gs_positions (cr_s c)) = (ps, pkts) \<Longrightarrow> cr_posPc c = PosRun \<Longrightarrow>
    game_step c (upd_s (\<lambda>s. foldl TrySendUplink (s\<lparr>gs_positions := ps\<rparr>) pkts) c)"
| pos_stop: "cr_posPc c = PosRun \<Longrightarrow> cr_posDone c \<Longrightarrow> game_step c (c\<lparr>cr_posPc := PosEnd\<rparr>)"
| cancel: "game_step c (cancel_s c)"

text \<open>\<^verbatim>\<open>handleSendQueue\<close>: every pending entry is parsed and handed to \<^verbatim>\<open>SendUplink\<close>, every 10 seconds.\<close>

inductive queue_step :: "ClientRun \<Rightarrow> ClientRun \<Rightarrow> bool" where
  sq_stop: "cr_sqPc c = SqLoop \<or> cr_sqPc c = SqSleep \<Longrightarrow> gs_done (cr_s c) \<Longrightarrow>
    queue_step c (c\<lparr>cr_sqPc := SqEnd\<rparr>)"
| sq_pending: "cr_sqPc c = SqLoop \<Longrightarrow> \<not> gs_done (cr_s c) \<Longrightarrow> gs_sendQ (cr_s c) = Some q \<Longrightarrow> range_order ord \<Longrightarrow>
    queue_step c (c\<lparr>cr_sqPc := SqPut (Pending ord q)\<rparr>)"
| sq_put: "cr_sqPc c = SqPut (d # ds) \<Longrightarrow> Parse d = Some (Inr e) \<Longrightarrow>
    SendUplink (cr_s c) pick \<lparr>pkt_Op = OpWal, pkt_Data = d\<rparr> = Some (ch, sent) \<Longrightarrow>
    queue_step c (upd_s (gs_uplinkOut_update (\<lambda>_. ch)) (c\<lparr>cr_sqPc := SqPut ds\<rparr>))"
| sq_bad: "cr_sqPc c = SqPut (d # ds) \<Longrightarrow> Parse d = Some (Inl err) \<Longrightarrow>
    queue_step c (cancel_s (c\<lparr>cr_sqPc := SqEnd\<rparr>))"
| sq_done: "cr_sqPc c = SqPut [] \<Longrightarrow> queue_step c (c\<lparr>cr_sqPc := SqSleep\<rparr>)"
| sq_wake: "cr_sqPc c = SqSleep \<Longrightarrow> queue_step c (c\<lparr>cr_sqPc := SqLoop\<rparr>)"

section \<open>The connection to the server\<close>

definition client_hello_of :: "GameSession \<Rightarrow> ClientHello" where
  "client_hello_of s =
     \<lparr>ch_Magic = game_magic, ch_Version = 0x00010000, ch_SessionID = in_SessionID (gs_Info s),
      ch_SessionSecret = in_SessionSecret (gs_Info s), ch_PlayerID = gs_PlayerID s, ch_PlayerName = gs_PlayerName s,
      ch_WorldID = in_WorldID (gs_Info s), ch_WalIndex = Count (gs_wal s)\<rparr>"

definition hello_pkt :: "GameSession \<Rightarrow> Packet" where
  "hello_pkt s = \<lparr>pkt_Op = OpHello, pkt_Data = ClientHello_Serialize (client_hello_of s)\<rparr>"

text \<open>What \<^verbatim>\<open>handshake\<close> makes of the server's reply: an error, or none.\<close>

definition handshake_reply :: "Packet \<Rightarrow> go_error option option" where
  "handshake_reply pkt =
     (if pkt_Op pkt \<noteq> OpHello then Some (Some (Errorf ''unexpected operation code: %d''))
      else if length (pkt_Data pkt) < 12 then Some (Some (Errorf ''server hello too short''))
      else do {
        magic \<leftarrow> slice (pkt_Data pkt) 0 8;
        version \<leftarrow> slice (pkt_Data pkt) 8 12 \<bind> LE_Uint32;
        Some (if magic \<noteq> game_magic then Some (Errorf ''invalid magic in server hello'')
              else if version \<noteq> 0x00010000 then Some (Errorf ''invalid version in server hello'')
              else None)
      })"

text \<open>\<^verbatim>\<open>handleUplink\<close> and \<^verbatim>\<open>handleUplinkConn\<close>. Dialling makes a connection with a number of its own.\<close>

definition dialled :: "nat \<Rightarrow> ClientRun \<Rightarrow> ClientRun" where
  "dialled n c = c\<lparr>cr_upPc := UpDrain, cr_upDone := False, cr_conn := n, cr_rx := [], cr_tx := [], cr_arrived := []\<rparr>"

inductive uplink_step :: "ClientRun \<Rightarrow> ClientRun \<Rightarrow> bool" where
  up_loop: "cr_upPc c = UpLoop \<Longrightarrow>
    uplink_step c (c\<lparr>cr_upPc := (if gs_done (cr_s c) then UpEnd else UpDial)\<rparr>)"
| up_dial_fail: "cr_upPc c = UpDial \<Longrightarrow> uplink_step c (c\<lparr>cr_upPc := UpRetry\<rparr>)"
| up_drain_in: "cr_upPc c = UpDrain \<Longrightarrow> chan_recv (gs_uplinkIn (cr_s c)) = Some (pkt, ch) \<Longrightarrow>
    uplink_step c (upd_s (gs_uplinkIn_update (\<lambda>_. ch)) c)"
| up_drain_out: "cr_upPc c = UpDrain \<Longrightarrow> chan_recv (gs_uplinkOut (cr_s c)) = Some (pkt, ch) \<Longrightarrow>
    uplink_step c (upd_s (gs_uplinkOut_update (\<lambda>_. ch)) c)"
| up_drained: "cr_upPc c = UpDrain \<Longrightarrow> chan_recv (gs_uplinkIn (cr_s c)) = None \<Longrightarrow>
    chan_recv (gs_uplinkOut (cr_s c)) = None \<Longrightarrow> uplink_step c (c\<lparr>cr_upPc := UpHello\<rparr>)"
| up_hello: "cr_upPc c = UpHello \<Longrightarrow> SendRaw r (hello_pkt (cr_s c)) = (bs, None) \<Longrightarrow>
    uplink_step c (c\<lparr>cr_upPc := UpReply, cr_tx := [hello_pkt (cr_s c)], cr_start := Count (gs_wal (cr_s c))\<rparr>)"
| up_hello_fail: "cr_upPc c = UpHello \<Longrightarrow> SendRaw r (hello_pkt (cr_s c)) = (bs, Some err) \<Longrightarrow>
    uplink_step c (c\<lparr>cr_upPc := UpRetry, cr_upDone := True\<rparr>)"
| up_reply: "cr_upPc c = UpReply \<Longrightarrow> cr_rx c = pkt # rest \<Longrightarrow> handshake_reply pkt = Some None \<Longrightarrow>
    uplink_step c (c\<lparr>cr_upPc := UpRun, cr_piPc := PiLoop, cr_poPc := PoLoop, cr_noPc := NoLoop,
      cr_hkPc := HkLoop, cr_rx := rest\<rparr>)"
| up_reply_bad: "cr_upPc c = UpReply \<Longrightarrow> cr_rx c = pkt # rest \<Longrightarrow> handshake_reply pkt = Some (Some err) \<Longrightarrow>
    uplink_step c (c\<lparr>cr_upPc := UpRetry, cr_upDone := True, cr_rx := rest\<rparr>)"
| up_reply_fail: "cr_upPc c = UpReply \<Longrightarrow> uplink_step c (c\<lparr>cr_upPc := UpRetry, cr_upDone := True\<rparr>)"
| up_stop: "cr_upPc c = UpRun \<Longrightarrow> up_ctx c \<Longrightarrow> uplink_step c (c\<lparr>cr_upPc := UpWait, cr_upDone := True\<rparr>)"
| up_joined: "cr_upPc c = UpWait \<Longrightarrow> cr_piPc c = PiEnd \<Longrightarrow> cr_poPc c = PoEnd \<Longrightarrow> cr_noPc c = NoEnd \<Longrightarrow>
    cr_hkPc c = HkEnd \<Longrightarrow> uplink_step c (c\<lparr>cr_upPc := UpRetry\<rparr>)"
| up_retry: "cr_upPc c = UpRetry \<Longrightarrow> uplink_step c (c\<lparr>cr_upPc := UpLoop\<rparr>)"

text \<open>
  The goroutines of a connection: \<^verbatim>\<open>pumpIn\<close> (\<open>pi_\<close>), \<^verbatim>\<open>pumpOut\<close> (\<open>po_\<close>), \<^verbatim>\<open>handleNops\<close> (\<open>no_\<close>) and
  \<^verbatim>\<open>handlePackets\<close> (\<open>hk_\<close>). Each cancels the connection's context when it returns.
\<close>

inductive conn_step :: "ClientRun \<Rightarrow> ClientRun \<Rightarrow> bool" where
  pi_loop: "cr_piPc c = PiLoop \<Longrightarrow> \<not> up_ctx c \<Longrightarrow> conn_step c (c\<lparr>cr_piPc := PiRecv\<rparr>)"
| pi_stop: "cr_piPc c = PiLoop \<Longrightarrow> up_ctx c \<Longrightarrow> conn_step c (c\<lparr>cr_piPc := PiEnd, cr_upDone := True\<rparr>)"
| pi_recv: "cr_piPc c = PiRecv \<Longrightarrow> cr_rx c = pkt # rest \<Longrightarrow>
    conn_step c (c\<lparr>cr_piPc := PiPut pkt, cr_rx := rest\<rparr>)"
| pi_fail: "cr_piPc c = PiRecv \<Longrightarrow> conn_step c (c\<lparr>cr_piPc := PiEnd, cr_upDone := True\<rparr>)"
| pi_put: "cr_piPc c = PiPut pkt \<Longrightarrow> select_send (up_ctx c) pick pkt (gs_uplinkIn (cr_s c)) = Some (ch, True) \<Longrightarrow>
    conn_step c (upd_s (gs_uplinkIn_update (\<lambda>_. ch)) (c\<lparr>cr_piPc := PiLoop\<rparr>))"
| pi_drop: "cr_piPc c = PiPut pkt \<Longrightarrow> select_send (up_ctx c) pick pkt (gs_uplinkIn (cr_s c)) = Some (ch, False) \<Longrightarrow>
    conn_step c (c\<lparr>cr_piPc := PiEnd, cr_upDone := True\<rparr>)"
| po_loop: "cr_poPc c = PoLoop \<Longrightarrow> \<not> up_ctx c \<Longrightarrow> conn_step c (c\<lparr>cr_poPc := PoWait\<rparr>)"
| po_stop: "cr_poPc c = PoLoop \<or> cr_poPc c = PoWait \<Longrightarrow> up_ctx c \<Longrightarrow>
    conn_step c (c\<lparr>cr_poPc := PoEnd, cr_upDone := True\<rparr>)"
| po_take: "cr_poPc c = PoWait \<Longrightarrow> chan_recv (gs_uplinkOut (cr_s c)) = Some (pkt, ch) \<Longrightarrow>
    conn_step c (upd_s (gs_uplinkOut_update (\<lambda>_. ch)) (c\<lparr>cr_poPc := PoWrite pkt\<rparr>))"
| po_write: "cr_poPc c = PoWrite pkt \<Longrightarrow> SendRaw r pkt = (bs, None) \<Longrightarrow>
    conn_step c (c\<lparr>cr_poPc := PoLoop, cr_tx := cr_tx c @ [pkt]\<rparr>)"
| po_fail: "cr_poPc c = PoWrite pkt \<Longrightarrow> SendRaw r pkt = (bs, Some err) \<Longrightarrow>
    conn_step c (c\<lparr>cr_poPc := PoEnd, cr_upDone := True\<rparr>)"
| no_loop: "cr_noPc c = NoLoop \<Longrightarrow> \<not> up_ctx c \<Longrightarrow> conn_step c (c\<lparr>cr_noPc := NoWait\<rparr>)"
| no_stop: "cr_noPc c = NoLoop \<or> cr_noPc c = NoWait \<Longrightarrow> up_ctx c \<Longrightarrow>
    conn_step c (c\<lparr>cr_noPc := NoEnd, cr_upDone := True\<rparr>)"
| no_tick: "cr_noPc c = NoWait \<Longrightarrow>
    conn_step c (upd_s (\<lambda>s. TrySendUplink s \<lparr>pkt_Op = OpNOP, pkt_Data = []\<rparr>) (c\<lparr>cr_noPc := NoLoop\<rparr>))"
| hk_loop: "cr_hkPc c = HkLoop \<Longrightarrow> \<not> up_ctx c \<Longrightarrow> conn_step c (c\<lparr>cr_hkPc := HkWait\<rparr>)"
| hk_stop: "cr_hkPc c = HkLoop \<or> cr_hkPc c = HkWait \<Longrightarrow> up_ctx c \<Longrightarrow>
    conn_step c (c\<lparr>cr_hkPc := HkEnd, cr_upDone := True\<rparr>)"
| hk_packet: "cr_hkPc c = HkWait \<Longrightarrow> chan_recv (gs_uplinkIn (cr_s c)) = Some (pkt, ch) \<Longrightarrow>
    handleUplinkPacket env ((cr_s c)\<lparr>gs_uplinkIn := ch\<rparr>) pkt = Some (s', None) \<Longrightarrow>
    conn_step c (c\<lparr>cr_s := s', cr_hkPc := HkLoop\<rparr>)"
| hk_err: "cr_hkPc c = HkWait \<Longrightarrow> chan_recv (gs_uplinkIn (cr_s c)) = Some (pkt, ch) \<Longrightarrow>
    handleUplinkPacket env ((cr_s c)\<lparr>gs_uplinkIn := ch\<rparr>) pkt = Some (s', Some err) \<Longrightarrow>
    conn_step c (c\<lparr>cr_s := s', cr_hkPc := HkEnd, cr_upDone := True\<rparr>)"

text \<open>A step of the client on its own; dialling and arriving packets are steps of the network.\<close>

inductive client_step :: "ClientRun \<Rightarrow> ClientRun \<Rightarrow> bool" where
  game: "game_step c c' \<Longrightarrow> client_step c c'"
| queue: "queue_step c c' \<Longrightarrow> client_step c c'"
| uplink: "uplink_step c c' \<Longrightarrow> client_step c c'"
| conn: "conn_step c c' \<Longrightarrow> client_step c c'"

definition arrived :: "Packet \<Rightarrow> ClientRun \<Rightarrow> ClientRun" where
  "arrived pkt c = c\<lparr>cr_rx := cr_rx c @ [pkt], cr_arrived := cr_arrived c @ [pkt]\<rparr>"

end
