(* ===== verification/EventSink.thy ===== *)
theory EventSink
  imports GoChan
begin

text \<open>
  The event sinks of \<^verbatim>\<open>server/internal/events\<close>: the null sink and the sink that publishes to NATS
  from a goroutine of its own. The interface \<^verbatim>\<open>Sink\<close> is a datatype with a case for each
  implementation. \<^verbatim>\<open>json.Marshal\<close> is the parameter \<open>marshal\<close>; the NATS client library answers each
  call with the outcome that the step carries. Shown: sending never blocks and never fails, and what
  is published is a subsequence of what was sent, in order.
\<close>

section \<open>State\<close>

record 'e EventNATS =
  en_subject :: string
  en_data :: 'e

text \<open>Where the goroutine \<^verbatim>\<open>run\<close> is: in \<^verbatim>\<open>connect\<close>, in its loop, or finished.\<close>

datatype nats_pc = NatsConnect | NatsServe | NatsEnd

record 'e SinkNATS =
  sn_ch :: "'e EventNATS chan"
  sn_cancelled :: bool
  sn_done :: bool
  sn_url :: string
  sn_pc :: nats_pc
  sn_published :: "'e EventNATS list"

datatype 'e Sink = SinkNull | SinkNats "'e SinkNATS"

section \<open>Operations\<close>

definition newSinkNATS :: "string \<Rightarrow> 'e SinkNATS" where
  "newSinkNATS url = \<lparr>sn_ch = make_chan 1024, sn_cancelled = False, sn_done = False, sn_url = url,
     sn_pc = NatsConnect, sn_published = []\<rparr>"

definition NewSink :: "string \<Rightarrow> 'e Sink" where
  "NewSink natsURL = (if natsURL \<noteq> '''' then SinkNats (newSinkNATS natsURL) else SinkNull)"

definition SinkNATS_Send :: "select_pick \<Rightarrow> 'e SinkNATS \<Rightarrow> string \<Rightarrow> 'e \<Rightarrow> 'e SinkNATS \<times> go_error option" where
  "SinkNATS_Send pick s subject event =
     (let ev = \<lparr>en_subject = subject, en_data = event\<rparr>
      in (s\<lparr>sn_ch := try_send (sn_cancelled s) pick ev (sn_ch s)\<rparr>, None))"

fun Sink_Send :: "select_pick \<Rightarrow> 'e Sink \<Rightarrow> string \<Rightarrow> 'e \<Rightarrow> 'e Sink \<times> go_error option" where
  "Sink_Send pick SinkNull subject event = (SinkNull, None)"
| "Sink_Send pick (SinkNats s) subject event =
     (case SinkNATS_Send pick s subject event of (s, err) \<Rightarrow> (SinkNats s, err))"

text \<open>
  \<^verbatim>\<open>publish\<close>: \<open>answer\<close> is what \<^verbatim>\<open>conn.Publish\<close> returns. An event is published when the library
  took it.
\<close>

definition publish ::
    "('e \<Rightarrow> bytes result) \<Rightarrow> go_error option \<Rightarrow> 'e SinkNATS \<Rightarrow> 'e EventNATS \<Rightarrow> 'e SinkNATS \<times> go_error option" where
  "publish marshal answer s event =
     (case marshal (en_data event) of
        Inl err \<Rightarrow> (s, Some err)
      | Inr data \<Rightarrow>
          (case answer of
             Some err \<Rightarrow> (s, Some err)
           | None \<Rightarrow> (s\<lparr>sn_published := sn_published s @ [event]\<rparr>, None)))"

text \<open>\<^verbatim>\<open>SinkNATS.Close\<close> cancels and then waits for \<^verbatim>\<open>run\<close> to finish.\<close>

definition SinkNATS_cancel :: "'e SinkNATS \<Rightarrow> 'e SinkNATS" where
  "SinkNATS_cancel s = s\<lparr>sn_cancelled := True\<rparr>"

fun Sink_cancel :: "'e Sink \<Rightarrow> 'e Sink" where
  "Sink_cancel SinkNull = SinkNull"
| "Sink_cancel (SinkNats s) = SinkNats (SinkNATS_cancel s)"

text \<open>Whether \<^verbatim>\<open>Close\<close>, having cancelled, returns: the null sink has nothing to wait for.\<close>

fun Sink_closed :: "'e Sink \<Rightarrow> bool" where
  "Sink_closed SinkNull \<longleftrightarrow> True"
| "Sink_closed (SinkNats s) \<longleftrightarrow> sn_done s"

text \<open>
  The goroutine: \<^verbatim>\<open>connect\<close> retries until it has a connection or the context ends; then events are
  published one by one, whatever the errors, until the context ends.
\<close>

inductive nats_run_step :: "('e \<Rightarrow> bytes result) \<Rightarrow> 'e SinkNATS \<Rightarrow> 'e SinkNATS \<Rightarrow> bool" for marshal where
  connected: "sn_pc s = NatsConnect \<Longrightarrow> \<not> sn_cancelled s \<Longrightarrow>
    nats_run_step marshal s (s\<lparr>sn_pc := NatsServe\<rparr>)"
| retry: "sn_pc s = NatsConnect \<Longrightarrow> \<not> sn_cancelled s \<Longrightarrow> nats_run_step marshal s s"
| no_conn: "sn_pc s = NatsConnect \<Longrightarrow> sn_cancelled s \<Longrightarrow>
    nats_run_step marshal s (s\<lparr>sn_pc := NatsEnd, sn_done := True, sn_cancelled := True\<rparr>)"
| event: "sn_pc s = NatsServe \<Longrightarrow> chan_recv (sn_ch s) = Some (ev, ch) \<Longrightarrow>
    nats_run_step marshal s (fst (publish marshal answer (s\<lparr>sn_ch := ch\<rparr>) ev))"
| leave: "sn_pc s = NatsServe \<Longrightarrow> sn_cancelled s \<Longrightarrow>
    nats_run_step marshal s (s\<lparr>sn_pc := NatsEnd, sn_done := True, sn_cancelled := True\<rparr>)"

text \<open>Runs of the sink, with the list of the events that were sent to it.\<close>

inductive nats_reach :: "('e \<Rightarrow> bytes result) \<Rightarrow> string \<Rightarrow> 'e EventNATS list \<Rightarrow> 'e SinkNATS \<Rightarrow> bool"
  for marshal url where
  init: "nats_reach marshal url [] (newSinkNATS url)"
| goroutine: "nats_reach marshal url evs s \<Longrightarrow> nats_run_step marshal s s' \<Longrightarrow> nats_reach marshal url evs s'"
| send: "nats_reach marshal url evs s \<Longrightarrow>
    nats_reach marshal url (evs @ [\<lparr>en_subject = subject, en_data = event\<rparr>])
      (fst (SinkNATS_Send pick s subject event))"
| cancel: "nats_reach marshal url evs s \<Longrightarrow> nats_reach marshal url evs (SinkNATS_cancel s)"

section \<open>Properties\<close>

lemma nats_event_shape:
  "\<exists>pub. fst (publish marshal answer s ev) = s\<lparr>sn_published := pub\<rparr> \<and>
     (pub = sn_published s \<or> pub = sn_published s @ [ev])"
  by (cases s) (simp add: publish_def split: sum.split option.split)

lemma subseq_drop_middle: "subseq (xs @ x # ys) evs \<Longrightarrow> subseq (xs @ ys) evs"
proof (rule subseq_order.order_trans)
  show "subseq (xs @ ys) (xs @ x # ys)" by (induction xs) auto
qed

lemma nats_inv:
  assumes "nats_reach marshal url evs s"
  shows "subseq (sn_published s @ ch_buf (sn_ch s)) evs \<and> ch_cap (sn_ch s) = 1024 \<and>
    length (ch_buf (sn_ch s)) \<le> 1024"
  using assms
proof induction
  case (goroutine evs s s')
  from goroutine.hyps(2) goroutine.IH show ?case
  proof cases
    case (event ev ch answer)
    obtain pub where p: "s' = s\<lparr>sn_ch := ch, sn_published := pub\<rparr>"
      "pub = sn_published s \<or> pub = sn_published s @ [ev]"
      using event nats_event_shape [of marshal answer "s\<lparr>sn_ch := ch\<rparr>" ev] by auto
    from chan.recv_items [OF event(3)] have "ch_buf (sn_ch s) = ev # ch_buf ch" "ch_cap ch = ch_cap (sn_ch s)" by simp_all
    with p goroutine.IH subseq_drop_middle show ?thesis by fastforce
  qed auto
next
  case (send evs s subject event pick)
  let ?ev = "\<lparr>en_subject = subject, en_data = event\<rparr>"
  have "subseq (xs @ [?ev]) (evs @ [?ev])" if "subseq xs evs" for xs
    using that by (simp add: list_emb_append_mono)
  moreover have "subseq xs (evs @ [?ev])" if "subseq xs evs" for xs
    using list_emb_append_mono [OF that, of "[]" "[?ev]"] by simp
  ultimately have "subseq (sn_published s @ ch_buf (try_send (sn_cancelled s) pick ?ev (sn_ch s))) (evs @ [?ev])"
    using send.IH try_send_buf [of "sn_cancelled s" pick ?ev "sn_ch s"] by (metis append_assoc)
  with send.IH try_send_bounded [of "sn_ch s"] show ?case by (simp add: SinkNATS_Send_def Let_def)
qed (simp_all add: newSinkNATS_def SinkNATS_cancel_def)

text \<open>Sending an event never reports an error, whichever sink is configured, and never blocks. The
  NATS sink may drop events but does not reorder or duplicate them: what it has published, followed
  by the at most 1024 events it holds, is a subsequence of what was sent.\<close>

theorem sink_lossy_in_order:
  assumes "nats_reach marshal url evs s"
  shows "subseq (sn_published s @ ch_buf (sn_ch s)) evs \<and> length (ch_buf (sn_ch s)) \<le> 1024 \<and>
    snd (Sink_Send pick sink subject event) = None"
  using nats_inv [OF assms] by (cases sink) (auto simp: SinkNATS_Send_def)

theorem sink_lossy_in_order_witness:
  "\<exists>s. nats_reach (\<lambda>n :: nat. Inr []) ''nats://h'' [\<lparr>en_subject = ''a'', en_data = 1\<rparr>, \<lparr>en_subject = ''b'', en_data = 2\<rparr>] s \<and>
     sn_published s @ ch_buf (sn_ch s) = [\<lparr>en_subject = ''a'', en_data = 1\<rparr>, \<lparr>en_subject = ''b'', en_data = 2\<rparr>] \<and>
     sn_published s \<noteq> [] \<and> subseq (sn_published s @ ch_buf (sn_ch s))
       [\<lparr>en_subject = ''a'', en_data = 1\<rparr>, \<lparr>en_subject = ''b'', en_data = 2\<rparr>]"
proof -
  let ?m = "\<lambda>n :: nat. Inr [] :: bytes result" and ?u = "''nats://h''"
  let ?s1 = "fst (SinkNATS_Send PickComm (newSinkNATS ?u) ''a'' 1)"
  let ?s2 = "?s1\<lparr>sn_pc := NatsServe\<rparr>"
  let ?s3 = "fst (publish ?m None (?s2\<lparr>sn_ch := make_chan 1024\<rparr>) \<lparr>en_subject = ''a'', en_data = 1\<rparr>)"
  let ?s4 = "fst (SinkNATS_Send PickComm ?s3 ''b'' 2)"
  have 1: "nats_reach ?m ?u [\<lparr>en_subject = ''a'', en_data = 1\<rparr>] ?s1"
    using nats_reach.send [OF nats_reach.init] by fastforce
  have "nats_run_step ?m ?s1 ?s2"
    by (rule nats_run_step.connected) (simp_all add: SinkNATS_Send_def newSinkNATS_def)
  with 1 have 2: "nats_reach ?m ?u [\<lparr>en_subject = ''a'', en_data = 1\<rparr>] ?s2" by (rule nats_reach.goroutine)
  have "nats_run_step ?m ?s2 ?s3"
    by (rule nats_run_step.event)
      (simp_all add: SinkNATS_Send_def newSinkNATS_def try_send_def select_send_def chan_send_def chan_recv_def make_chan_def)
  with 2 have "nats_reach ?m ?u [\<lparr>en_subject = ''a'', en_data = 1\<rparr>] ?s3" by (rule nats_reach.goroutine)
  from nats_reach.send [OF this, of "''b''" 2 PickComm]
  have r: "nats_reach ?m ?u [\<lparr>en_subject = ''a'', en_data = 1\<rparr>, \<lparr>en_subject = ''b'', en_data = 2\<rparr>] ?s4" by simp
  have "sn_published ?s4 = [\<lparr>en_subject = ''a'', en_data = 1\<rparr>]" "ch_buf (sn_ch ?s4) = [\<lparr>en_subject = ''b'', en_data = 2\<rparr>]"
    by (simp_all add: SinkNATS_Send_def newSinkNATS_def publish_def try_send_def select_send_def chan_send_def make_chan_def)
  with r sink_lossy_in_order [OF r] show ?thesis by (intro exI [of _ ?s4]) simp
qed

end
