(* ===== verification/ServerSession.thy ===== *)
theory ServerSession
  imports WalStream Protocol DataPath EventSink
begin

text \<open>
  A session of the server, \<^verbatim>\<open>server/internal/session/session.go\<close>: the shared log and the connected
  players, each served by four goroutines. The handlers are functions; the goroutines are a step
  relation in which every channel operation, every handled packet and every write to the
  connection is a step of its own. Shown, for every interleaving: a player is only told that an
  entry is stored when the log has it, and receives the log in order from the index it asked for.

  A connection is the packets that have arrived from the peer and the packets written to it; the
  framing is that of \<^verbatim>\<open>Protocol\<close>, and a cut connection or a time-out is the step \<open>in_fail\<close>, possible
  at any moment. Time is in nanoseconds; the zero time is \<^const>\<open>None\<close>. Logging is left out.
\<close>

section \<open>State\<close>

record EventPosition =
  ev_Event :: string
  ev_SessionID :: string
  ev_PlayerID :: string
  ev_WorldID :: u8
  ev_PlayerName :: bytes
  ev_Key :: u16
  ev_X :: i16
  ev_Y :: i16
  ev_Z :: i16

record Player =
  p_ID :: bytes
  p_Name :: bytes
  p_WorldID :: u8
  p_WalIndex :: u32
  p_LastPosTime :: "int option"
  p_done :: bool
  p_in :: "Packet chan"
  p_out :: "Packet chan"

text \<open>Where the goroutines of a player are; \<open>Loop\<close> is the test at the head of the loop.\<close>

datatype in_pc = InLoop | InRecv | InPut Packet | InEnd
datatype hp_pc = HpLoop | HpWait | HpSend Packet | HpEnd
datatype ws_pc = WsLoop | WsNext | WsSend Packet | WsEnd
datatype out_pc = OutWait | OutWrite Packet | OutEnd

text \<open>
  A player with its goroutines: the stream that \<^verbatim>\<open>handleWalStream\<close> subscribed, the packets that have
  arrived and are not read yet, the packets written so far, and the index of the \<^verbatim>\<open>Subscribe\<close> call.
\<close>

record PlayerRun = Player +
  pr_started :: bool
  pr_inPc :: in_pc
  pr_hpPc :: hp_pc
  pr_wsPc :: ws_pc
  pr_outPc :: out_pc
  pr_stream :: WALStream
  pr_rx :: "Packet list"
  pr_sent :: "Packet list"
  pr_start :: u32

text \<open>The map of players is keyed by the address of the \<^verbatim>\<open>Player\<close>.\<close>

record Session =
  s_ID :: bytes
  s_Secret :: bytes
  s_DataDir :: string
  s_cancelled :: bool
  s_players :: "nat \<rightharpoonup> PlayerRun"
  s_wal :: WAL
  s_sink :: "EventPosition Sink"

text \<open>What the operating system, the clock and the scheduler contribute to one handled packet.\<close>

record hp_env =
  he_io :: append_io
  he_picks :: "nat \<Rightarrow> select_pick"
  he_pick :: select_pick
  he_since :: int
  he_now :: int

section \<open>Handlers\<close>

text \<open>\<open>opened\<close> and \<open>fin\<close> are what opening and reading the log's file give.\<close>

definition OpenSession ::
    "go_error option \<Rightarrow> bytes result \<Rightarrow> go_error \<Rightarrow> string \<Rightarrow> bytes \<Rightarrow> bytes \<Rightarrow> EventPosition Sink \<Rightarrow> Session go" where
  "OpenSession mkdir opened fin dataDir sessionID sessionSecret sink =
     (case getDataPath mkdir dataDir sessionID of
        None \<Rightarrow> None
      | Some (Inl err) \<Rightarrow> Some (Inl (Wrapf ''failed to get data path: %v'' err))
      | Some (Inr dataPath) \<Rightarrow>
          (case OpenWAL opened fin of
             None \<Rightarrow> None
           | Some (Inl err) \<Rightarrow> Some (Inl (Wrapf ''failed to open WAL: %v'' err))
           | Some (Inr w) \<Rightarrow>
               Some (Inr \<lparr>s_ID = sessionID, s_Secret = sessionSecret, s_DataDir = dataPath,
                 s_cancelled = False, s_players = Map.empty, s_wal = w, s_sink = sink\<rparr>)))"

definition upd_player :: "Session \<Rightarrow> nat \<Rightarrow> (PlayerRun \<Rightarrow> PlayerRun) \<Rightarrow> Session" where
  "upd_player s pid f = s\<lparr>s_players := (s_players s)(pid := map_option f (s_players s pid))\<rparr>"

definition BroadcastExcept :: "(nat \<Rightarrow> select_pick) \<Rightarrow> Session \<Rightarrow> Packet \<Rightarrow> nat \<Rightarrow> Session" where
  "BroadcastExcept picks s pkt excluded =
     s\<lparr>s_players := (\<lambda>pid.
        if pid = excluded then s_players s pid
        else map_option (\<lambda>p. p\<lparr>p_out := try_send (p_done p) (picks pid) pkt (p_out p)\<rparr>) (s_players s pid))\<rparr>"

definition position_event :: "Session \<Rightarrow> PlayerRun \<Rightarrow> ClientPosition \<Rightarrow> EventPosition" where
  "position_event s p pos = \<lparr>ev_Event = ''position'', ev_SessionID = EncodeToString (s_ID s),
     ev_PlayerID = EncodeToString (p_ID p), ev_WorldID = p_WorldID p, ev_PlayerName = TrimRight_nul (p_Name p),
     ev_Key = cp_Key pos, ev_X = cp_X pos, ev_Y = cp_Y pos, ev_Z = cp_Z pos\<rparr>"

definition event_due :: "int \<Rightarrow> int option \<Rightarrow> bool" where
  "event_due since lastPos = (case lastPos of None \<Rightarrow> True | Some t \<Rightarrow> since - t \<ge> 250 * 1000000)"

definition handlePositionUpdate :: "hp_env \<Rightarrow> Session \<Rightarrow> nat \<Rightarrow> ClientPosition \<Rightarrow> Session" where
  "handlePositionUpdate env s pid pos =
     (case s_players s pid of
        None \<Rightarrow> s
      | Some p \<Rightarrow>
          (let body = \<lparr>sp_ID = p_ID p, sp_Name = p_Name p, sp_Key = cp_Key pos, sp_X = cp_X pos,
                 sp_Y = cp_Y pos, sp_Z = cp_Z pos\<rparr>;
               s = BroadcastExcept (he_picks env) s
                 \<lparr>pkt_Op = OpPosition, pkt_Data = ServerPosition_Serialize body\<rparr> pid
           in if event_due (he_since env) (p_LastPosTime p) then
                let s = upd_player s pid (\<lambda>p. p\<lparr>p_LastPosTime := Some (he_now env)\<rparr>);
                    ev = position_event s p pos;
                    (sink, err) = Sink_Send (he_pick env) (s_sink s)
                      (''ootmm.events.multi.'' @ ev_SessionID ev) ev
                in s\<lparr>s_sink := sink\<rparr>
              else s))"

text \<open>
  The state afterwards, and either the error that is returned, or what is left to do before
  returning \<^verbatim>\<open>nil\<close>: the packet for \<^verbatim>\<open>p.Send\<close>, which may have to wait.
\<close>

definition handlePacket :: "hp_env \<Rightarrow> Session \<Rightarrow> nat \<Rightarrow> Packet \<Rightarrow> (Session \<times> Packet option result) option" where
  "handlePacket env s pid pkt =
     (if pkt_Op pkt = OpNOP then Some (s, Inr None)
      else if pkt_Op pkt = OpWal then
        (case Parse (pkt_Data pkt) of
           None \<Rightarrow> None
         | Some (Inl err) \<Rightarrow> Some (s, Inl (Wrapf ''failed to parse WAL entry: %v'' err))
         | Some (Inr entry) \<Rightarrow>
             (case Append (he_io env) (s_wal s) entry of
                (w, Some err) \<Rightarrow> Some (s\<lparr>s_wal := w\<rparr>, Inl (Wrapf ''failed to append WAL entry: %v'' err))
              | (w, None) \<Rightarrow>
                  (case DedupKey entry of
                     Inl err \<Rightarrow> Some (s\<lparr>s_wal := w\<rparr>, Inl (Wrapf ''failed to compute deduplication key: %v'' err))
                   | Inr dedupKey \<Rightarrow>
                       Some (s\<lparr>s_wal := w\<rparr>, Inr (Some \<lparr>pkt_Op = OpWalAck, pkt_Data = dedupKey\<rparr>)))))
      else if pkt_Op pkt = OpPosition then
        (case ParseClientPosition (pkt_Data pkt) of
           None \<Rightarrow> None
         | Some (Inl err) \<Rightarrow> Some (s, Inl (Wrapf ''failed to parse client position: %v'' err))
         | Some (Inr pos) \<Rightarrow> Some (handlePositionUpdate env s pid pos, Inr None))
      else Some (s, Inr None))"

text \<open>
  \<^verbatim>\<open>stream.Next()\<close> when it returns an entry: the lookup that succeeds in \<^verbatim>\<open>WalStream\<close>, lemma
  \<open>next_entry_step\<close> below.
\<close>

definition next_entry :: "WAL \<Rightarrow> WALStream \<Rightarrow> (WalEntry \<times> u32 \<times> WALStream) option option" where
  "next_entry w st = map_option (map_option
     (\<lambda>e. (e, stream_index st, \<lparr>stream_index = stream_index st + 1\<rparr>))) (Get w (stream_index st))"

text \<open>The body of the loop of \<^verbatim>\<open>handleWalStream\<close> after \<^verbatim>\<open>Next\<close>, up to \<^verbatim>\<open>p.Send\<close>.\<close>

definition stream_body :: "PlayerRun \<Rightarrow> WalEntry \<Rightarrow> u32 \<Rightarrow> PlayerRun \<times> Packet option result" where
  "stream_body p entry index =
     (if index < p_WalIndex p then (p, Inr None)
      else
        (let p = p\<lparr>p_WalIndex := index + 1\<rparr>;
             body = \<lparr>sw_Index = index, sw_Entry = entry\<rparr>
         in (case ServerWal_Serialize body of
               Inl err \<Rightarrow> (p, Inl err)
             | Inr bodyData \<Rightarrow> (p, Inr (Some \<lparr>pkt_Op = OpWal, pkt_Data = bodyData\<rparr>)))))"

definition hello_packet :: Packet where
  "hello_packet = \<lparr>pkt_Op = OpHello, pkt_Data = ServerHello_Serialize
     \<lparr>sh_Magic = [0x4f, 0x6f, 0x54, 0x4d, 0x4d, 0x7f, 0x01, 0x00], sh_Version = 0x00010000\<rparr>\<rparr>"

definition new_player :: "bool \<Rightarrow> bytes \<Rightarrow> bytes \<Rightarrow> u8 \<Rightarrow> u32 \<Rightarrow> PlayerRun" where
  "new_player cancelled PlayerID PlayerName worldID walIndex =
     \<lparr>p_ID = PlayerID, p_Name = PlayerName, p_WorldID = worldID, p_WalIndex = walIndex, p_LastPosTime = None,
      p_done = cancelled, p_in = make_chan 64, p_out = make_chan 64, pr_started = False,
      pr_inPc = InLoop, pr_hpPc = HpLoop, pr_wsPc = WsLoop, pr_outPc = OutWait,
      pr_stream = Subscribe walIndex, pr_rx = [], pr_sent = [], pr_start = walIndex\<rparr>"

text \<open>
  \<^verbatim>\<open>Join\<close> in three parts: the player enters the map; the hello is written and the goroutines start,
  or the deferred \<^verbatim>\<open>delete\<close> takes the player out again; when the context has ended and all
  goroutines have returned the player leaves.
\<close>

definition Join_enter :: "Session \<Rightarrow> nat \<Rightarrow> bytes \<Rightarrow> bytes \<Rightarrow> u8 \<Rightarrow> u32 \<Rightarrow> Session" where
  "Join_enter s pid PlayerID PlayerName worldID walIndex =
     s\<lparr>s_players := (s_players s)(pid \<mapsto> new_player (s_cancelled s) PlayerID PlayerName worldID walIndex)\<rparr>"

definition Join_hello :: "wr \<Rightarrow> Session \<Rightarrow> nat \<Rightarrow> Session" where
  "Join_hello out s pid =
     (case SendRaw out hello_packet of
        (_, Some err) \<Rightarrow> s\<lparr>s_players := (s_players s)(pid := None)\<rparr>
      | (_, None) \<Rightarrow> upd_player s pid (\<lambda>p. p\<lparr>pr_started := True, pr_sent := pr_sent p @ [hello_packet]\<rparr>))"

definition Join_leave :: "Session \<Rightarrow> nat \<Rightarrow> Session" where
  "Join_leave s pid = s\<lparr>s_players := (s_players s)(pid := None)\<rparr>"

definition Session_Close :: "Session \<Rightarrow> Session" where
  "Session_Close s =
     s\<lparr>s_cancelled := True, s_players := (\<lambda>pid. map_option (\<lambda>p. p\<lparr>p_done := True\<rparr>) (s_players s pid)),
       s_wal := fst (wal_Close (s_wal s))\<rparr>"

section \<open>Goroutines\<close>

definition nop_packet :: Packet where
  "nop_packet = \<lparr>pkt_Op = OpNOP, pkt_Data = []\<rparr>"

text \<open>
  The steps of the goroutines of one player that touch only the player: \<^verbatim>\<open>handleMsgIn\<close> (\<open>in_\<close>),
  the end and the pending \<^verbatim>\<open>Send\<close> of \<^verbatim>\<open>handlePackets\<close> (\<open>hp_\<close>), \<^verbatim>\<open>handleWalStream\<close> (\<open>ws_\<close>) and
  \<^verbatim>\<open>handleMsgOut\<close> (\<open>out_\<close>); \<open>p_done\<close> is the player's context, which each of them cancels when it
  returns.
\<close>

abbreviation Player_Send :: "PlayerRun \<Rightarrow> select_pick \<Rightarrow> Packet \<Rightarrow> (Packet chan \<times> bool) option" where
  "Player_Send p pick pkt \<equiv> select_send (p_done p) pick pkt (p_out p)"

inductive player_step :: "WAL \<Rightarrow> PlayerRun \<Rightarrow> PlayerRun \<Rightarrow> bool" for w where
  in_loop: "pr_inPc p = InLoop \<Longrightarrow>
    player_step w p (p\<lparr>pr_inPc := (if p_done p then InEnd else InRecv)\<rparr>)"
| in_recv: "pr_inPc p = InRecv \<Longrightarrow> pr_rx p = pkt # rest \<Longrightarrow>
    player_step w p (p\<lparr>pr_rx := rest, pr_inPc := InPut pkt\<rparr>)"
| in_fail: "pr_inPc p = InRecv \<Longrightarrow> player_step w p (p\<lparr>pr_inPc := InEnd, p_done := True\<rparr>)"
| in_put: "pr_inPc p = InPut pkt \<Longrightarrow> select_send (p_done p) pick pkt (p_in p) = Some (c, sent) \<Longrightarrow>
    player_step w p (p\<lparr>p_in := c, pr_inPc := (if sent then InLoop else InEnd)\<rparr>)"
| hp_loop: "pr_hpPc p = HpLoop \<Longrightarrow>
    player_step w p (p\<lparr>pr_hpPc := (if p_done p then HpEnd else HpWait)\<rparr>)"
| hp_stop: "pr_hpPc p = HpWait \<Longrightarrow> p_done p \<Longrightarrow> player_step w p (p\<lparr>pr_hpPc := HpEnd\<rparr>)"
| hp_send: "pr_hpPc p = HpSend pkt \<Longrightarrow> Player_Send p pick pkt = Some (c, sent) \<Longrightarrow>
    player_step w p (p\<lparr>p_out := c, pr_hpPc := HpLoop\<rparr>)"
| ws_loop: "pr_wsPc p = WsLoop \<Longrightarrow>
    player_step w p (p\<lparr>pr_wsPc := (if p_done p then WsEnd else WsNext)\<rparr>)"
| ws_entry: "pr_wsPc p = WsNext \<Longrightarrow> next_entry w (pr_stream p) = Some (Some (e, i, st)) \<Longrightarrow>
    stream_body (p\<lparr>pr_stream := st\<rparr>) e i = (p', Inr r) \<Longrightarrow>
    player_step w p (p'\<lparr>pr_wsPc := (case r of None \<Rightarrow> WsLoop | Some pkt \<Rightarrow> WsSend pkt)\<rparr>)"
| ws_fail: "pr_wsPc p = WsNext \<Longrightarrow> next_entry w (pr_stream p) = Some (Some (e, i, st)) \<Longrightarrow>
    stream_body (p\<lparr>pr_stream := st\<rparr>) e i = (p', Inl err) \<Longrightarrow>
    player_step w p (p'\<lparr>pr_wsPc := WsEnd, p_done := True\<rparr>)"
| ws_stop: "pr_wsPc p = WsNext \<Longrightarrow> p_done p \<or> wal_done w \<Longrightarrow>
    player_step w p (p\<lparr>pr_wsPc := WsEnd, p_done := True\<rparr>)"
| ws_send: "pr_wsPc p = WsSend pkt \<Longrightarrow> Player_Send p pick pkt = Some (c, sent) \<Longrightarrow>
    player_step w p (p\<lparr>p_out := c, pr_wsPc := WsLoop\<rparr>)"
| out_take: "pr_outPc p = OutWait \<Longrightarrow> chan_recv (p_out p) = Some (pkt, c) \<Longrightarrow>
    player_step w p (p\<lparr>p_out := c, pr_outPc := OutWrite pkt\<rparr>)"
| out_nop: "pr_outPc p = OutWait \<Longrightarrow> player_step w p (p\<lparr>pr_outPc := OutWrite nop_packet\<rparr>)"
| out_stop: "pr_outPc p = OutWait \<Longrightarrow> p_done p \<Longrightarrow> player_step w p (p\<lparr>pr_outPc := OutEnd\<rparr>)"
| out_write: "pr_outPc p = OutWrite pkt \<Longrightarrow> SendRaw r pkt = (bs, None) \<Longrightarrow>
    player_step w p (p\<lparr>pr_outPc := OutWait, pr_sent := pr_sent p @ [pkt]\<rparr>)"
| out_fail: "pr_outPc p = OutWrite pkt \<Longrightarrow> SendRaw r pkt = (bs, Some err) \<Longrightarrow>
    player_step w p (p\<lparr>pr_outPc := OutEnd, p_done := True\<rparr>)"

text \<open>What \<^verbatim>\<open>handlePackets\<close> does with the result of \<^verbatim>\<open>handlePacket\<close>.\<close>

definition after_packet :: "Session \<Rightarrow> nat \<Rightarrow> Packet option result \<Rightarrow> Session" where
  "after_packet s pid r =
     upd_player s pid (case r of
         Inl err \<Rightarrow> (\<lambda>p. p\<lparr>pr_hpPc := HpEnd, p_done := True\<rparr>)
       | Inr None \<Rightarrow> (\<lambda>p. p\<lparr>pr_hpPc := HpLoop\<rparr>)
       | Inr (Some pkt) \<Rightarrow> (\<lambda>p. p\<lparr>pr_hpPc := HpSend pkt\<rparr>))"

text \<open>
  The steps inside a session: a goroutine of a player, a packet handled, a packet arriving from
  the peer, the hello, and a player leaving.
\<close>

inductive session_step :: "Session \<Rightarrow> Session \<Rightarrow> bool" where
  local: "s_players s pid = Some p \<Longrightarrow> pr_started p \<Longrightarrow> player_step (s_wal s) p p' \<Longrightarrow>
    session_step s (s\<lparr>s_players := (s_players s)(pid \<mapsto> p')\<rparr>)"
| packet: "s_players s pid = Some p \<Longrightarrow> pr_started p \<Longrightarrow> pr_hpPc p = HpWait \<Longrightarrow>
    chan_recv (p_in p) = Some (pkt, c) \<Longrightarrow>
    handlePacket env (s\<lparr>s_players := (s_players s)(pid \<mapsto> p\<lparr>p_in := c\<rparr>)\<rparr>) pid pkt = Some (s', r) \<Longrightarrow>
    session_step s (after_packet s' pid r)"
| arrive: "s_players s pid = Some p \<Longrightarrow>
    session_step s (s\<lparr>s_players := (s_players s)(pid \<mapsto> p\<lparr>pr_rx := pr_rx p @ [pkt]\<rparr>)\<rparr>)"
| hello: "s_players s pid = Some p \<Longrightarrow> \<not> pr_started p \<Longrightarrow> session_step s (Join_hello out s pid)"
| leave: "s_players s pid = Some p \<Longrightarrow> pr_started p \<Longrightarrow> p_done p \<Longrightarrow> pr_inPc p = InEnd \<Longrightarrow>
    pr_hpPc p = HpEnd \<Longrightarrow> pr_wsPc p = WsEnd \<Longrightarrow> pr_outPc p = OutEnd \<Longrightarrow>
    session_step s (Join_leave s pid)"

text \<open>The life of a session: it runs, players enter, and it may be closed.\<close>

inductive session_reach :: "Session \<Rightarrow> Session \<Rightarrow> bool" for s where
  start: "session_reach s s"
| step: "session_reach s t \<Longrightarrow> session_step t u \<Longrightarrow> session_reach s u"
| enter: "session_reach s t \<Longrightarrow> s_players t pid = None \<Longrightarrow>
    session_reach s (Join_enter t pid PlayerID PlayerName worldID walIndex)"
| close: "session_reach s t \<Longrightarrow> session_reach s (Session_Close t)"

section \<open>Invariants\<close>

definition is_wal :: "Packet \<Rightarrow> bool" where
  "is_wal pkt \<longleftrightarrow> pkt_Op pkt = OpWal"

definition wal_packet :: "u32 \<Rightarrow> WalEntry \<Rightarrow> Packet" where
  "wal_packet i e = \<lparr>pkt_Op = OpWal, pkt_Data = server_wal_bytes \<lparr>sw_Index = i, sw_Entry = e\<rparr>\<rparr>"

text \<open>The \<open>n\<close> entries of a log from index \<open>i\<close> on, as they go over the wire.\<close>

definition wal_packets :: "WalEntry list \<Rightarrow> u32 \<Rightarrow> nat \<Rightarrow> Packet list" where
  "wal_packets es i n = map (\<lambda>k. wal_packet (i + of_nat k) (es ! (unat i + k))) [0..<n]"

definition writing :: "PlayerRun \<Rightarrow> Packet list" where
  "writing p = (case pr_outPc p of OutWrite pkt \<Rightarrow> [pkt] | _ \<Rightarrow> [])"

definition hp_pending :: "PlayerRun \<Rightarrow> Packet list" where
  "hp_pending p = (case pr_hpPc p of HpSend pkt \<Rightarrow> [pkt] | _ \<Rightarrow> [])"

definition ws_pending :: "PlayerRun \<Rightarrow> Packet list" where
  "ws_pending p = (case pr_wsPc p of WsSend pkt \<Rightarrow> [pkt] | _ \<Rightarrow> [])"

text \<open>Everything on its way to the player, and the part of it that will still be written.\<close>

definition outgoing :: "PlayerRun \<Rightarrow> Packet set" where
  "outgoing p = set (pr_sent p) \<union> set (writing p) \<union> set (ch_buf (p_out p)) \<union> set (hp_pending p) \<union>
     set (ws_pending p)"

definition pipe :: "PlayerRun \<Rightarrow> Packet list" where
  "pipe p = pr_sent p @ (if pr_outPc p = OutEnd then [] else writing p @ ch_buf (p_out p) @ ws_pending p)"

text \<open>An acknowledgement carries the key of a stored entry.\<close>

definition ack_ok :: "WalEntry list \<Rightarrow> Packet \<Rightarrow> bool" where
  "ack_ok es pkt \<longleftrightarrow> (pkt_Op pkt = OpWalAck \<longrightarrow> pkt_Data pkt \<in> entry_key ` set es)"

definition acks_inv :: "WalEntry list \<Rightarrow> PlayerRun \<Rightarrow> bool" where
  "acks_inv es p \<longleftrightarrow> (\<forall>pkt\<in>outgoing p. ack_ok es pkt) \<and> (\<forall>pkt\<in>set (hp_pending p). \<not> is_wal pkt)"

definition ws_live :: "PlayerRun \<Rightarrow> bool" where
  "ws_live p \<longleftrightarrow> pr_wsPc p \<noteq> WsEnd \<and> (pr_wsPc p = WsLoop \<longrightarrow> \<not> p_done p)"

definition stream_at :: "WalEntry list \<Rightarrow> PlayerRun \<Rightarrow> nat \<Rightarrow> bool" where
  "stream_at es p n \<longleftrightarrow> (n \<noteq> 0 \<longrightarrow> unat (pr_start p) + n \<le> length es) \<and>
     filter is_wal (pipe p) = wal_packets es (pr_start p) n \<and>
     (pr_outPc p \<noteq> OutEnd \<and> ws_live p \<longrightarrow>
       p_WalIndex p = pr_start p + of_nat n \<and> stream_index (pr_stream p) = p_WalIndex p)"

definition stream_inv :: "WalEntry list \<Rightarrow> PlayerRun \<Rightarrow> bool" where
  "stream_inv es p \<longleftrightarrow> (\<exists>n. stream_at es p n)"

text \<open>The invariant of one player under the log \<open>es\<close>.\<close>

definition player_inv :: "WalEntry list \<Rightarrow> PlayerRun \<Rightarrow> bool" where
  "player_inv es p \<longleftrightarrow> acks_inv es p \<and> (length es < 2 ^ 32 \<longrightarrow> stream_inv es p)"

definition session_inv :: "Session \<Rightarrow> bool" where
  "session_inv s \<longleftrightarrow> wal_mem_inv (s_wal s) \<and> (\<forall>pid p. s_players s pid = Some p \<longrightarrow> player_inv (wal_entries (s_wal s)) p)"

lemmas pending_defs = writing_def hp_pending_def ws_pending_def

section \<open>Lemmas on the stream of packets\<close>

lemma ops_distinct [simp]: "OpNOP \<noteq> OpWal" "OpNOP \<noteq> OpWalAck" "OpPosition \<noteq> OpWal" "OpPosition \<noteq> OpWalAck"
    "OpWalAck \<noteq> OpWal" "OpWal \<noteq> OpWalAck" "OpHello \<noteq> OpWal" "OpHello \<noteq> OpWalAck"
    "OpWal \<noteq> OpNOP" "OpPosition \<noteq> OpNOP" "OpWalAck \<noteq> OpNOP" "OpHello \<noteq> OpNOP"
    "OpWal \<noteq> OpPosition" "OpWalAck \<noteq> OpPosition"
  by (simp_all add: OpNOP_def OpWal_def OpWalAck_def OpPosition_def OpHello_def)

lemma wal_packets_Suc:
  "wal_packets es i (Suc n) = wal_packets es i n @ [wal_packet (i + of_nat n) (es ! (unat i + n))]"
  by (simp add: wal_packets_def)

lemma length_wal_packets [simp]: "length (wal_packets es i n) = n"
  by (simp add: wal_packets_def)

lemma take_wal_packets: "m \<le> n \<Longrightarrow> take m (wal_packets es i n) = wal_packets es i m"
  by (simp add: wal_packets_def take_map take_upt)

lemma wal_packets_mono:
  assumes "prefix es es'" "n \<noteq> 0 \<longrightarrow> unat i + n \<le> length es"
  shows "wal_packets es' i n = wal_packets es i n"
  using assms by (auto simp: wal_packets_def prefix_def nth_append)

text \<open>What is left of the stream when packets at the end are dropped.\<close>

lemma stream_shrink:
  assumes "filter is_wal (xs @ ys) = wal_packets es i n"
  obtains m where "m \<le> n" "filter is_wal xs = wal_packets es i m"
proof
  let ?m = "length (filter is_wal xs)"
  show "?m \<le> n" using arg_cong [OF assms, of length] by simp
  with assms show "filter is_wal xs = wal_packets es i ?m"
    by (metis append_eq_conv_conj filter_append take_wal_packets)
qed

lemma wal_packet_is_wal [simp]: "is_wal (wal_packet i e)"
  by (simp add: wal_packet_def is_wal_def)

lemma stream_body_packet:
  assumes "wf_entry e" "stream_body p e i = (p', r)"
  shows "\<not> i < p_WalIndex p \<Longrightarrow> p' = p\<lparr>p_WalIndex := i + 1\<rparr> \<and> r = Inr (Some (wal_packet i e))"
    and "i < p_WalIndex p \<Longrightarrow> p' = p \<and> r = Inr None"
  using assms by (auto simp: stream_body_def wal_packet_def ServerWal_bytes server_wal_bytes_def wf_ServerWal_def)

lemma next_entry_Get:
  assumes "wal_mem_inv w" "length (wal_entries w) < 2 ^ 32" "next_entry w st = Some (Some (e, i, st'))"
  shows "i = stream_index st" "st' = \<lparr>stream_index = i + 1\<rparr>" "unat i < length (wal_entries w)"
    "e = wal_entries w ! unat i" "wf_entry e"
  using assms by (auto simp: next_entry_def Get_spec wal_mem_inv_def split: if_splits)

text \<open>\<^const>\<open>next_entry\<close> is the step of \<^verbatim>\<open>Next\<close> that finds its entry.\<close>

lemma next_entry_step:
  assumes "ss_pc s = AtGet ch" "next_entry (ss_wal s) (ss_stream s) = Some (Some (e, i, st))"
  shows "next_step s (s\<lparr>ss_pc := AtReturn (NextOk e i), ss_stream := st, ss_out := ss_out s @ [(e, i)]\<rparr>)"
  using assms next_step.get_hit [of s ch e] by (auto simp: next_entry_def)

section \<open>The goroutines of a player keep the invariants\<close>

lemma stream_body_frame:
  assumes "stream_body p e i = (p', r)"
  shows "p' = p \<or> p' = p\<lparr>p_WalIndex := i + 1\<rparr>" "r = Inr (Some pkt) \<Longrightarrow> pkt_Op pkt = OpWal"
  using assms by (auto simp: stream_body_def Let_def split: if_splits sum.splits)

lemma player_acks:
  assumes "player_step w p p'" "acks_inv es p"
  shows "acks_inv es p'"
  using assms
proof cases
  case (in_put pkt pick c sent)
  then show ?thesis using assms(2) by (simp add: acks_inv_def outgoing_def pending_defs)
next
  case (hp_send pkt pick c sent)
  from hp_send(3) have "set (ch_buf c) \<subseteq> insert pkt (set (ch_buf (p_out p)))"
    by (cases rule: select_send_cases) auto
  with hp_send assms(2) show ?thesis by (auto simp: acks_inv_def outgoing_def pending_defs)
next
  case (ws_entry e i st p'' r)
  have r: "case r of None \<Rightarrow> True | Some pkt \<Rightarrow> pkt_Op pkt = OpWal"
    using stream_body_frame(2) [OF ws_entry(4)] by (cases r) auto
  from stream_body_frame(1) [OF ws_entry(4)] ws_entry r assms(2) show ?thesis
    by (auto simp: acks_inv_def outgoing_def pending_defs ack_ok_def split: option.splits)
next
  case (ws_fail e i st p'' err)
  from stream_body_frame(1) [OF ws_fail(4)] ws_fail assms(2) show ?thesis
    by (auto simp: acks_inv_def outgoing_def pending_defs)
next
  case (ws_send pkt pick c sent)
  from ws_send(3) have "set (ch_buf c) \<subseteq> insert pkt (set (ch_buf (p_out p)))"
    by (cases rule: select_send_cases) auto
  with ws_send assms(2) show ?thesis by (auto simp: acks_inv_def outgoing_def pending_defs)
next
  case (out_take pkt c)
  with chan.recv_items [OF out_take(3)] assms(2) show ?thesis
    by (auto simp: acks_inv_def outgoing_def pending_defs)
next
  case out_nop
  with assms(2) show ?thesis by (auto simp: acks_inv_def outgoing_def pending_defs nop_packet_def ack_ok_def)
qed (auto simp: acks_inv_def outgoing_def pending_defs)

lemma stream_inv_shrink:
  assumes "stream_at es p n" "pipe p = pipe p' @ ys" "pr_start p' = pr_start p"
    and "pr_outPc p' = OutEnd \<or> \<not> ws_live p'"
  shows "stream_inv es p'"
proof -
  from assms(1,2) obtain m where "m \<le> n" "filter is_wal (pipe p') = wal_packets es (pr_start p) m"
    unfolding stream_at_def by (metis stream_shrink)
  with assms show ?thesis by (auto simp: stream_inv_def stream_at_def intro!: exI [of _ m])
qed

lemma stream_inv_same:
  assumes "stream_inv es p" "filter is_wal (pipe p') = filter is_wal (pipe p)" "pr_start p' = pr_start p"
    and "pr_outPc p' \<noteq> OutEnd \<and> ws_live p' \<Longrightarrow> pr_outPc p \<noteq> OutEnd \<and> ws_live p \<and>
      p_WalIndex p' = p_WalIndex p \<and> pr_stream p' = pr_stream p"
  shows "stream_inv es p'"
  using assms unfolding stream_inv_def stream_at_def by auto

lemma stream_inv_entry:
  assumes w: "wal_mem_inv w" "length (wal_entries w) < 2 ^ 32"
    and inv: "stream_inv (wal_entries w) p" and pc: "pr_wsPc p = WsNext"
    and entry: "next_entry w (pr_stream p) = Some (Some (e, i, st))"
    and body: "stream_body (p\<lparr>pr_stream := st\<rparr>) e i = (p', Inr r)"
  shows "stream_inv (wal_entries w) (p'\<lparr>pr_wsPc := (case r of None \<Rightarrow> WsLoop | Some pkt \<Rightarrow> WsSend pkt)\<rparr>)"
    (is "stream_inv _ ?p")
proof (cases "pr_outPc p = OutEnd")
  case True
  with stream_body_frame(1) [OF body] have "pipe ?p = pipe p" "pr_start ?p = pr_start p" "pr_outPc ?p = OutEnd"
    by (auto simp: pipe_def split: option.splits)
  with inv show ?thesis by (auto intro: stream_inv_same)
next
  case False
  note g = next_entry_Get [OF w entry]
  from inv obtain n where n: "stream_at (wal_entries w) p n" by (auto simp: stream_inv_def)
  with False pc have idx: "p_WalIndex p = pr_start p + of_nat n" "stream_index (pr_stream p) = p_WalIndex p"
    by (simp_all add: stream_at_def ws_live_def)
  with g(1) have i: "i = pr_start p + of_nat n" by simp
  from stream_body_packet(1) [OF g(5) body] i idx
  have p': "p' = p\<lparr>pr_stream := st, p_WalIndex := i + 1\<rparr>" "r = Some (wal_packet i e)" by simp_all
  have "unat i = unat (pr_start p) + n"
    using n w(2) i unat_plus_of_nat [of "pr_start p" n]
    by (cases "n = 0") (auto simp: stream_at_def)
  moreover from n False pc have "filter is_wal (pipe ?p) = wal_packets (wal_entries w) (pr_start p) n @ [wal_packet i e]"
    by (simp add: p' stream_at_def pipe_def pending_defs)
  ultimately have "stream_at (wal_entries w) ?p (Suc n)"
    using g i n by (simp add: stream_at_def p' wal_packets_Suc)
  then show ?thesis by (auto simp: stream_inv_def)
qed

lemmas pipe_simps = pipe_def ws_live_def pending_defs

lemma player_stream:
  assumes w: "wal_mem_inv w" "length (wal_entries w) < 2 ^ 32"
    and acks: "acks_inv (wal_entries w) p" and inv: "stream_inv (wal_entries w) p"
    and step: "player_step w p p'"
  shows "stream_inv (wal_entries w) p'"
  using step
proof cases
  case (hp_send pkt pick c sent)
  have "\<not> is_wal pkt" using acks hp_send by (simp add: acks_inv_def pending_defs)
  with hp_send(3) have "filter is_wal (ch_buf c) = filter is_wal (ch_buf (p_out p))"
    by (cases rule: select_send_cases) auto
  with hp_send show ?thesis by (intro stream_inv_same [OF inv]) (auto simp: pipe_simps)
next
  case (ws_entry e i st p'' r)
  show ?thesis unfolding ws_entry(1) by (rule stream_inv_entry [OF w inv ws_entry(2-4)])
next
  case (ws_fail e i st p'' err)
  with stream_body_frame(1) [OF ws_fail(4)] show ?thesis
    by (intro stream_inv_same [OF inv]) (auto simp: pipe_simps)
next
  case (ws_send pkt pick c sent)
  from ws_send(3) show ?thesis
  proof (cases rule: select_send_cases)
    case sent
    with ws_send show ?thesis by (intro stream_inv_same [OF inv]) (auto simp: pipe_simps)
  next
    case dropped
    from inv obtain n where n: "stream_at (wal_entries w) p n" by (auto simp: stream_inv_def)
    show ?thesis
      by (rule stream_inv_shrink [OF n, of _ "if pr_outPc p = OutEnd then [] else [pkt]"])
        (use dropped ws_send in \<open>auto simp: pipe_simps\<close>)
  qed
next
  case (out_take pkt c)
  with chan.recv_items [OF out_take(3)] show ?thesis
    by (intro stream_inv_same [OF inv]) (auto simp: pipe_simps)
next
  case out_nop
  then show ?thesis
    by (intro stream_inv_same [OF inv]) (auto simp: pipe_simps nop_packet_def is_wal_def)
next
  case out_stop
  from inv obtain n where n: "stream_at (wal_entries w) p n" by (auto simp: stream_inv_def)
  show ?thesis
    by (rule stream_inv_shrink [OF n, of _ "ch_buf (p_out p) @ ws_pending p"]) (use out_stop in \<open>auto simp: pipe_simps\<close>)
next
  case (out_fail pkt r bs err)
  from inv obtain n where n: "stream_at (wal_entries w) p n" by (auto simp: stream_inv_def)
  show ?thesis
    by (rule stream_inv_shrink [OF n, of _ "pkt # ch_buf (p_out p) @ ws_pending p"]) (use out_fail in \<open>auto simp: pipe_simps\<close>)
qed (rule stream_inv_same [OF inv]; auto simp: pipe_simps split: if_splits)+

section \<open>A session keeps the invariants\<close>

lemma acks_inv_mono: "acks_inv es p \<Longrightarrow> set es \<subseteq> set es' \<Longrightarrow> acks_inv es' p"
  unfolding acks_inv_def ack_ok_def by blast

lemma stream_inv_mono: "stream_inv es p \<Longrightarrow> prefix es es' \<Longrightarrow> stream_inv es' p"
proof -
  assume "stream_inv es p" "prefix es es'"
  then obtain n where n: "stream_at es p n" by (auto simp: stream_inv_def)
  then have "wal_packets es' (pr_start p) n = wal_packets es (pr_start p) n"
    using wal_packets_mono [OF \<open>prefix es es'\<close>] by (simp add: stream_at_def)
  with n have "stream_at es' p n"
    using prefix_length_le [OF \<open>prefix es es'\<close>] by (auto simp: stream_at_def)
  then show ?thesis by (auto simp: stream_inv_def)
qed

lemma player_inv_mono:
  assumes "player_inv es p" "prefix es es'"
  shows "player_inv es' p"
proof -
  have "acks_inv es' p" using assms acks_inv_mono set_mono_prefix unfolding player_inv_def by blast
  moreover have "stream_inv es' p" if "length es' < 2 ^ 32"
    using assms that stream_inv_mono prefix_length_le [OF assms(2)] by (auto simp: player_inv_def)
  ultimately show ?thesis by (simp add: player_inv_def)
qed

lemma player_inv_step:
  "wal_mem_inv w \<Longrightarrow> player_inv (wal_entries w) p \<Longrightarrow> player_step w p p' \<Longrightarrow> player_inv (wal_entries w) p'"
  unfolding player_inv_def using player_acks player_stream by blast

text \<open>The changes other goroutines make to a player.\<close>

lemma player_inv_frame:
  assumes "player_inv es p"
  shows "player_inv es (p\<lparr>p_in := c\<rparr>)" "player_inv es (p\<lparr>pr_rx := rx\<rparr>)"
    "player_inv es (p\<lparr>p_LastPosTime := t\<rparr>)" "player_inv es (p\<lparr>p_done := True\<rparr>)"
    "player_inv es (p\<lparr>pr_hpPc := HpLoop\<rparr>)" "player_inv es (p\<lparr>pr_hpPc := HpEnd, p_done := True\<rparr>)"
  using assms unfolding player_inv_def
  by (auto simp: acks_inv_def outgoing_def pending_defs elim!: stream_inv_same simp: pipe_simps split: ws_pc.splits)

lemma player_inv_position:
  assumes "player_inv es p" "pkt_Op pkt = OpPosition"
  shows "player_inv es (p\<lparr>p_out := try_send d pick pkt (p_out p)\<rparr>)"
proof -
  let ?c = "try_send d pick pkt (p_out p)"
  have "set (ch_buf ?c) \<subseteq> insert pkt (set (ch_buf (p_out p)))"
    "filter is_wal (ch_buf ?c) = filter is_wal (ch_buf (p_out p))"
    using try_send_buf [of d pick pkt "p_out p"] assms(2) by (auto simp: is_wal_def)
  with assms show ?thesis unfolding player_inv_def
    by (auto simp: acks_inv_def outgoing_def pending_defs ack_ok_def elim!: stream_inv_same simp: pipe_simps)
qed

lemma player_inv_ack:
  assumes "player_inv es p" "pr_hpPc p = HpWait" "key \<in> entry_key ` set es"
  shows "player_inv es (p\<lparr>pr_hpPc := HpSend \<lparr>pkt_Op = OpWalAck, pkt_Data = key\<rparr>\<rparr>)"
  using assms unfolding player_inv_def
  by (auto simp: acks_inv_def outgoing_def pending_defs ack_ok_def is_wal_def elim!: stream_inv_same simp: pipe_simps)

lemma handlePositionUpdate_frame:
  "s_wal (handlePositionUpdate env s pid pos) = s_wal s"
  "s_players (handlePositionUpdate env s pid pos) pid =
     map_option (\<lambda>p. if event_due (he_since env) (p_LastPosTime p) then p\<lparr>p_LastPosTime := Some (he_now env)\<rparr> else p)
       (s_players s pid)"
  "s_players s pid = Some p \<Longrightarrow> q \<noteq> pid \<Longrightarrow> s_players (handlePositionUpdate env s pid pos) q =
     map_option (\<lambda>q'. q'\<lparr>p_out := try_send (p_done q') (he_picks env q) \<lparr>pkt_Op = OpPosition, pkt_Data = ServerPosition_Serialize
       \<lparr>sp_ID = p_ID p, sp_Name = p_Name p, sp_Key = cp_Key pos, sp_X = cp_X pos, sp_Y = cp_Y pos, sp_Z = cp_Z pos\<rparr>\<rparr> (p_out q')\<rparr>)
       (s_players s q)"
  by (auto simp: handlePositionUpdate_def BroadcastExcept_def upd_player_def Let_def split: option.split prod.split)

text \<open>The ways \<^const>\<open>handlePacket\<close> goes; it does not panic.\<close>

lemma handlePacket_cases:
  obtains (quiet) r where "handlePacket env s pid pkt = Some (s, r)" "\<And>a. r \<noteq> Inr (Some a)"
      "\<And>e. pkt_Op pkt = OpWal \<Longrightarrow> Parse (pkt_Data pkt) \<noteq> Some (Inr e)"
  | (failed) e w err err' where "wf_entry e" "pkt_Op pkt = OpWal" "Parse (pkt_Data pkt) = Some (Inr e)"
      "Append (he_io env) (s_wal s) e = (w, Some err)"
      "handlePacket env s pid pkt = Some (s\<lparr>s_wal := w\<rparr>, Inl err')"
  | (stored) e w where "wf_entry e" "pkt_Op pkt = OpWal" "Parse (pkt_Data pkt) = Some (Inr e)"
      "Append (he_io env) (s_wal s) e = (w, None)"
      "handlePacket env s pid pkt = Some (s\<lparr>s_wal := w\<rparr>, Inr (Some \<lparr>pkt_Op = OpWalAck, pkt_Data = entry_key e\<rparr>))"
  | (position) pos where "pkt_Op pkt = OpPosition" "ParseClientPosition (pkt_Data pkt) = Some (Inr pos)"
      "handlePacket env s pid pkt = Some (handlePositionUpdate env s pid pos, Inr None)"
proof -
  consider (wal) "pkt_Op pkt = OpWal" | (pos) "pkt_Op pkt = OpPosition"
    | (other) "pkt_Op pkt \<noteq> OpWal" "pkt_Op pkt \<noteq> OpPosition" by blast
  then show ?thesis
  proof cases
    case wal
    consider err where "Parse (pkt_Data pkt) = Some (Inl err)" | e where "Parse (pkt_Data pkt) = Some (Inr e)"
      using wal_codec.parse_no_panic [of "pkt_Data pkt"] by (metis option.exhaust sum.exhaust)
    then show ?thesis
    proof cases
      case 1
      with wal show ?thesis using quiet by (simp add: handlePacket_def)
    next
      case 2
      then have e: "wf_entry e" using wal_codec.parse_Inr_iff by blast
      obtain w r where A: "Append (he_io env) (s_wal s) e = (w, r)" by fastforce
      show ?thesis
      proof (cases r)
        case None
        show ?thesis
          by (rule stored [OF e wal 2]) (use A None wal 2 e in \<open>simp_all add: handlePacket_def DedupKey_ok\<close>)
      next
        case (Some err)
        show ?thesis by (rule failed [OF e wal 2]) (use A Some wal 2 e in \<open>simp_all add: handlePacket_def\<close>)
      qed
    qed
  next
    case pos
    consider err where "ParseClientPosition (pkt_Data pkt) = Some (Inl err)"
      | q where "ParseClientPosition (pkt_Data pkt) = Some (Inr q)"
      using client_position.parse_no_panic [of "pkt_Data pkt"] by (metis option.exhaust sum.exhaust)
    then show ?thesis
    proof cases
      case 1
      with pos show ?thesis using quiet by (simp add: handlePacket_def)
    next
      case 2
      show ?thesis by (rule position [OF pos 2]) (use 2 pos in \<open>simp add: handlePacket_def\<close>)
    qed
  next
    case other
    then show ?thesis using quiet [of "Inr None"] by (simp add: handlePacket_def)
  qed
qed

text \<open>A session whose log grew, or stayed, and whose players are in order.\<close>

lemma session_invI:
  assumes "session_inv s" "wal_mem_inv (s_wal s')"
    and "\<And>pid p. s_players s' pid = Some p \<Longrightarrow> player_inv (wal_entries (s_wal s')) p"
  shows "session_inv s'"
  using assms by (simp add: session_inv_def)

lemma packet_inv:
  assumes inv: "session_inv s" and p: "s_players s pid = Some p" "pr_hpPc p = HpWait"
    and h: "handlePacket env s pid pkt = Some (s', r)"
  shows "session_inv (after_packet s' pid r)"
proof -
  have w: "wal_mem_inv (s_wal s)"
    and ps: "\<And>q p. s_players s q = Some p \<Longrightarrow> player_inv (wal_entries (s_wal s)) p"
    using inv by (auto simp: session_inv_def)
  show ?thesis
  proof (cases rule: handlePacket_cases [of env s pid pkt])
    case (quiet r')
    with h have "s' = s" "r = Inl (projl r) \<or> r = Inr None" by (auto, metis not_None_eq obj_sumE sum.sel(1))
    with w ps p show ?thesis
      by (intro session_invI [OF inv])
        (auto simp: after_packet_def upd_player_def player_inv_frame split: if_splits sum.splits option.splits)
  next
    case (failed e w' err err')
    with h wal_mem.append_inv [OF w failed(1), of "he_io env"] wal_mem.append_entries [OF w failed(1), of "he_io env"] w ps p
    show ?thesis
      by (intro session_invI [OF inv]) (auto simp: after_packet_def upd_player_def player_inv_frame split: if_splits)
  next
    case (stored e w')
    let ?es = "wal_entries (s_wal s)" and ?es' = "wal_entries w'"
    from wal_mem.append_inv [OF w stored(1), of "he_io env"] stored(4) have w': "wal_mem_inv w'" by simp
    from wal_mem.append_grows [OF w stored(1), of "he_io env"] stored(4) have pre: "prefix ?es ?es'" by simp
    from wal_mem.append_ok_stored [OF w stored(1,4)] have k: "entry_key e \<in> entry_key ` set ?es'" .
    from h stored(5) have "s' = s\<lparr>s_wal := w'\<rparr>" "r = Inr (Some \<lparr>pkt_Op = OpWalAck, pkt_Data = entry_key e\<rparr>)" by simp_all
    with w' player_inv_mono [OF ps pre] player_inv_ack [OF _ p(2) k] p show ?thesis
      by (intro session_invI [OF inv]) (auto simp: after_packet_def upd_player_def split: if_splits)
  next
    case (position pos)
    with h have r: "s' = handlePositionUpdate env s pid pos" "r = Inr None" by simp_all
    note fr = handlePositionUpdate_frame(1,2) [of env s pid pos] handlePositionUpdate_frame(3) [OF p(1), of _ env pos]
    show ?thesis
    proof (rule session_invI [OF inv])
      fix q pq assume q: "s_players (after_packet s' pid r) q = Some pq"
      show "player_inv (wal_entries (s_wal (after_packet s' pid r))) pq"
      proof (cases "q = pid")
        case True
        with q r fr p ps show ?thesis
          by (auto simp: after_packet_def upd_player_def player_inv_frame split: if_splits)
      next
        case False
        with q r fr(3) [of q] ps show ?thesis
          by (auto simp: after_packet_def upd_player_def fr(1) player_inv_position)
      qed
    qed (use w r fr in \<open>simp_all add: after_packet_def upd_player_def\<close>)
  qed
qed

lemma new_player_inv: "player_inv es (new_player c i nm wid ix)"
  by (auto simp: player_inv_def acks_inv_def outgoing_def pipe_simps new_player_def stream_inv_def stream_at_def
      wal_packets_def Subscribe_def)

lemma started_inv:
  assumes "player_inv es p"
  shows "player_inv es (p\<lparr>pr_started := True, pr_sent := pr_sent p @ [hello_packet]\<rparr>)"
  using assms unfolding player_inv_def
  by (auto simp: acks_inv_def outgoing_def pending_defs ack_ok_def hello_packet_def is_wal_def elim!: stream_inv_same
      simp: pipe_simps)

lemma wal_Close_mem_inv: "wal_mem_inv w \<Longrightarrow> wal_mem_inv (fst (wal_Close w))"
  by (simp add: wal_mem_inv_def wal_Close_image)

lemma session_step_inv:
  assumes "session_step s s'" "session_inv s"
  shows "session_inv s'"
  using assms
proof cases
  case (local pid p p')
  then show ?thesis
    using assms(2) player_inv_step [of "s_wal s" p p'] by (auto simp: session_inv_def)
next
  case (packet pid p pkt c env s1 r)
  let ?s = "s\<lparr>s_players := (s_players s)(pid \<mapsto> p\<lparr>p_in := c\<rparr>)\<rparr>"
  have "session_inv ?s" using assms(2) packet(2) by (auto simp: session_inv_def player_inv_frame)
  then show ?thesis
    unfolding packet(1) by (rule packet_inv [where p = "p\<lparr>p_in := c\<rparr>" and env = env and pkt = pkt]) (use packet in simp_all)
next
  case (hello pid p out)
  then show ?thesis using assms(2)
    by (auto simp: session_inv_def Join_hello_def upd_player_def started_inv split: prod.splits option.splits if_splits)
qed (auto simp: session_inv_def Join_leave_def player_inv_frame split: if_splits)

lemma Join_enter_inv: "session_inv s \<Longrightarrow> session_inv (Join_enter s pid i nm wid ix)"
  by (simp add: session_inv_def Join_enter_def new_player_inv)

lemma Session_Close_inv: "session_inv s \<Longrightarrow> session_inv (Session_Close s)"
  by (auto simp: session_inv_def Session_Close_def wal_Close_mem_inv wal_Close_image player_inv_frame)

lemma session_reach_inv: "session_reach s t \<Longrightarrow> session_inv s \<Longrightarrow> session_inv t"
  by (induction rule: session_reach.induct) (auto intro: session_step_inv Join_enter_inv Session_Close_inv)

lemma OpenSession_inv:
  assumes "OpenSession mkdir opened fin dir sid sec sink = Some (Inr s)"
  shows "session_inv s"
  using assms OpenWAL_mem_inv
  by (auto simp: OpenSession_def session_inv_def split: option.splits sum.splits)

lemma OpenSession_fields:
  assumes "OpenSession mkdir opened fin dir sid sec sink = Some (Inr s)"
  shows "s_ID s = sid" "s_Secret s = sec" "\<exists>w. OpenWAL opened fin = Some (Inr w) \<and> s_wal s = w"
  using assms by (auto simp: OpenSession_def split: option.splits sum.splits)

lemma opened_no_players:
  "OpenSession mkdir opened fin dir sid sec sink = Some (Inr s) \<Longrightarrow> s_players s = Map.empty"
  by (auto simp: OpenSession_def split: option.splits sum.splits)

text \<open>The run in which an idle player's entry is stored and acknowledged.\<close>

lemma reach_local:
  assumes "session_reach s0 s" "s_players s pid = Some p" "pr_started p" "player_step (s_wal s) p p'"
  shows "session_reach s0 (s\<lparr>s_players := (s_players s)(pid \<mapsto> p')\<rparr>)"
  using assms session_reach.step session_step.local by blast

lemma idle_player_gets_ack:
  assumes s: "session_reach s0 s" "s_players s pid = Some p" "pr_started p" "\<not> p_done p"
    and idle: "pr_inPc p = InLoop" "pr_hpPc p = HpLoop" "pr_outPc p = OutWait" "p_in p = make_chan 64" "p_out p = make_chan 64"
    and pkt: "pkt_Op pkt = OpWal" "pr_rx p = [pkt]" "Parse (pkt_Data pkt) = Some (Inr e)"
    and io: "Append io (s_wal s) e = (w', None)"
  shows "\<exists>s' p'. session_reach s0 s' \<and> s_wal s' = w' \<and> s_players s' pid = Some p' \<and>
    pr_sent p' = pr_sent p @ [\<lparr>pkt_Op = OpWalAck, pkt_Data = entry_key e\<rparr>]"
proof -
  let ?ack = "\<lparr>pkt_Op = OpWalAck, pkt_Data = entry_key e\<rparr>"
  have e: "wf_entry e" using pkt(3) wal_codec.parse_Inr_iff by blast
  let ?at = "\<lambda>w p. s\<lparr>s_wal := w, s_players := (s_players s)(pid \<mapsto> p)\<rparr>"
  have go: "session_reach s0 (?at w p2)" if "session_reach s0 (?at w p1)" "pr_started p1" "player_step w p1 p2" for w p1 p2
    using reach_local [OF that(1), of pid p1 p2] that(2,3) by simp
  let ?c = "(make_chan 64)\<lparr>ch_buf := [pkt]\<rparr>" and ?o = "(make_chan 64)\<lparr>ch_buf := [?ack]\<rparr>"
  let ?p1 = "p\<lparr>pr_inPc := InRecv\<rparr>"
  let ?p2 = "?p1\<lparr>pr_rx := [], pr_inPc := InPut pkt\<rparr>"
  let ?p3 = "?p2\<lparr>p_in := ?c, pr_inPc := InLoop\<rparr>"
  let ?p4 = "?p3\<lparr>pr_hpPc := HpWait\<rparr>"
  let ?p5 = "?p4\<lparr>p_in := make_chan 64, pr_hpPc := HpSend ?ack\<rparr>"
  let ?p6 = "?p5\<lparr>p_out := ?o, pr_hpPc := HpLoop\<rparr>"
  let ?p7 = "?p6\<lparr>p_out := make_chan 64, pr_outPc := OutWrite ?ack\<rparr>"
  let ?p8 = "?p7\<lparr>pr_outPc := OutWait, pr_sent := pr_sent p @ [?ack]\<rparr>"
  have "?at (s_wal s) p = s" using s(2) by (cases s) (auto simp: fun_upd_idem)
  with s(1) have "session_reach s0 (?at (s_wal s) p)" by simp
  then have "session_reach s0 (?at (s_wal s) ?p1)"
    by (rule go) (use s idle player_step.in_loop [of p "s_wal s"] in simp_all)
  then have "session_reach s0 (?at (s_wal s) ?p2)"
    by (rule go) (use s idle pkt player_step.in_recv [of ?p1 pkt "[]" "s_wal s"] in \<open>simp_all add: fun_upd_def\<close>)
  then have "session_reach s0 (?at (s_wal s) ?p3)"
    by (rule go) (use s idle player_step.in_put [of ?p2 pkt PickComm ?c True "s_wal s"] in
      \<open>simp_all add: select_send_def chan_send_def make_chan_def\<close>)
  then have 4: "session_reach s0 (?at (s_wal s) ?p4)"
    by (rule go) (use s idle player_step.hp_loop [of ?p3 "s_wal s"] in simp_all)
  let ?env = "\<lparr>he_io = io, he_picks = \<lambda>_. PickComm, he_pick = PickComm, he_since = 0, he_now = 0\<rparr>"
  have "handlePacket ?env (?at (s_wal s) (?p4\<lparr>p_in := make_chan 64\<rparr>)) pid pkt =
      Some (?at w' (?p4\<lparr>p_in := make_chan 64\<rparr>), Inr (Some ?ack))"
    using pkt io e by (simp add: handlePacket_def DedupKey_ok)
  then have "session_step (?at (s_wal s) ?p4) (after_packet (?at w' (?p4\<lparr>p_in := make_chan 64\<rparr>)) pid (Inr (Some ?ack)))"
    using s by (intro session_step.packet [where p = ?p4 and c = "make_chan 64" and env = ?env])
      (simp_all add: chan_recv_def make_chan_def)
  with 4 have "session_reach s0 (?at w' ?p5)"
    by (auto simp: after_packet_def upd_player_def dest: session_reach.step)
  then have "session_reach s0 (?at w' ?p6)"
    by (rule go) (use s idle player_step.hp_send [of ?p5 ?ack PickComm ?o True w'] in
      \<open>simp_all add: select_send_def chan_send_def make_chan_def\<close>)
  then have 7: "session_reach s0 (?at w' ?p7)"
    by (rule go) (use s idle player_step.out_take [of ?p6 ?ack "make_chan 64" w'] in \<open>simp_all add: chan_recv_def make_chan_def\<close>)
  obtain bs where bs: "SendRaw WrOk ?ack = (bs, None)" using e by (simp add: SendRaw_def Let_def length_entry_key)
  from 7 have "session_reach s0 (?at w' ?p8)"
    by (rule go) (use s player_step.out_write [of ?p7 ?ack WrOk bs w'] bs in simp_all)
  then show ?thesis by (intro exI [of _ "?at w' ?p8"] exI [of _ ?p8]) simp
qed

text \<open>The run in which a player that waits for the log is sent the next entry.\<close>

lemma idle_player_gets_entry:
  assumes s: "session_reach s0 s" "s_players s pid = Some p" "pr_started p" "\<not> p_done p"
    and idle: "pr_wsPc p = WsLoop" "pr_outPc p = OutWait" "p_out p = make_chan 64"
      "stream_index (pr_stream p) = p_WalIndex p"
    and w: "wal_mem_inv (s_wal s)" "length (wal_entries (s_wal s)) < 2 ^ 32" "unat (p_WalIndex p) < length (wal_entries (s_wal s))"
  shows "\<exists>s' p'. session_reach s0 s' \<and> s_wal s' = s_wal s \<and> s_players s' pid = Some p' \<and> pr_start p' = pr_start p \<and>
    pr_sent p' = pr_sent p @ [wal_packet (p_WalIndex p) (wal_entries (s_wal s) ! unat (p_WalIndex p))]"
proof -
  let ?i = "p_WalIndex p" let ?e = "wal_entries (s_wal s) ! unat ?i" let ?pkt = "wal_packet ?i ?e"
  let ?at = "\<lambda>p. s\<lparr>s_players := (s_players s)(pid \<mapsto> p)\<rparr>"
  have go: "session_reach s0 (?at p2)" if "session_reach s0 (?at p1)" "pr_started p1" "player_step (s_wal s) p1 p2" for p1 p2
    using reach_local [OF that(1), of pid p1 p2] that(2,3) by simp
  have e: "wf_entry ?e" using w by (simp add: wal_mem_inv_def)
  have "length (entry_bytes ?e) \<le> 100" using e by (simp add: length_entry_bytes)
  then obtain bs where bs: "SendRaw WrOk ?pkt = (bs, None)"
    by (simp add: SendRaw_def Let_def wal_packet_def server_wal_bytes_def le32.length_put)
  let ?st = "\<lparr>stream_index = ?i + 1\<rparr>" and ?o = "(make_chan 64)\<lparr>ch_buf := [?pkt]\<rparr>"
  let ?p1 = "p\<lparr>pr_wsPc := WsNext\<rparr>"
  let ?b = "?p1\<lparr>pr_stream := ?st, p_WalIndex := ?i + 1\<rparr>" let ?p2 = "?b\<lparr>pr_wsPc := WsSend ?pkt\<rparr>"
  let ?p3 = "?p2\<lparr>p_out := ?o, pr_wsPc := WsLoop\<rparr>"
  let ?p4 = "?p3\<lparr>p_out := make_chan 64, pr_outPc := OutWrite ?pkt\<rparr>"
  let ?p5 = "?p4\<lparr>pr_outPc := OutWait, pr_sent := pr_sent p @ [?pkt]\<rparr>"
  have "?at p = s" using s(2) by (cases s) (auto simp: fun_upd_idem)
  with s(1) have "session_reach s0 (?at p)" by simp
  then have 1: "session_reach s0 (?at ?p1)"
    by (rule go) (use s idle player_step.ws_loop [of p "s_wal s"] in simp_all)
  have ne: "next_entry (s_wal s) (pr_stream ?p1) = Some (Some (?e, ?i, ?st))"
    using w idle by (simp add: next_entry_def Get_spec)
  have sb: "stream_body (?p1\<lparr>pr_stream := ?st\<rparr>) ?e ?i = (?b, Inr (Some ?pkt))"
    using e by (simp add: stream_body_def wal_packet_def ServerWal_bytes server_wal_bytes_def wf_ServerWal_def)
  have "player_step (s_wal s) ?p1 ?p2"
    using player_step.ws_entry [OF _ ne sb] by simp
  with 1 have "session_reach s0 (?at ?p2)" by (intro go [OF 1]) (use s in simp_all)
  then have "session_reach s0 (?at ?p3)"
    by (rule go) (use s idle player_step.ws_send [of ?p2 ?pkt PickComm ?o True "s_wal s"] in
      \<open>simp_all add: select_send_def chan_send_def make_chan_def\<close>)
  then have "session_reach s0 (?at ?p4)"
    by (rule go) (use s idle player_step.out_take [of ?p3 ?pkt "make_chan 64" "s_wal s"] in \<open>simp_all add: chan_recv_def make_chan_def\<close>)
  then have "session_reach s0 (?at ?p5)"
    by (rule go) (use s player_step.out_write [of ?p4 ?pkt WrOk bs "s_wal s"] bs in simp_all)
  then show ?thesis by (intro exI [of _ "?at ?p5"] exI [of _ ?p5]) simp
qed

section \<open>A session for examples\<close>

definition example_session :: "WalEntry list \<Rightarrow> Session" where
  "example_session es = \<lparr>s_ID = replicate 16 7, s_Secret = replicate 8 9,
     s_DataDir = ''d/sessions/07/'' @ EncodeToString (replicate 15 7),
     s_cancelled = False, s_players = Map.empty, s_wal = reopened es, s_sink = SinkNull\<rparr>"

lemma open_example:
  assumes "\<forall>e\<in>set es. wf_entry e"
  shows "OpenSession None (Inr (concat (map wal_record es))) EOF ''d'' (replicate 16 7) (replicate 8 9) SinkNull =
    Some (Inr (example_session es))"
proof -
  have "hex_byte 7 = ''07''" by code_simp
  moreover have "hd (replicate 16 (7 :: byte)) = 7" "tl (replicate 16 (7 :: byte)) = replicate 15 7"
    by (simp_all add: numeral_eq_Suc)
  ultimately show ?thesis
    using OpenWAL_records [OF assms] session_path_16 [of "replicate 16 7" "''d''"]
    by (simp add: OpenSession_def getDataPath_def example_session_def)
qed

definition example_player :: PlayerRun where
  "example_player = (new_player False (replicate 16 1) (replicate 8 65) 1 0)
     \<lparr>pr_started := True, pr_sent := [hello_packet]\<rparr>"

lemma hello_sent: "\<exists>bs. SendRaw WrOk hello_packet = (bs, None)"
  by (simp add: SendRaw_def hello_packet_def ServerHello_Serialize_def Let_def)

lemma example_joined:
  "session_reach (example_session es) ((example_session es)\<lparr>s_players := [0 \<mapsto> example_player]\<rparr>)"
proof -
  let ?s = "example_session es"
  let ?s1 = "Join_enter ?s 0 (replicate 16 1) (replicate 8 65) 1 0"
  have "session_reach ?s ?s1"
    by (rule session_reach.enter [OF session_reach.start]) (simp add: example_session_def)
  moreover have "session_step ?s1 (Join_hello WrOk ?s1 0)"
    by (rule session_step.hello [where p = "new_player False (replicate 16 1) (replicate 8 65) 1 0"])
      (simp_all add: Join_enter_def example_session_def, simp add: new_player_def)
  ultimately have "session_reach ?s (Join_hello WrOk ?s1 0)"
    by (rule session_reach.step)
  moreover have "Join_hello WrOk ?s1 0 = ?s\<lparr>s_players := [0 \<mapsto> example_player]\<rparr>"
    using hello_sent by (auto simp: Join_hello_def Join_enter_def upd_player_def example_player_def example_session_def
        new_player_def)
  ultimately show ?thesis by simp
qed

section \<open>Properties\<close>

text \<open>C18: A player is never told that an entry is stored unless it is: whatever the interleaving of the
  goroutines of all players and whatever the disk does, every acknowledgement written to a
  connection carries the deduplication key of an entry of the session's log.\<close>

theorem server_acks_only_stored:
  assumes "OpenSession mkdir opened fin dir sid sec sink = Some (Inr s0)" "session_reach s0 s"
    and "s_players s pid = Some p" "pkt \<in> set (pr_sent p)" "pkt_Op pkt = OpWalAck"
  shows "\<exists>e\<in>set (wal_entries (s_wal s)). DedupKey e = Inr (pkt_Data pkt)"
proof -
  have inv: "session_inv s" using session_reach_inv [OF assms(2)] OpenSession_inv [OF assms(1)] .
  then have "acks_inv (wal_entries (s_wal s)) p" "wal_mem_inv (s_wal s)"
    using assms(3) by (auto simp: session_inv_def player_inv_def)
  then obtain e where "e \<in> set (wal_entries (s_wal s))" "pkt_Data pkt = entry_key e" "wf_entry e"
    using assms(4,5) by (auto simp: acks_inv_def outgoing_def ack_ok_def wal_mem_inv_def)
  then show ?thesis by (intro bexI [of _ e]) (simp_all add: DedupKey_ok)
qed

theorem server_acks_only_stored_witness:
  "\<exists>s p. session_reach (example_session []) s \<and> s_players s 0 = Some p \<and>
     \<lparr>pkt_Op = OpWalAck, pkt_Data = entry_key example_item\<rparr> \<in> set (pr_sent p) \<and>
     (\<exists>e\<in>set (wal_entries (s_wal s)). DedupKey e = Inr (entry_key example_item))"
proof -
  let ?s = "(example_session [])\<lparr>s_players := [0 \<mapsto> example_player]\<rparr>"
  let ?pkt = "\<lparr>pkt_Op = OpWal, pkt_Data = entry_bytes example_item\<rparr>" and ?p = "example_player"
  let ?s1 = "?s\<lparr>s_players := (s_players ?s)(0 \<mapsto> ?p\<lparr>pr_rx := pr_rx ?p @ [?pkt]\<rparr>)\<rparr>"
  have "session_step ?s ?s1" by (rule session_step.arrive) simp
  with example_joined have r: "session_reach (example_session []) ?s1" by (rule session_reach.step)
  have A: "Append all_ok (s_wal ?s1) example_item = (appended (s_wal ?s1) example_item, None)"
    using reopened_inv [of "[]"]
    by (intro Append_all_ok) (simp_all add: wal_inv_def example_session_def all_ok_def, simp add: reopened_def)
  have "\<exists>s' p'. session_reach (example_session []) s' \<and> s_wal s' = appended (s_wal ?s1) example_item \<and>
      s_players s' 0 = Some p' \<and>
      pr_sent p' = pr_sent (?p\<lparr>pr_rx := pr_rx ?p @ [?pkt]\<rparr>) @ [\<lparr>pkt_Op = OpWalAck, pkt_Data = entry_key example_item\<rparr>]"
    by (rule idle_player_gets_ack [OF r _ _ _ _ _ _ _ _ _ _ _ A, where pkt = ?pkt])
      (simp_all add: example_player_def new_player_def wal_codec.parse_ser0)
  then obtain s p where sp: "session_reach (example_session []) s" "s_players s 0 = Some p"
    "\<lparr>pkt_Op = OpWalAck, pkt_Data = entry_key example_item\<rparr> \<in> set (pr_sent p)" by auto
  have "OpenSession None (Inr []) EOF ''d'' (replicate 16 7) (replicate 8 9) SinkNull = Some (Inr (example_session []))"
    using open_example [of "[]"] by simp
  from server_acks_only_stored [OF this sp] sp show ?thesis by auto
qed

text \<open>C19: The server sends a player the log in order: at any moment the log packets written to its
  connection are, one after the other and without gaps, the entries from the index the player
  gave in its hello, each with its own index, as long as the log has fewer than \<open>2\<^sup>3\<^sup>2\<close> entries.\<close>

theorem server_streams_in_order:
  assumes "OpenSession mkdir opened fin dir sid sec sink = Some (Inr s0)" "session_reach s0 s"
    and "s_players s pid = Some p" "length (wal_entries (s_wal s)) < 2 ^ 32"
  shows "\<exists>n. (n \<noteq> 0 \<longrightarrow> unat (pr_start p) + n \<le> length (wal_entries (s_wal s))) \<and>
    filter (\<lambda>pkt. pkt_Op pkt = OpWal) (pr_sent p) = wal_packets (wal_entries (s_wal s)) (pr_start p) n"
proof -
  have inv: "session_inv s" using session_reach_inv [OF assms(2)] OpenSession_inv [OF assms(1)] .
  then obtain n where n: "stream_at (wal_entries (s_wal s)) p n"
    using assms(3,4) by (auto simp: session_inv_def player_inv_def stream_inv_def)
  then obtain m where "m \<le> n" "filter is_wal (pr_sent p) = wal_packets (wal_entries (s_wal s)) (pr_start p) m"
    unfolding stream_at_def pipe_def by (metis stream_shrink)
  moreover have "is_wal = (\<lambda>pkt. pkt_Op pkt = OpWal)" by (simp add: is_wal_def fun_eq_iff)
  ultimately show ?thesis using n by (auto simp: stream_at_def intro!: exI [of _ m])
qed

theorem server_streams_in_order_witness:
  "\<exists>s p. session_reach (example_session [example_item]) s \<and> s_players s 0 = Some p \<and>
     filter (\<lambda>pkt. pkt_Op pkt = OpWal) (pr_sent p) = [wal_packet 0 example_item] \<and>
     (\<exists>n. filter (\<lambda>pkt. pkt_Op pkt = OpWal) (pr_sent p) = wal_packets [example_item] (pr_start p) n)"
proof -
  let ?s = "(example_session [example_item])\<lparr>s_players := [0 \<mapsto> example_player]\<rparr>"
  have "wal_inv (reopened [example_item])" by (rule reopened_inv) simp
  then have w: "wal_mem_inv (s_wal ?s)" "wal_entries (s_wal ?s) = [example_item]"
    by (simp_all add: example_session_def wal_inv_def, simp add: reopened_def)
  obtain s p where sp: "session_reach (example_session [example_item]) s" "s_wal s = s_wal ?s" "s_players s 0 = Some p"
    "pr_start p = pr_start example_player" "pr_sent p = pr_sent example_player @ [wal_packet 0 example_item]"
    using idle_player_gets_entry [OF example_joined, of "[example_item]" 0 example_player] w
    by (auto simp: example_player_def new_player_def Subscribe_def)
  have o: "OpenSession None (Inr (concat (map wal_record [example_item]))) EOF ''d'' (replicate 16 7) (replicate 8 9) SinkNull =
      Some (Inr (example_session [example_item]))"
    by (rule open_example) simp
  from sp(2) w(2) have es: "wal_entries (s_wal s) = [example_item]" by simp
  from server_streams_in_order [OF o sp(1,3)] es
  have "\<exists>n. filter (\<lambda>pkt. pkt_Op pkt = OpWal) (pr_sent p) = wal_packets [example_item] (pr_start p) n" by auto
  moreover from sp(5) have "filter (\<lambda>pkt. pkt_Op pkt = OpWal) (pr_sent p) = [wal_packet 0 example_item]"
    by (simp add: example_player_def wal_packet_def hello_packet_def)
  ultimately show ?thesis using sp(1,3) by blast
qed

text \<open>C20: A handled packet never panics the server. An entry that arrives on a log in order is appended
  unless its key is there and then acknowledged with its key; when the disk fails the player is
  disconnected with an error and the session is as it was. Nothing else changes the log.\<close>

theorem server_packet_stores:
  assumes "wal_inv (s_wal s)" "rollback_ok (he_io env)"
  shows "\<exists>s' r. handlePacket env s pid pkt = Some (s', r) \<and> wal_inv (s_wal s') \<and>
    (\<forall>e. pkt_Op pkt = OpWal \<and> Parse (pkt_Data pkt) = Some (Inr e) \<longrightarrow>
      (if snd (Append (he_io env) (s_wal s) e) = None
       then wal_entries (s_wal s') = log_append (wal_entries (s_wal s)) e \<and>
         r = Inr (Some \<lparr>pkt_Op = OpWalAck, pkt_Data = entry_key e\<rparr>)
       else s' = s \<and> (\<exists>err. r = Inl err))) \<and>
    ((\<nexists>e. pkt_Op pkt = OpWal \<and> Parse (pkt_Data pkt) = Some (Inr e)) \<longrightarrow>
      s_wal s' = s_wal s \<and> (\<nexists>ack. r = Inr (Some ack)))"
proof (cases rule: handlePacket_cases [of env s pid pkt])
  case (quiet r)
  then show ?thesis using assms by auto
next
  case (failed e w err err')
  from assms(2) have io: "io_trunc (he_io env)" "io_back (he_io env)" by (simp_all add: rollback_ok_def)
  from assms(1) failed(1) io have "w = s_wal s"
    by (rule Append_cases) (use failed in auto)
  with failed assms show ?thesis by auto
next
  case (stored e w)
  then show ?thesis
    using assms wal.append_inv [OF assms(1) stored(1) assms(2)] wal.append_entries [OF assms(1) stored(1), of "he_io env"]
    by auto
next
  case (position pos)
  then show ?thesis using assms by (auto simp: handlePositionUpdate_frame)
qed

definition example_env :: hp_env where
  "example_env = \<lparr>he_io = all_ok, he_picks = \<lambda>_. PickComm, he_pick = PickComm, he_since = 0, he_now = 0\<rparr>"

theorem server_packet_stores_witness:
  "\<exists>s' r. handlePacket example_env (example_session [example_event]) 0
       \<lparr>pkt_Op = OpWal, pkt_Data = entry_bytes example_item\<rparr> = Some (s', r) \<and>
     wal_entries (s_wal s') = [example_event, example_item] \<and>
     r = Inr (Some \<lparr>pkt_Op = OpWalAck, pkt_Data = entry_key example_item\<rparr>)"
proof -
  let ?pkt = "\<lparr>pkt_Op = OpWal, pkt_Data = entry_bytes example_item\<rparr>" and ?s = "example_session [example_event]"
  have "wal_inv (reopened [example_event])" by (rule reopened_inv) simp
  then have w: "wal_inv (s_wal ?s)" "wal_entries (s_wal ?s) = [example_event]" "wal_set (s_wal ?s) = {entry_key example_event}"
    by (simp_all add: example_session_def) (simp_all add: reopened_def)
  have A: "snd (Append (he_io example_env) (s_wal ?s) example_item) = None"
    using w by (subst Append_all_ok) (simp_all add: wal_inv_def example_env_def all_ok_def)
  from server_packet_stores [OF w(1), of example_env 0 ?pkt]
  obtain s' r where "handlePacket example_env ?s 0 ?pkt = Some (s', r)"
    "wal_entries (s_wal s') = log_append [example_event] example_item"
    "r = Inr (Some \<lparr>pkt_Op = OpWalAck, pkt_Data = entry_key example_item\<rparr>)"
    using A w(2) by (auto simp: rollback_ok_def example_env_def all_ok_def wal_codec.parse_ser0)
  then show ?thesis by simp
qed



end
