(* ===== verification/ServerApp.thy ===== *)
theory ServerApp
  imports ServerSession
begin

text \<open>
  The server application, \<^verbatim>\<open>server/internal/app/app.go\<close>: the map of open sessions with their use
  counts, and one goroutine per client, which reads the hello, acquires the session, joins it and
  releases it when it leaves. The mutex makes acquiring and releasing one step each. Shown: the
  count of a session is the number of clients that use it, a session is closed only when the last
  of them has left, and all of them gave the session's secret.
\<close>

section \<open>State\<close>

record appSession =
  as_session :: Session
  as_count :: int

record App =
  app_dataDir :: string
  app_sessions :: "bytes \<rightharpoonup> appSession"
  app_sink :: "EventPosition Sink"

text \<open>
  Where the goroutine of a client is: reading the hello, between acquiring the session and entering
  it, inside \<^verbatim>\<open>Join\<close>, finished.
\<close>

datatype client_pc = CHello | CAcquired ClientHello | CJoined ClientHello | CEnd

text \<open>
  Where \<^verbatim>\<open>Run\<close> is: in the loop of \<^verbatim>\<open>run\<close> around \<^verbatim>\<open>AcceptTCP\<close>, waiting for the goroutines it started
  (\<^verbatim>\<open>wg.Wait\<close>), in the deferred \<^verbatim>\<open>sink.Close\<close>, finished.
\<close>

datatype main_pc = Accepting | Waiting | Closing | Returned

text \<open>These come in this order, and \<^verbatim>\<open>Run\<close> only goes forward.\<close>

fun main_rank :: "main_pc \<Rightarrow> nat" where
  "main_rank Accepting = 0"
| "main_rank Waiting = 1"
| "main_rank Closing = 2"
| "main_rank Returned = 3"

lemma main_rank_inject: "main_rank m = main_rank m' \<longleftrightarrow> m = m'"
  by (cases m; cases m') simp_all

instantiation main_pc :: linorder
begin

definition less_eq_main_pc :: "main_pc \<Rightarrow> main_pc \<Rightarrow> bool" where
  "less_eq_main_pc m m' \<longleftrightarrow> main_rank m \<le> main_rank m'"

definition less_main_pc :: "main_pc \<Rightarrow> main_pc \<Rightarrow> bool" where
  "less_main_pc m m' \<longleftrightarrow> main_rank m < main_rank m'"

instance
  by standard (auto simp: less_eq_main_pc_def less_main_pc_def main_rank_inject)

end

record server =
  sv_app :: App
  sv_clients :: "nat \<rightharpoonup> client_pc"
  sv_done :: bool
  sv_main :: main_pc

text \<open>What the file system answers when a session is opened.\<close>

record open_io =
  oi_mkdir :: "go_error option"
  oi_opened :: "bytes result"
  oi_fin :: go_error

section \<open>Operations\<close>

definition acquireSession :: "open_io \<Rightarrow> App \<Rightarrow> bytes \<Rightarrow> bytes \<Rightarrow> (App \<times> Session result) option" where
  "acquireSession io app sessionID sessionSecret =
     (case app_sessions app sessionID of
        Some appS \<Rightarrow>
          if s_Secret (as_session appS) \<noteq> sessionSecret
          then Some (app, Inl (Errorf ''invalid session secret''))
          else
            (let appS = appS\<lparr>as_count := as_count appS + 1\<rparr>
             in Some (app\<lparr>app_sessions := (app_sessions app)(sessionID \<mapsto> appS)\<rparr>, Inr (as_session appS)))
      | None \<Rightarrow>
          (case OpenSession (oi_mkdir io) (oi_opened io) (oi_fin io) (app_dataDir app) sessionID sessionSecret
              (app_sink app) of
             None \<Rightarrow> None
           | Some (Inl err) \<Rightarrow> Some (app, Inl (Wrapf ''failed to open session: %v'' err))
           | Some (Inr session) \<Rightarrow>
               Some (app\<lparr>app_sessions := (app_sessions app)
                   (sessionID \<mapsto> \<lparr>as_session = session, as_count = 1\<rparr>)\<rparr>, Inr session)))"

text \<open>The state afterwards, and the session that was closed, if any.\<close>

definition releaseSession :: "App \<Rightarrow> bytes \<Rightarrow> App \<times> Session option" where
  "releaseSession app sessionID =
     (case app_sessions app sessionID of
        None \<Rightarrow> (app, None)
      | Some appS \<Rightarrow>
          (let appS = appS\<lparr>as_count := as_count appS - 1\<rparr>
           in if as_count appS \<le> 0
              then (app\<lparr>app_sessions := (app_sessions app)(sessionID := None)\<rparr>,
                    Some (Session_Close (as_session appS)))
              else (app\<lparr>app_sessions := (app_sessions app)(sessionID \<mapsto> appS)\<rparr>, None)))"

text \<open>
  \<^verbatim>\<open>handleClient\<close> from the first packet up to \<^verbatim>\<open>session.Join\<close>: the hello of the client when it goes on,
  \<^const>\<open>None\<close> when it returns.
\<close>

definition handleClient_hello ::
    "open_io \<Rightarrow> App \<Rightarrow> Packet result \<Rightarrow> (App \<times> ClientHello option) option" where
  "handleClient_hello io app recv =
     (case recv of
        Inl err \<Rightarrow> Some (app, None)
      | Inr pkt \<Rightarrow>
          if pkt_Op pkt \<noteq> OpHello then Some (app, None)
          else
            (case ParseClientHello (pkt_Data pkt) of
               None \<Rightarrow> None
             | Some (Inl err) \<Rightarrow> Some (app, None)
             | Some (Inr hello) \<Rightarrow>
                 (case acquireSession io app (ch_SessionID hello) (ch_SessionSecret hello) of
                    None \<Rightarrow> None
                  | Some (app, Inl err) \<Rightarrow> Some (app, None)
                  | Some (app, Inr session) \<Rightarrow> Some (app, Some hello))))"

text \<open>What the end of the application's context does to a session.\<close>

definition cancel_session :: "Session \<Rightarrow> Session" where
  "cancel_session s = s\<lparr>s_cancelled := True,
     s_players := (\<lambda>pid. map_option (\<lambda>p. p\<lparr>p_done := True\<rparr>) (s_players s pid)),
     s_wal := (s_wal s)\<lparr>wal_done := True\<rparr>\<rparr>"

text \<open>
  The sessions and the application point to one sink, \<open>app_sink\<close>: a session is looked at with that sink
  in place, and what it has done to the sink is done to the application's.
\<close>

definition the_session :: "server \<Rightarrow> appSession \<Rightarrow> Session" where
  "the_session sv appS = (as_session appS)\<lparr>s_sink := app_sink (sv_app sv)\<rparr>"

definition upd_session :: "server \<Rightarrow> bytes \<Rightarrow> appSession \<Rightarrow> Session \<Rightarrow> server" where
  "upd_session sv sid appS s = sv\<lparr>sv_app := (sv_app sv)
     \<lparr>app_sessions := (app_sessions (sv_app sv))(sid \<mapsto> appS\<lparr>as_session := s\<rparr>), app_sink := s_sink s\<rparr>\<rparr>"

text \<open>
  The steps of the server: a client connects (\<^verbatim>\<open>run\<close>), says hello, enters the session
  (the number of the client is the address of its \<^verbatim>\<open>Player\<close>), returns from \<^verbatim>\<open>Join\<close> once the player
  has left, and releases the session; the goroutines of a session run; the application's context
  ends (\<open>interrupt\<close>), which every session sees in its own time (\<open>shutdown\<close>) and \<^verbatim>\<open>run\<close> when it looks at
  the context or when \<^verbatim>\<open>AcceptTCP\<close> fails on the closed listener (\<open>stop\<close>); once all clients have
  returned \<^verbatim>\<open>run\<close> does, and the sink is cancelled (\<open>join\<close>) and waited for (\<open>finish\<close>), whose goroutine runs
  all the time (\<open>publishing\<close>); \<open>marshal\<close> stands for \<^verbatim>\<open>json.Marshal\<close> on its events. A call of \<^verbatim>\<open>AcceptTCP\<close> that was under way may still return a client
  after the context has ended.
\<close>

inductive server_step :: "(EventPosition \<Rightarrow> bytes result) \<Rightarrow> server \<Rightarrow> server \<Rightarrow> bool" for marshal where
  connect: "sv_clients sv c = None \<Longrightarrow> sv_main sv = Accepting \<Longrightarrow>
    server_step marshal sv (sv\<lparr>sv_clients := (sv_clients sv)(c \<mapsto> CHello)\<rparr>)"
| hello: "sv_clients sv c = Some CHello \<Longrightarrow> handleClient_hello io (sv_app sv) recv = Some (app, r) \<Longrightarrow>
    server_step marshal sv (sv\<lparr>sv_app := app,
      sv_clients := (sv_clients sv)(c \<mapsto> (case r of None \<Rightarrow> CEnd | Some h \<Rightarrow> CAcquired h))\<rparr>)"
| enter: "sv_clients sv c = Some (CAcquired h) \<Longrightarrow>
    app_sessions (sv_app sv) (ch_SessionID h) = Some appS \<Longrightarrow>
    server_step marshal sv ((upd_session sv (ch_SessionID h) appS (Join_enter (the_session sv appS) c (ch_PlayerID h)
        (ch_PlayerName h) (ch_WorldID h) (ch_WalIndex h)))
      \<lparr>sv_clients := (sv_clients sv)(c \<mapsto> CJoined h)\<rparr>)"
| session: "app_sessions (sv_app sv) sid = Some appS \<Longrightarrow> session_step (the_session sv appS) s \<Longrightarrow>
    server_step marshal sv (upd_session sv sid appS s)"
| release: "sv_clients sv c = Some (CJoined h) \<Longrightarrow>
    app_sessions (sv_app sv) (ch_SessionID h) = Some appS \<Longrightarrow> s_players (as_session appS) c = None \<Longrightarrow>
    server_step marshal sv (sv\<lparr>sv_app := fst (releaseSession (sv_app sv) (ch_SessionID h)),
      sv_clients := (sv_clients sv)(c \<mapsto> CEnd)\<rparr>)"
| shutdown: "app_sessions (sv_app sv) sid = Some appS \<Longrightarrow> sv_done sv \<Longrightarrow>
    server_step marshal sv (upd_session sv sid appS (cancel_session (the_session sv appS)))"
| interrupt: "server_step marshal sv (sv\<lparr>sv_done := True\<rparr>)"
| stop: "sv_main sv = Accepting \<Longrightarrow> sv_done sv \<Longrightarrow> server_step marshal sv (sv\<lparr>sv_main := Waiting\<rparr>)"
| join: "sv_main sv = Waiting \<Longrightarrow> \<forall>c pc. sv_clients sv c = Some pc \<longrightarrow> pc = CEnd \<Longrightarrow>
    server_step marshal sv (sv\<lparr>sv_app := (sv_app sv)\<lparr>app_sink := Sink_cancel (app_sink (sv_app sv))\<rparr>,
      sv_main := Closing\<rparr>)"
| publishing: "app_sink (sv_app sv) = SinkNats n \<Longrightarrow> nats_run_step marshal n n' \<Longrightarrow>
    server_step marshal sv (sv\<lparr>sv_app := (sv_app sv)\<lparr>app_sink := SinkNats n'\<rparr>\<rparr>)"
| finish: "sv_main sv = Closing \<Longrightarrow> Sink_closed (app_sink (sv_app sv)) \<Longrightarrow>
    server_step marshal sv (sv\<lparr>sv_main := Returned\<rparr>)"

definition server_init :: "string \<Rightarrow> EventPosition Sink \<Rightarrow> server" where
  "server_init dataDir sink =
     \<lparr>sv_app = \<lparr>app_dataDir = dataDir, app_sessions = Map.empty, app_sink = sink\<rparr>, sv_clients = Map.empty,
      sv_done = False, sv_main = Accepting\<rparr>"

inductive server_reach :: "(EventPosition \<Rightarrow> bytes result) \<Rightarrow> string \<Rightarrow> EventPosition Sink \<Rightarrow> server \<Rightarrow> bool"
  for marshal dataDir sink where
  init: "server_reach marshal dataDir sink (server_init dataDir sink)"
| step: "server_reach marshal dataDir sink sv \<Longrightarrow> server_step marshal sv sv' \<Longrightarrow>
    server_reach marshal dataDir sink sv'"

section \<open>Invariant\<close>

fun held :: "client_pc \<Rightarrow> ClientHello option" where
  "held (CAcquired h) = Some h"
| "held (CJoined h) = Some h"
| "held _ = None"

definition uses :: "server \<Rightarrow> nat \<Rightarrow> ClientHello \<Rightarrow> bool" where
  "uses sv c h \<longleftrightarrow> (\<exists>pc. sv_clients sv c = Some pc \<and> held pc = Some h)"

definition users :: "server \<Rightarrow> bytes \<Rightarrow> nat set" where
  "users sv sid = {c. \<exists>h. uses sv c h \<and> ch_SessionID h = sid}"

definition session_ok :: "server \<Rightarrow> bytes \<Rightarrow> appSession \<Rightarrow> bool" where
  "session_ok sv sid appS \<longleftrightarrow> as_count appS = int (card (users sv sid)) \<and> users sv sid \<noteq> {} \<and>
     s_ID (as_session appS) = sid \<and> f_open (wal_file (s_wal (as_session appS))) \<and> session_inv (as_session appS) \<and>
     (\<forall>c h. uses sv c h \<and> ch_SessionID h = sid \<longrightarrow> ch_SessionSecret h = s_Secret (as_session appS))"

definition server_inv :: "server \<Rightarrow> bool" where
  "server_inv sv \<longleftrightarrow> finite (dom (sv_clients sv)) \<and>
     (\<forall>c h. uses sv c h \<longrightarrow> app_sessions (sv_app sv) (ch_SessionID h) \<noteq> None) \<and>
     (\<forall>sid appS. app_sessions (sv_app sv) sid = Some appS \<longrightarrow> session_ok sv sid appS)"

section \<open>What a step leaves alone\<close>

lemma file_ops_open [simp]:
  "f_open (fst (file_write r bs f)) = f_open f" "f_open (fst (file_truncate ok n f)) = f_open f"
  "f_open (fst (file_seek ok n f)) = f_open f"
  by (simp_all add: file_op_defs Let_def split: wr.split)

lemma rollback_open [simp]: "f_open (rollback io pos f) = f_open f"
  by (simp add: rollback_def)

lemma write_record_open: "f_open (fst (write_record io f len d)) = f_open f"
proof -
  obtain f1 r1 where 1: "file_seek (io_pos io) (f_off f) f = (f1, r1)" by fastforce
  obtain f2 r2 where 2: "file_write (io_len io) len f1 = (f2, r2)" by fastforce
  obtain f3 r3 where 3: "file_write (io_data io) d f2 = (f3, r3)" by fastforce
  have "f_open f1 = f_open f" "f_open f2 = f_open f1" "f_open f3 = f_open f2"
    using file_ops_open 1 2 3 by (metis fst_conv)+
  then show ?thesis
    by (cases r1; cases r2; cases r3; cases "file_sync (io_sync io) f3") (simp_all add: write_record_def 1 2 3 Let_def)
qed

lemma Append_open: "f_open (wal_file (fst (Append io w e))) = f_open (wal_file w)"
proof (cases "Serialize e")
  case (Inr d)
  obtain f r where rec: "write_record io (wal_file w) (LE_PutUint32 (of_nat (length d))) d = (f, r)" by fastforce
  then have "f_open f = f_open (wal_file w)" using write_record_open by (metis fst_conv)
  with Inr rec show ?thesis
    by (cases "DedupKey e"; cases r) (simp_all add: Append_def wal_put_def Let_def)
qed (simp add: Append_def)

lemma OpenWAL_open: "OpenWAL opened fin = Some (Inr w) \<Longrightarrow> f_open (wal_file w)"
  by (auto simp: OpenWAL_def wal_load_def new_WAL_def opened_file_def split: option.splits sum.splits)

lemma after_packet_frame [simp]:
  "s_ID (after_packet s pid r) = s_ID s" "s_Secret (after_packet s pid r) = s_Secret s"
  "s_wal (after_packet s pid r) = s_wal s"
  by (simp_all add: after_packet_def upd_player_def)

lemma handlePositionUpdate_ids:
  "s_ID (handlePositionUpdate env s pid pos) = s_ID s" "s_Secret (handlePositionUpdate env s pid pos) = s_Secret s"
  by (simp_all add: handlePositionUpdate_def BroadcastExcept_def upd_player_def Let_def split: option.split prod.split)

lemma handlePacket_frame:
  assumes "handlePacket env s pid pkt = Some (s', r)"
  shows "s_ID s' = s_ID s \<and> s_Secret s' = s_Secret s \<and> f_open (wal_file (s_wal s')) = f_open (wal_file (s_wal s))"
proof (cases rule: handlePacket_cases [of env s pid pkt])
  case (failed e w err err')
  with assms Append_open [of "he_io env" "s_wal s" e] show ?thesis by auto
next
  case (stored e w)
  with assms Append_open [of "he_io env" "s_wal s" e] show ?thesis by auto
next
  case (position pos)
  with assms handlePositionUpdate_ids [of env s pid pos] show ?thesis by (auto simp: handlePositionUpdate_frame)
qed (use assms in auto)

lemma session_step_frame:
  assumes "session_step s s'"
  shows "s_ID s' = s_ID s \<and> s_Secret s' = s_Secret s \<and> f_open (wal_file (s_wal s')) = f_open (wal_file (s_wal s))"
  using assms
proof cases
  case (packet pid p pkt c env s1 r)
  from handlePacket_frame [OF packet(6)] packet(1) show ?thesis by simp
qed (auto simp: Join_hello_def Join_leave_def upd_player_def split: prod.splits option.splits)

lemma cancel_session_inv: "session_inv s \<Longrightarrow> session_inv (cancel_session s)"
  by (auto simp: session_inv_def cancel_session_def wal_mem_inv_def player_inv_frame)

section \<open>The invariant is kept\<close>

lemma uses_upd:
  "uses (sv\<lparr>sv_app := app, sv_clients := (sv_clients sv)(c \<mapsto> pc)\<rparr>) d h \<longleftrightarrow>
     (if d = c then held pc = Some h else uses sv d h)"
  by (auto simp: uses_def)

lemma users_upd:
  "users (sv\<lparr>sv_app := app, sv_clients := (sv_clients sv)(c \<mapsto> pc)\<rparr>) sid =
     (if \<exists>h. held pc = Some h \<and> ch_SessionID h = sid then insert c (users sv sid) else users sv sid - {c})"
  by (auto simp: users_def uses_upd split: if_splits)

lemma session_ok_cong:
  assumes "users sv' sid = users sv sid" "\<And>c h. ch_SessionID h = sid \<Longrightarrow> uses sv' c h = uses sv c h"
  shows "session_ok sv' sid a = session_ok sv sid a"
  using assms unfolding session_ok_def by metis

text \<open>The invariant is about the sessions and the clients.\<close>

lemma server_inv_cong:
  assumes "app_sessions (sv_app sv') = app_sessions (sv_app sv)" "sv_clients sv' = sv_clients sv"
  shows "server_inv sv' = server_inv sv"
proof -
  have u: "uses sv' = uses sv" using assms(2) by (simp add: uses_def fun_eq_iff)
  then have "users sv' = users sv" by (simp add: users_def fun_eq_iff)
  with u assms show ?thesis by (simp add: server_inv_def session_ok_def)
qed

lemma finite_users: "finite (dom (sv_clients sv)) \<Longrightarrow> finite (users sv sid)"
  by (rule finite_subset [of _ "dom (sv_clients sv)"]) (auto simp: users_def uses_def)

text \<open>A client that holds no session changes to another such state.\<close>

lemma idle_client_inv:
  assumes "server_inv sv" "sv_clients sv c = None \<or> (\<exists>pc. sv_clients sv c = Some pc \<and> held pc = None)" "held pc' = None"
  shows "server_inv (sv\<lparr>sv_clients := (sv_clients sv)(c \<mapsto> pc')\<rparr>)"
proof -
  let ?sv = "sv\<lparr>sv_clients := (sv_clients sv)(c \<mapsto> pc')\<rparr>"
  have u: "uses ?sv = uses sv" using assms(2,3) by (auto simp: uses_def fun_eq_iff)
  then have "users ?sv = users sv" by (simp add: users_def fun_eq_iff)
  with u have "session_ok ?sv = session_ok sv" by (simp add: session_ok_def fun_eq_iff)
  with u show ?thesis using assms(1) by (simp add: server_inv_def)
qed

text \<open>A session in use changes within itself.\<close>

lemma upd_session_inv:
  assumes "server_inv sv" "app_sessions (sv_app sv) sid = Some appS" "session_inv s"
    and "s_ID s = s_ID (as_session appS) \<and> s_Secret s = s_Secret (as_session appS) \<and>
      f_open (wal_file (s_wal s)) = f_open (wal_file (s_wal (as_session appS)))"
  shows "server_inv (upd_session sv sid appS s)"
proof -
  have "uses (upd_session sv sid appS s) = uses sv" by (simp add: upd_session_def uses_def fun_eq_iff)
  moreover from this have "users (upd_session sv sid appS s) = users sv" by (simp add: users_def fun_eq_iff)
  ultimately show ?thesis using assms by (auto simp: server_inv_def session_ok_def upd_session_def)
qed

text \<open>A client that held no session holds one, and the count of that session goes up.\<close>

lemma acquire_inv:
  assumes inv: "server_inv sv" and c: "sv_clients sv c = Some CHello"
    and acq: "acquireSession io (sv_app sv) (ch_SessionID h) (ch_SessionSecret h) = Some (app, Inr s)"
  shows "server_inv (sv\<lparr>sv_app := app, sv_clients := (sv_clients sv)(c \<mapsto> CAcquired h)\<rparr>)" (is "server_inv ?sv")
proof -
  let ?sid = "ch_SessionID h"
  have nc: "\<not> uses sv c h'" "c \<notin> users sv sid" for h' sid using c by (auto simp: users_def uses_def)
  have fin: "finite (users sv sid)" for sid using inv finite_users by (auto simp: server_inv_def)
  have us: "users ?sv sid = (if sid = ?sid then insert c (users sv sid) else users sv sid)" for sid
    using nc by (auto simp: users_upd)
  obtain appS where appS: "app = (sv_app sv)\<lparr>app_sessions := (app_sessions (sv_app sv))(?sid \<mapsto> appS)\<rparr>"
    "as_count appS = int (card (users sv ?sid)) + 1" "s_ID (as_session appS) = ?sid" "f_open (wal_file (s_wal (as_session appS)))"
    "session_inv (as_session appS)" "s_Secret (as_session appS) = ch_SessionSecret h"
    "\<forall>d h'. uses sv d h' \<and> ch_SessionID h' = ?sid \<longrightarrow> ch_SessionSecret h' = s_Secret (as_session appS)"
  proof (cases "app_sessions (sv_app sv) ?sid")
    case None
    have nu: "\<not> (uses sv d h' \<and> ch_SessionID h' = ?sid)" for d h'
      using inv None unfolding server_inv_def by metis
    then have "users sv ?sid = {}" by (auto simp: users_def)
    moreover from None acq have o: "OpenSession (oi_mkdir io) (oi_opened io) (oi_fin io) (app_dataDir (sv_app sv)) ?sid
        (ch_SessionSecret h) (app_sink (sv_app sv)) = Some (Inr s)"
      and app: "app = (sv_app sv)\<lparr>app_sessions := (app_sessions (sv_app sv))(?sid \<mapsto> \<lparr>as_session = s, as_count = 1\<rparr>)\<rparr>"
      by (auto simp: acquireSession_def split: option.splits sum.splits)
    moreover have "f_open (wal_file (s_wal s))" using OpenSession_fields(3) [OF o] OpenWAL_open by blast
    ultimately show thesis
      by (intro that [OF app]) (use OpenSession_inv [OF o] OpenSession_fields [OF o] in simp_all, use nu in blast)
  next
    case (Some a)
    with inv have "session_ok sv ?sid a" by (simp add: server_inv_def)
    moreover from Some acq have "s_Secret (as_session a) = ch_SessionSecret h"
      and "app = (sv_app sv)\<lparr>app_sessions := (app_sessions (sv_app sv))(?sid \<mapsto> a\<lparr>as_count := as_count a + 1\<rparr>)\<rparr>"
      by (auto simp: acquireSession_def split: if_splits)
    ultimately show thesis
      by (intro that [of "a\<lparr>as_count := as_count a + 1\<rparr>"]) (simp_all add: session_ok_def, blast)
  qed
  have "ch_SessionSecret h' = s_Secret (as_session appS)" if "uses ?sv d h'" "ch_SessionID h' = ?sid" for d h'
    using that appS(6,7) by (cases "d = c") (auto simp: uses_upd)
  then have "session_ok ?sv ?sid appS"
    unfolding session_ok_def us using appS(2-5) fin [of ?sid] nc(2) [of ?sid] by simp blast
  moreover have "session_ok ?sv sid a" if "sid \<noteq> ?sid" "app_sessions (sv_app sv) sid = Some a" for sid a
  proof -
    have "session_ok ?sv sid a = session_ok sv sid a"
      by (rule session_ok_cong) (use that nc in \<open>auto simp: us uses_upd\<close>)
    with inv that(2) show ?thesis by (simp add: server_inv_def)
  qed
  moreover have "\<forall>d h'. uses ?sv d h' \<longrightarrow> app_sessions app (ch_SessionID h') \<noteq> None"
    using inv by (simp add: uses_upd server_inv_def appS(1))
  ultimately show ?thesis
    using inv by (simp add: server_inv_def appS(1))
qed

text \<open>A client gives its session back, and the session is closed when it was the last.\<close>

lemma release_inv:
  assumes inv: "server_inv sv" and c: "sv_clients sv c = Some (CJoined h)"
    and appS: "app_sessions (sv_app sv) (ch_SessionID h) = Some appS"
  shows "server_inv (sv\<lparr>sv_app := fst (releaseSession (sv_app sv) (ch_SessionID h)),
    sv_clients := (sv_clients sv)(c \<mapsto> CEnd)\<rparr>)" (is "server_inv ?sv")
proof -
  let ?sid = "ch_SessionID h"
  have cu: "uses sv c h" "c \<in> users sv ?sid" using c by (auto simp: users_def uses_def)
  have only: "sid = ?sid" if "c \<in> users sv sid" for sid using that c by (auto simp: users_def uses_def)
  have fin: "finite (users sv sid)" for sid using inv finite_users by (auto simp: server_inv_def)
  have us: "users ?sv sid = users sv sid - {c}" for sid by (simp add: users_upd)
  let ?rest = "users sv ?sid - {c}"
  have ok: "session_ok sv ?sid appS" using inv appS by (simp add: server_inv_def)
  have "card (users sv ?sid) = Suc (card ?rest)" by (rule card.remove [OF fin cu(2)])
  with ok have cnt: "as_count appS - 1 = int (card ?rest)" by (simp add: session_ok_def)
  have other: "session_ok ?sv sid a" if "sid \<noteq> ?sid" "app_sessions (sv_app sv) sid = Some a" for sid a
  proof -
    have "session_ok ?sv sid a = session_ok sv sid a"
      by (rule session_ok_cong) (use that only [of sid] c in \<open>auto simp: us uses_upd uses_def\<close>)
    with inv that(2) show ?thesis by (simp add: server_inv_def)
  qed
  show ?thesis
  proof (cases "?rest = {}")
    case True
    with cnt appS have rel: "fst (releaseSession (sv_app sv) ?sid) =
        (sv_app sv)\<lparr>app_sessions := (app_sessions (sv_app sv))(?sid := None)\<rparr>"
      by (simp add: releaseSession_def)
    have "ch_SessionID h' \<noteq> ?sid" if "d \<noteq> c" "uses sv d h'" for d h' using True that by (auto simp: users_def)
    with inv have "\<forall>d h'. uses ?sv d h' \<longrightarrow> ch_SessionID h' \<noteq> ?sid \<and> app_sessions (sv_app sv) (ch_SessionID h') \<noteq> None"
      by (simp add: uses_upd server_inv_def)
    with inv other show ?thesis unfolding rel by (simp add: server_inv_def)
  next
    case False
    then have "0 < card ?rest" using fin [of ?sid] by (simp add: card_gt_0_iff)
    with cnt appS have rel: "fst (releaseSession (sv_app sv) ?sid) =
        (sv_app sv)\<lparr>app_sessions := (app_sessions (sv_app sv))(?sid \<mapsto> appS\<lparr>as_count := as_count appS - 1\<rparr>)\<rparr>"
      by (simp add: releaseSession_def)
    have this_ok: "session_ok ?sv ?sid (appS\<lparr>as_count := as_count appS - 1\<rparr>)"
      unfolding session_ok_def us using ok cnt False by (simp add: session_ok_def uses_upd) blast
    have "\<forall>d h'. uses ?sv d h' \<longrightarrow> app_sessions (sv_app sv) (ch_SessionID h') \<noteq> None"
      using inv by (simp add: uses_upd server_inv_def)
    with inv other this_ok show ?thesis unfolding rel by (simp add: server_inv_def)
  qed
qed

lemma the_session_frame [simp]:
  "s_ID (the_session sv appS) = s_ID (as_session appS)" "s_Secret (the_session sv appS) = s_Secret (as_session appS)"
  "s_wal (the_session sv appS) = s_wal (as_session appS)" "s_players (the_session sv appS) = s_players (as_session appS)"
  "s_cancelled (the_session sv appS) = s_cancelled (as_session appS)" "s_sink (the_session sv appS) = app_sink (sv_app sv)"
  by (simp_all add: the_session_def)

lemma session_of_inv:
  "server_inv sv \<Longrightarrow> app_sessions (sv_app sv) sid = Some appS \<Longrightarrow> session_inv (the_session sv appS)"
  by (simp add: server_inv_def session_ok_def session_inv_def)

lemma server_step_inv:
  assumes "server_step marshal sv sv'" "server_inv sv"
  shows "server_inv sv'"
  using assms(1)
proof cases
  case (connect c)
  then show ?thesis using idle_client_inv [OF assms(2), of c CHello] by simp
next
  case (hello c io recv app r)
  show ?thesis
  proof (cases r)
    case None
    with hello(3) have "app = sv_app sv"
      by (auto simp: handleClient_hello_def acquireSession_def Let_def
          split: sum.splits if_splits option.splits prod.splits)
    with hello None idle_client_inv [OF assms(2), of c CEnd] show ?thesis by simp
  next
    case (Some h)
    with hello(3) obtain s where
      "acquireSession io (sv_app sv) (ch_SessionID h) (ch_SessionSecret h) = Some (app, Inr s)"
      by (auto simp: handleClient_hello_def split: sum.splits if_splits option.splits)
    from acquire_inv [OF assms(2) hello(2) this] hello(1) Some show ?thesis by simp
  qed
next
  case (enter c h appS)
  let ?s = "Join_enter (the_session sv appS) c (ch_PlayerID h) (ch_PlayerName h) (ch_WorldID h) (ch_WalIndex h)"
  let ?sv = "upd_session sv (ch_SessionID h) appS ?s"
  have inv: "server_inv ?sv"
    by (rule upd_session_inv [OF assms(2) enter(3) Join_enter_inv])
      (rule session_of_inv [OF assms(2) enter(3)], simp add: Join_enter_def)
  have "uses sv' = uses ?sv"
    using enter(1,2) by (auto simp: uses_def upd_session_def fun_eq_iff)
  moreover from this have "users sv' = users ?sv" by (simp add: users_def fun_eq_iff)
  ultimately have "session_ok sv' = session_ok ?sv" by (simp add: session_ok_def fun_eq_iff)
  with inv \<open>uses sv' = uses ?sv\<close> enter(1) show ?thesis by (simp add: server_inv_def upd_session_def)
next
  case (session sid appS s)
  show ?thesis unfolding session(1)
    by (rule upd_session_inv [OF assms(2) session(2) session_step_inv [OF session(3)]
        session_step_frame [OF session(3), unfolded the_session_frame]])
      (rule session_of_inv [OF assms(2) session(2)])
next
  case (release c h appS)
  then show ?thesis using release_inv [OF assms(2) release(2,3)] by simp
next
  case (shutdown sid appS)
  show ?thesis unfolding shutdown(1)
    by (rule upd_session_inv [OF assms(2) shutdown(2) cancel_session_inv])
      (rule session_of_inv [OF assms(2) shutdown(2)], simp add: cancel_session_def)
next
  case interrupt
  then show ?thesis using assms(2) server_inv_cong [of sv' sv] by simp
next
  case stop
  then show ?thesis using assms(2) server_inv_cong [of sv' sv] by simp
next
  case join
  then show ?thesis using assms(2) server_inv_cong [of sv' sv] by simp
next
  case (publishing n n')
  then show ?thesis using assms(2) server_inv_cong [of sv' sv] by simp
next
  case finish
  then show ?thesis using assms(2) server_inv_cong [of sv' sv] by simp
qed

lemma server_reach_inv: "server_reach marshal dataDir sink sv \<Longrightarrow> server_inv sv"
proof (induction rule: server_reach.induct)
  case init
  show ?case by (auto simp: server_inv_def server_init_def uses_def)
qed (rule server_step_inv)

section \<open>A server for examples\<close>

definition example_hello :: "byte \<Rightarrow> ClientHello" where
  "example_hello b = \<lparr>ch_Magic = replicate 8 0, ch_Version = 0x00010000, ch_SessionID = replicate 16 7,
     ch_SessionSecret = replicate 8 9, ch_PlayerID = replicate 16 b, ch_PlayerName = replicate 8 65,
     ch_WorldID = 1, ch_WalIndex = 0\<rparr>"

definition example_open :: open_io where
  "example_open = \<lparr>oi_mkdir = None, oi_opened = Inr [], oi_fin = EOF\<rparr>"

definition example_server :: server where
  "example_server = \<lparr>sv_app = \<lparr>app_dataDir = ''d'',
       app_sessions = [replicate 16 7 \<mapsto> \<lparr>as_session = example_session [], as_count = 2\<rparr>], app_sink = SinkNull\<rparr>,
     sv_clients = [0 \<mapsto> CAcquired (example_hello 1), 1 \<mapsto> CAcquired (example_hello 2)],
     sv_done = False, sv_main = Accepting\<rparr>"

lemma wf_example_hello: "wf_ClientHello (example_hello b)"
  by (simp add: wf_ClientHello_def example_hello_def)

lemma example_hello_handled:
  "handleClient_hello example_open app (Inr \<lparr>pkt_Op = OpHello, pkt_Data = ClientHello_Serialize (example_hello b)\<rparr>) =
     (case acquireSession example_open app (replicate 16 7) (replicate 8 9) of
        None \<Rightarrow> None | Some (app, Inl err) \<Rightarrow> Some (app, None) | Some (app, Inr s) \<Rightarrow> Some (app, Some (example_hello b)))"
  using client_hello.parse_ser0 [OF wf_example_hello, of b]
  by (simp add: handleClient_hello_def) (simp add: example_hello_def)

lemma example_server_reach: "server_reach marshal ''d'' SinkNull example_server"
proof -
  let ?hello = "\<lambda>b. Inr \<lparr>pkt_Op = OpHello, pkt_Data = ClientHello_Serialize (example_hello b)\<rparr> :: Packet result"
  let ?app = "\<lambda>n. \<lparr>app_dataDir = ''d'', app_sessions = [replicate 16 7 \<mapsto> \<lparr>as_session = example_session [], as_count = n\<rparr>],
    app_sink = SinkNull\<rparr>"
  have sec: "s_Secret (example_session []) = replicate 8 9" by (simp add: example_session_def)
  have o: "OpenSession None (Inr []) EOF ''d'' (replicate 16 7) (replicate 8 9) SinkNull = Some (Inr (example_session []))"
    using open_example [of "[]"] by simp
  have 1: "handleClient_hello example_open (sv_app (server_init ''d'' SinkNull)) (?hello 1) = Some (?app 1, Some (example_hello 1))"
    unfolding example_hello_handled by (simp add: acquireSession_def server_init_def example_open_def o)
  have 2: "handleClient_hello example_open (?app 1) (?hello 2) = Some (?app 2, Some (example_hello 2))"
    unfolding example_hello_handled by (simp add: acquireSession_def sec)
  let ?s0 = "server_init ''d'' SinkNull" let ?s1 = "?s0\<lparr>sv_clients := [0 \<mapsto> CHello]\<rparr>"
  let ?s2 = "\<lparr>sv_app = ?app 1, sv_clients = [0 \<mapsto> CAcquired (example_hello 1)],
      sv_done = False, sv_main = Accepting\<rparr>"
  let ?s3 = "?s2\<lparr>sv_clients := [0 \<mapsto> CAcquired (example_hello 1), 1 \<mapsto> CHello]\<rparr>"
  have "server_step marshal ?s0 ?s1" using server_step.connect [of ?s0 0] by (simp add: server_init_def)
  moreover have "server_step marshal ?s1 ?s2"
    using server_step.hello [of ?s1 0 example_open "?hello 1" "?app 1" "Some (example_hello 1)"] 1
    by (simp add: server_init_def)
  moreover have "server_step marshal ?s2 ?s3" using server_step.connect [of ?s2 1] by simp
  moreover have "server_step marshal ?s3 example_server"
    using server_step.hello [of ?s3 1 example_open "?hello 2" "?app 2" "Some (example_hello 2)"] 2
    by (simp add: example_server_def)
  ultimately show ?thesis by (meson server_reach.init server_reach.step)
qed

section \<open>Properties\<close>

text \<open>C22: Whatever clients connect, join and leave in whatever order, the use count of an open session is
  the number of clients that hold it, a session is in the map exactly while a client holds it, and
  its log's file is open all that time: the session is closed only after the last client has left.\<close>

theorem server_sessions_counted:
  assumes "server_reach marshal dataDir sink sv"
  shows "(app_sessions (sv_app sv) sid = None \<longleftrightarrow> users sv sid = {}) \<and>
    (\<forall>appS. app_sessions (sv_app sv) sid = Some appS \<longrightarrow> as_count appS = int (card (users sv sid)) \<and>
      f_open (wal_file (s_wal (as_session appS))))"
proof -
  have inv: "server_inv sv" using server_reach_inv [OF assms] .
  then have "users sv sid = {}" if "app_sessions (sv_app sv) sid = None"
    using that unfolding users_def server_inv_def by fastforce
  with inv show ?thesis by (cases "app_sessions (sv_app sv) sid") (auto simp: server_inv_def session_ok_def)
qed

theorem server_sessions_counted_witness:
  "\<exists>appS. app_sessions (sv_app example_server) (replicate 16 7) = Some appS \<and>
     as_count appS = int (card (users example_server (replicate 16 7))) \<and> as_count appS = 2"
  using server_sessions_counted [OF example_server_reach, of "replicate 16 7"] by (simp add: example_server_def)

text \<open>All clients that hold a session gave the same secret, the one the session was opened with; in
  particular nobody joins a session that others use without its secret.\<close>

theorem server_secret_shared:
  assumes "server_reach marshal dataDir sink sv" "uses sv c h" "uses sv c' h'" "ch_SessionID h = ch_SessionID h'"
  shows "ch_SessionSecret h = ch_SessionSecret h' \<and>
    (\<exists>appS. app_sessions (sv_app sv) (ch_SessionID h) = Some appS \<and>
      s_Secret (as_session appS) = ch_SessionSecret h)"
proof -
  have inv: "server_inv sv" using server_reach_inv [OF assms(1)] .
  then obtain appS where appS: "app_sessions (sv_app sv) (ch_SessionID h) = Some appS"
    using assms(2) unfolding server_inv_def by blast
  with inv have "session_ok sv (ch_SessionID h) appS" by (simp add: server_inv_def)
  with assms(2-4) have "ch_SessionSecret h = s_Secret (as_session appS)" "ch_SessionSecret h' = s_Secret (as_session appS)"
    unfolding session_ok_def by metis+
  with appS show ?thesis by simp
qed

theorem server_secret_shared_witness:
  "uses example_server 0 (example_hello 1) \<and> uses example_server 1 (example_hello 2) \<and>
   ch_SessionSecret (example_hello 1) = ch_SessionSecret (example_hello 2)"
proof -
  have u: "uses example_server 0 (example_hello 1)" "uses example_server 1 (example_hello 2)"
    by (simp_all add: uses_def example_server_def)
  have "ch_SessionID (example_hello 1) = ch_SessionID (example_hello 2)" by (simp add: example_hello_def)
  from server_secret_shared [OF example_server_reach u this] u show ?thesis by simp
qed

end
