(* ===== verification/Replication.thy ===== *)
theory Replication
  imports Uplink ServerApp
begin

text \<open>
  The whole system: one session of the server, any number of clients with the goroutines of
  \<^verbatim>\<open>Uplink\<close>, and the connections between them. The network delivers on each connection what the
  server wrote, in order, up to the moment the connection breaks; what the server receives is
  arbitrary, so that clients of any kind may take part. Clients and server may crash and be started
  again from their files. Shown, for every interleaving: the log of a client is always a prefix of
  the log of the server, and a report in a client's send queue stays there until the server's log
  has it.
\<close>

section \<open>The invariant of a client\<close>

definition game_wf :: "GameSession \<Rightarrow> bool" where
  "game_wf s \<longleftrightarrow> length (in_SessionID (gs_Info s)) = 16 \<and> length (in_SessionSecret (gs_Info s)) = 8 \<and>
     length (gs_PlayerID s) = 16 \<and> length (gs_PlayerName s) = 8"

definition client_log :: "ClientRun \<Rightarrow> WalEntry list" where
  "client_log c = wal_entries (gs_wal (cr_s c))"

text \<open>The keys of the reports a client has not seen acknowledged.\<close>

definition queued :: "GameSession \<Rightarrow> bytes set" where
  "queued s = (case gs_sendQ s of None \<Rightarrow> {} | Some q \<Rightarrow> dom (pending q))"

definition client_pending :: "ClientRun \<Rightarrow> bytes set" where
  "client_pending c = queued (cr_s c)"

text \<open>No goroutine of a connection runs; the connection is used by somebody.\<close>

definition quiet :: "ClientRun \<Rightarrow> bool" where
  "quiet c \<longleftrightarrow> cr_piPc c = PiEnd \<and> cr_poPc c = PoEnd \<and> cr_noPc c = NoEnd \<and> cr_hkPc c = HkEnd"

definition reading :: "ClientRun \<Rightarrow> bool" where
  "reading c \<longleftrightarrow> cr_upPc c = UpReply \<or> cr_piPc c \<noteq> PiEnd"

definition following :: "ClientRun \<Rightarrow> bool" where
  "following c \<longleftrightarrow> cr_upPc c = UpReply \<or> cr_hkPc c \<noteq> HkEnd"

text \<open>The packets of the server that have arrived and are still to be handled.\<close>

definition inbox :: "ClientRun \<Rightarrow> Packet list" where
  "inbox c = ch_buf (gs_uplinkIn (cr_s c)) @
     (if reading c then (case cr_piPc c of PiPut pkt \<Rightarrow> [pkt] | _ \<Rightarrow> []) @ cr_rx c else [])"

text \<open>
  The client has handled \<open>m\<close> of the log packets that arrived; the rest is in the inbox, from which
  only the end can be missing.
\<close>

definition client_at :: "WalEntry list \<Rightarrow> ClientRun \<Rightarrow> nat \<Rightarrow> bool" where
  "client_at es c m \<longleftrightarrow> unat (cr_start c) + m \<le> length es \<and> client_log c = take (unat (cr_start c) + m) es \<and>
     m \<le> length (filter is_wal (cr_arrived c)) \<and>
     prefix (filter is_wal (inbox c)) (drop m (filter is_wal (cr_arrived c))) \<and>
     (reading c \<longrightarrow> filter is_wal (inbox c) = drop m (filter is_wal (cr_arrived c)))"

text \<open>Where the connection is, and what this says about its goroutines.\<close>

definition phase_ok :: "ClientRun \<Rightarrow> bool" where
  "phase_ok c \<longleftrightarrow> (cr_upPc c \<noteq> UpRun \<and> cr_upPc c \<noteq> UpWait \<longrightarrow> quiet c) \<and>
     (cr_upPc c = UpHello \<or> cr_upPc c = UpReply \<longrightarrow> ch_buf (gs_uplinkIn (cr_s c)) = []) \<and>
     (cr_upPc c = UpDrain \<or> cr_upPc c = UpHello \<longrightarrow> cr_tx c = [] \<and> cr_rx c = cr_arrived c) \<and>
     (cr_upPc c = UpReply \<or> cr_upPc c = UpRun \<or> cr_upPc c = UpWait \<longrightarrow> cr_tx c \<noteq> [])"

definition client_inv :: "WalEntry list \<Rightarrow> ClientRun \<Rightarrow> bool" where
  "client_inv es c \<longleftrightarrow> game_wf (cr_s c) \<and> wal_mem_inv (gs_wal (cr_s c)) \<and> prefix (client_log c) es \<and> phase_ok c \<and>
     (following c \<longrightarrow> set (inbox c) \<subseteq> set (cr_arrived c) \<and> (\<exists>m. client_at es c m))"

text \<open>What the server has written on a connection that asked for the log from \<open>start\<close>.\<close>

definition sent_ok :: "WalEntry list \<Rightarrow> u32 \<Rightarrow> Packet list \<Rightarrow> bool" where
  "sent_ok es start sent \<longleftrightarrow> (\<forall>pkt\<in>set sent. ack_ok es pkt) \<and>
     (\<exists>n. (n \<noteq> 0 \<longrightarrow> unat start + n \<le> length es) \<and> filter is_wal sent = wal_packets es start n)"

section \<open>Handlers of the client\<close>

lemma handleUplinkPacket_frame:
  assumes "handleUplinkPacket env s pkt = Some (s', r)"
  shows "gs_uplinkIn s' = gs_uplinkIn s" "gs_Info s' = gs_Info s" "gs_PlayerID s' = gs_PlayerID s"
    "gs_PlayerName s' = gs_PlayerName s" "gs_done s' = gs_done s"
  using assms
  by (auto simp: handleUplinkPacket_def ack_queue_key_def TrySend_def split: if_splits option.splits sum.splits prod.splits)

lemma handleUplinkPacket_other:
  assumes "handleUplinkPacket env s pkt = Some (s', r)" "\<not> is_wal pkt"
  shows "gs_wal s' = gs_wal s"
    and "gs_sendQ s' = gs_sendQ s \<or>
      pkt_Op pkt = OpWalAck \<and> gs_sendQ s' = map_option (\<lambda>q. Ack (ge_ack env) q (pkt_Data pkt)) (gs_sendQ s)"
  using assms
  by (auto simp: handleUplinkPacket_def ack_queue_key_def TrySend_def is_wal_def copy_array_def
      split: if_splits option.splits sum.splits prod.splits)

text \<open>An entry of the server: it is appended, and only then its key leaves the send queue.\<close>

lemma handleUplinkPacket_wal:
  assumes "handleUplinkPacket env s (wal_packet i e) = Some (s', r)" "wf_entry e"
  shows "gs_wal s' = fst (Append (ge_append env) (gs_wal s) e)"
    and "r = None \<Longrightarrow> snd (Append (ge_append env) (gs_wal s) e) = None \<and>
      gs_sendQ s' = map_option (\<lambda>q. Ack (ge_ack env) q (entry_key e)) (gs_sendQ s)"
    and "r \<noteq> None \<Longrightarrow> snd (Append (ge_append env) (gs_wal s) e) \<noteq> None \<and> gs_sendQ s' = gs_sendQ s"
proof -
  have "ParseServerWal (pkt_Data (wal_packet i e)) = Some (Inr \<lparr>sw_Index = i, sw_Entry = e\<rparr>)"
    using server_wal.parse_ser0 [of "\<lparr>sw_Index = i, sw_Entry = e\<rparr>"] assms(2)
    by (simp add: wal_packet_def wf_ServerWal_def)
  then have "handleUplinkPacket env s (wal_packet i e) =
      (case Append (ge_append env) (gs_wal s) e of
         (w, Some err) \<Rightarrow> Some (s\<lparr>gs_wal := w\<rparr>, Some (Wrapf ''failed to append WAL entry: %v'' err))
       | (w, None) \<Rightarrow> ack_queue_key env (s\<lparr>gs_wal := w\<rparr>) (entry_key e))"
    using assms(2) by (simp add: handleUplinkPacket_def DedupKey_ok wal_packet_def)
  with assms(1) show "gs_wal s' = fst (Append (ge_append env) (gs_wal s) e)"
    "r = None \<Longrightarrow> snd (Append (ge_append env) (gs_wal s) e) = None \<and>
      gs_sendQ s' = map_option (\<lambda>q. Ack (ge_ack env) q (entry_key e)) (gs_sendQ s)"
    "r \<noteq> None \<Longrightarrow> snd (Append (ge_append env) (gs_wal s) e) \<noteq> None \<and> gs_sendQ s' = gs_sendQ s"
    by (auto simp: ack_queue_key_def split: prod.splits option.splits)
qed

lemma handleWalIn_player:
  assumes "handleWalIn env s w = Some (s', r)"
  shows "gs_PlayerID s' = gs_PlayerID s" "gs_PlayerName s' = gs_PlayerName s"
    and "gs_sendQ s' = gs_sendQ s \<or> (\<exists>q k d. gs_sendQ s = Some q \<and> gs_sendQ s' = Some (fst (Add (ge_add env) q k d)))"
  using assms
  by (auto simp: handleWalIn_def newWalEntry_def TrySendUplink_def Let_def split: option.splits sum.splits if_splits) blast+

text \<open>What \<^const>\<open>handleMsg\<close> does to the session: it counts, and at most adds to the queue, sends, or moves.\<close>

lemma handleMsg_cases:
  assumes "handleMsg env s msg = Some (s', r)"
  obtains (count) n where "s' = s\<lparr>gs_SeqGame := n\<rparr>"
  | (report) n w r' where "handleWalIn env (s\<lparr>gs_SeqGame := n\<rparr>) w = Some (s', r')"
  | (move) n ps where "s' = s\<lparr>gs_SeqGame := n, gs_positions := ps\<rparr>"
proof -
  define n where "n = (if msg_Op msg = ipc_OpHello then gs_SeqGame s else gs_SeqGame s + 1)"
  have "s\<lparr>gs_SeqGame := gs_SeqGame s\<rparr> = s" by (cases s) simp
  then have n: "(if msg_Op msg = ipc_OpHello then (s, 0) else (s\<lparr>gs_SeqGame := gs_SeqGame s + 1\<rparr>, gs_SeqGame s)) =
      (s\<lparr>gs_SeqGame := n\<rparr>, if msg_Op msg = ipc_OpHello then 0 else gs_SeqGame s)"
    by (simp add: n_def)
  from assms have "s' = s\<lparr>gs_SeqGame := n\<rparr> \<or> (\<exists>w r'. handleWalIn env (s\<lparr>gs_SeqGame := n\<rparr>) w = Some (s', r')) \<or>
      (\<exists>ps. s' = s\<lparr>gs_SeqGame := n, gs_positions := ps\<rparr>)"
    unfolding handleMsg_def n Let_def prod.case by (auto split: if_splits option.splits sum.splits prod.splits)
  then show ?thesis using count report move by blast
qed

lemma handleMsg_frame:
  assumes "handleMsg env s msg = Some (s', r)"
  shows "gs_wal s' = gs_wal s \<and> gs_uplinkIn s' = gs_uplinkIn s \<and> gs_Info s' = gs_Info s \<and>
    gs_PlayerID s' = gs_PlayerID s \<and> gs_PlayerName s' = gs_PlayerName s \<and>
    (gs_sendQ s' = gs_sendQ s \<or> (\<exists>q k d. gs_sendQ s = Some q \<and> gs_sendQ s' = Some (fst (Add (ge_add env) q k d))))"
  using assms
proof (cases rule: handleMsg_cases)
  case (report n w r')
  from handleWalIn_frame [OF report] handleWalIn_player [OF report] show ?thesis by simp
qed simp_all

lemma queued_cong: "gs_sendQ s' = gs_sendQ s \<Longrightarrow> queued s' = queued s"
  by (simp add: queued_def)

lemma handleMsg_queued:
  assumes "handleMsg env s msg = Some (s', r)"
  shows "queued s \<subseteq> queued s'"
proof -
  from handleMsg_frame [OF assms] consider "gs_sendQ s' = gs_sendQ s"
    | q k d where "gs_sendQ s = Some q" "gs_sendQ s' = Some (fst (Add (ge_add env) q k d))" by blast
  then show ?thesis
  proof cases
    case 2
    with sq.add_keeps [of q "ge_add env" k d] show ?thesis by (simp add: queued_def)
  qed (simp add: queued_def)
qed

section \<open>What the steps of a client leave alone\<close>

text \<open>The game's side and the send queue never touch the log or the connection, and only add to the queue.\<close>

definition same_conn :: "ClientRun \<Rightarrow> ClientRun \<Rightarrow> bool" where
  "same_conn c c' \<longleftrightarrow> cr_upPc c' = cr_upPc c \<and> cr_piPc c' = cr_piPc c \<and> cr_poPc c' = cr_poPc c \<and>
     cr_noPc c' = cr_noPc c \<and> cr_hkPc c' = cr_hkPc c \<and> cr_conn c' = cr_conn c \<and> cr_rx c' = cr_rx c \<and>
     cr_tx c' = cr_tx c \<and> cr_arrived c' = cr_arrived c \<and> cr_start c' = cr_start c"

definition same_id :: "GameSession \<Rightarrow> GameSession \<Rightarrow> bool" where
  "same_id s s' \<longleftrightarrow> gs_Info s' = gs_Info s \<and> gs_PlayerID s' = gs_PlayerID s \<and> gs_PlayerName s' = gs_PlayerName s"

lemma TrySendUplink_player [simp]:
  "gs_PlayerID (TrySendUplink s pkt) = gs_PlayerID s" "gs_PlayerName (TrySendUplink s pkt) = gs_PlayerName s"
  by (simp_all add: TrySendUplink_def split: option.split)

lemma foldl_TrySendUplink_frame [simp]:
  "gs_sendQ (foldl TrySendUplink s pkts) = gs_sendQ s" "gs_wal (foldl TrySendUplink s pkts) = gs_wal s"
  "gs_uplinkIn (foldl TrySendUplink s pkts) = gs_uplinkIn s" "gs_Info (foldl TrySendUplink s pkts) = gs_Info s"
  "gs_PlayerID (foldl TrySendUplink s pkts) = gs_PlayerID s" "gs_PlayerName (foldl TrySendUplink s pkts) = gs_PlayerName s"
  by (induction pkts arbitrary: s) (auto simp: TrySendUplink_def split: option.split)

lemma game_step_frame:
  assumes "game_step c c'"
  shows "same_conn c c'" "gs_wal (cr_s c') = gs_wal (cr_s c)" "gs_uplinkIn (cr_s c') = gs_uplinkIn (cr_s c)"
    "same_id (cr_s c) (cr_s c')" "client_pending c \<subseteq> client_pending c'"
proof -
  have "same_conn c c' \<and> gs_wal (cr_s c') = gs_wal (cr_s c) \<and> gs_uplinkIn (cr_s c') = gs_uplinkIn (cr_s c) \<and>
    same_id (cr_s c) (cr_s c') \<and> client_pending c \<subseteq> client_pending c'"
    using assms
  proof cases
    case (lp_msg msg ch env s' nx)
    show ?thesis
      using lp_msg(1) handleMsg_frame [OF lp_msg(4)] handleMsg_queued [OF lp_msg(4)]
      by (simp add: same_conn_def same_id_def client_pending_def queued_def)
  next
    case (lp_err msg ch env s' err)
    show ?thesis
      using lp_err(1) handleMsg_frame [OF lp_err(4)] handleMsg_queued [OF lp_err(4)]
      by (simp add: same_conn_def same_id_def client_pending_def queued_def cancel_s_def upd_s_def)
  qed (auto simp: same_conn_def same_id_def client_pending_def queued_def cancel_s_def upd_s_def number_msg_def)
  then show "same_conn c c'" "gs_wal (cr_s c') = gs_wal (cr_s c)" "gs_uplinkIn (cr_s c') = gs_uplinkIn (cr_s c)"
    "same_id (cr_s c) (cr_s c')" "client_pending c \<subseteq> client_pending c'" by simp_all
qed

lemma queue_step_frame:
  assumes "queue_step c c'"
  shows "same_conn c c'" "gs_wal (cr_s c') = gs_wal (cr_s c)" "gs_uplinkIn (cr_s c') = gs_uplinkIn (cr_s c)"
    "same_id (cr_s c) (cr_s c')" "client_pending c' = client_pending c"
  using assms by (cases; simp add: same_conn_def same_id_def client_pending_def queued_def cancel_s_def upd_s_def)+

lemma client_inv_same:
  assumes "client_inv es c" "same_conn c c'" "gs_wal (cr_s c') = gs_wal (cr_s c)"
    "gs_uplinkIn (cr_s c') = gs_uplinkIn (cr_s c)" "same_id (cr_s c) (cr_s c')"
  shows "client_inv es c'"
proof -
  have eqs: "inbox c' = inbox c" "reading c' = reading c" "following c' = following c" "client_log c' = client_log c"
    "cr_start c' = cr_start c" "cr_arrived c' = cr_arrived c" "phase_ok c' = phase_ok c" "game_wf (cr_s c') = game_wf (cr_s c)"
    using assms(2-5) by (simp_all add: same_conn_def same_id_def inbox_def reading_def following_def client_log_def
        phase_ok_def quiet_def game_wf_def)
  then have "client_at es c' m = client_at es c m" for m by (simp add: client_at_def)
  with eqs assms(1,3) show ?thesis by (simp add: client_inv_def)
qed

section \<open>The connection keeps the invariant of a client\<close>

lemma prefix_filter: "prefix xs ys \<Longrightarrow> prefix (filter P xs) (filter P ys)"
  by (auto simp: prefix_def)

text \<open>The log packets that have arrived are entries of the log.\<close>

lemma arrived_nth:
  assumes "sent_ok es start sent" "prefix arr sent" "m < length (filter is_wal arr)"
  shows "filter is_wal arr ! m = wal_packet (start + of_nat m) (es ! (unat start + m))" "unat start + m < length es"
proof -
  from assms(1) obtain n where n: "n \<noteq> 0 \<longrightarrow> unat start + n \<le> length es" "filter is_wal sent = wal_packets es start n"
    by (auto simp: sent_ok_def)
  have pre: "prefix (filter is_wal arr) (filter is_wal sent)" using assms(2) by (rule prefix_filter)
  with assms(3) n have "m < n" using prefix_length_le by fastforce
  moreover from pre assms(3) have "filter is_wal arr ! m = filter is_wal sent ! m" by (auto simp: prefix_def nth_append)
  ultimately show "filter is_wal arr ! m = wal_packet (start + of_nat m) (es ! (unat start + m))" "unat start + m < length es"
    using n by (simp_all add: wal_packets_def)
qed

lemma arrived_ack:
  "sent_ok es start sent \<Longrightarrow> prefix arr sent \<Longrightarrow> pkt \<in> set arr \<Longrightarrow> ack_ok es pkt"
  by (meson sent_ok_def set_mono_prefix subsetD)

text \<open>A packet leaves the inbox, and if it is a log packet, its entry enters the log.\<close>

lemma client_at_pop:
  assumes "client_at es c m" "inbox c = pkt # inbox c'" "reading c' = reading c" "cr_start c' = cr_start c"
    "cr_arrived c' = cr_arrived c"
    and "client_log c' = (if is_wal pkt then take (unat (cr_start c) + Suc m) es else client_log c)"
    and "is_wal pkt \<Longrightarrow> unat (cr_start c) + m < length es"
  shows "client_at es c' (if is_wal pkt then Suc m else m)"
proof (cases "is_wal pkt")
  case True
  with assms(1,2) have "prefix (pkt # filter is_wal (inbox c')) (drop m (filter is_wal (cr_arrived c)))"
    "reading c \<longrightarrow> pkt # filter is_wal (inbox c') = drop m (filter is_wal (cr_arrived c))"
    by (simp_all add: client_at_def)
  moreover have "drop (Suc m) xs = tl (drop m xs)" for xs :: "Packet list" by (simp add: drop_Suc drop_tl)
  ultimately have "prefix (filter is_wal (inbox c')) (drop (Suc m) (filter is_wal (cr_arrived c)))"
    "reading c \<longrightarrow> filter is_wal (inbox c') = drop (Suc m) (filter is_wal (cr_arrived c))"
    "Suc m \<le> length (filter is_wal (cr_arrived c))"
    by (auto simp: prefix_def dest: sym) (metis Suc_leI drop_eq_Nil not_le neq_Nil_conv append_Cons)+
  with True assms(3-7) show ?thesis by (simp add: client_at_def)
next
  case False
  with assms show ?thesis by (simp add: client_at_def)
qed

text \<open>The next log packet in the inbox is the next entry of the log.\<close>

lemma next_in_inbox:
  assumes "client_at es c m" "sent_ok es (cr_start c) sent" "prefix (cr_arrived c) sent"
    and "inbox c = pkt # rest" "is_wal pkt"
  shows "pkt = wal_packet (cr_start c + of_nat m) (es ! (unat (cr_start c) + m))" "unat (cr_start c) + m < length es"
proof -
  from assms(1,4,5) obtain zs where zs: "drop m (filter is_wal (cr_arrived c)) = pkt # zs"
    by (auto simp: client_at_def prefix_def)
  then have m: "m < length (filter is_wal (cr_arrived c))" by (metis drop_eq_Nil list.discI not_le)
  with zs have "filter is_wal (cr_arrived c) ! m = pkt" by (metis Cons_nth_drop_Suc list.inject)
  with arrived_nth [OF assms(2,3) m]
  show "pkt = wal_packet (cr_start c + of_nat m) (es ! (unat (cr_start c) + m))" "unat (cr_start c) + m < length es"
    by simp_all
qed

text \<open>\<^verbatim>\<open>handlePackets\<close> handles the first packet of the inbox.\<close>

lemma hk_step_inv:
  assumes inv: "client_inv es c" and es: "distinct_keys es" "\<forall>e\<in>set es. wf_entry e"
    and sent: "sent_ok es (cr_start c) sent" "prefix (cr_arrived c) sent"
    and pc: "cr_hkPc c = HkWait" and recv: "chan_recv (gs_uplinkIn (cr_s c)) = Some (pkt, ch)"
    and h: "handleUplinkPacket env ((cr_s c)\<lparr>gs_uplinkIn := ch\<rparr>) pkt = Some (s', r)"
    and c': "c' = (if r = None then c\<lparr>cr_s := s', cr_hkPc := HkLoop\<rparr> else c\<lparr>cr_s := s', cr_hkPc := HkEnd, cr_upDone := True\<rparr>)"
  shows "client_inv es c'" "client_pending c \<subseteq> client_pending c' \<union> entry_key ` set es"
proof -
  let ?s = "(cr_s c)\<lparr>gs_uplinkIn := ch\<rparr>"
  have ph: "phase_ok c" and w: "wal_mem_inv (gs_wal (cr_s c))" and pre: "prefix (client_log c) es"
    using inv by (simp_all add: client_inv_def)
  have up: "cr_upPc c = UpRun \<or> cr_upPc c = UpWait" using ph pc by (auto simp: phase_ok_def quiet_def)
  obtain m where m: "client_at es c m" and sub: "set (inbox c) \<subseteq> set (cr_arrived c)"
    using inv pc by (auto simp: client_inv_def following_def)
  note fr = handleUplinkPacket_frame [OF h]
  have box: "inbox c = pkt # inbox c'" "reading c' = reading c"
    using chan.recv_items [OF recv] fr(1) c' up by (auto simp: inbox_def reading_def)
  have same: "cr_start c' = cr_start c" "cr_arrived c' = cr_arrived c" "cr_upPc c' = cr_upPc c" "cr_s c' = s'"
    "cr_piPc c' = cr_piPc c" "cr_poPc c' = cr_poPc c" "cr_noPc c' = cr_noPc c" "cr_tx c' = cr_tx c" "cr_rx c' = cr_rx c"
    using c' by simp_all
  have ph': "phase_ok c'" using ph up by (auto simp: phase_ok_def same quiet_def)
  have wf': "game_wf (cr_s c')" using inv fr by (simp add: client_inv_def game_wf_def same)
  have fol: "following c' \<Longrightarrow> r = None" using c' up by (auto simp: following_def split: if_splits)
  have ack: "ack_ok es pkt" using arrived_ack [OF sent] box(1) sub by simp
  show "client_inv es c'"
  proof (cases "is_wal pkt")
    case True
    let ?i = "unat (cr_start c) + m" let ?e = "es ! ?i"
    note nx = next_in_inbox [OF m sent box(1) True]
    have e: "wf_entry ?e" using nx(2) es(2) by simp
    have h': "handleUplinkPacket env ?s (wal_packet (cr_start c + of_nat m) ?e) = Some (s', r)" using h nx(1) by simp
    note hw = handleUplinkPacket_wal [OF h' e]
    have log: "client_log c = take ?i es" using m by (simp add: client_at_def)
    have w': "wal_mem_inv (gs_wal s')" using hw(1) wal_mem.append_inv [OF w e] by simp
    have log': "client_log c' = (if r = None then take (Suc ?i) es else take ?i es)"
      using hw wal_mem.append_entries [OF w e, of "ge_append env"] log_append_next [OF es(1) nx(2)] log
      by (auto simp: client_log_def same)
    then have "prefix (client_log c') es" by (simp add: take_is_prefix)
    moreover have "client_at es c' (Suc m)" if "r = None"
      using client_at_pop [OF m box same(1,2)] True nx(2) log' that by simp
    ultimately show ?thesis
      using wf' w' ph' sub box fol same by (auto simp: client_inv_def)
  next
    case False
    have "gs_wal s' = gs_wal (cr_s c)" using handleUplinkPacket_other(1) [OF h False] by simp
    then have "client_log c' = client_log c" "wal_mem_inv (gs_wal (cr_s c'))" using w by (simp_all add: client_log_def same)
    moreover have "client_at es c' m"
      using client_at_pop [OF m box same(1,2)] False calculation(1) by simp
    ultimately show ?thesis
      using wf' pre ph' sub box same by (auto simp: client_inv_def)
  qed
  show "client_pending c \<subseteq> client_pending c' \<union> entry_key ` set es"
  proof (cases "is_wal pkt")
    case True
    let ?e = "es ! (unat (cr_start c) + m)"
    note nx = next_in_inbox [OF m sent box(1) True]
    have e: "wf_entry ?e" using nx(2) es(2) by simp
    have h': "handleUplinkPacket env ?s (wal_packet (cr_start c + of_nat m) ?e) = Some (s', r)" using h nx(1) by simp
    note hw = handleUplinkPacket_wal [OF h' e]
    have "entry_key ?e \<in> entry_key ` set es" using nx(2) by simp
    with hw(2,3) show ?thesis
      by (cases r; cases "gs_sendQ (cr_s c)") (auto simp: client_pending_def queued_def same pending_Ack)
  next
    case False
    from handleUplinkPacket_other(2) [OF h False] ack show ?thesis
      by (cases "gs_sendQ (cr_s c)") (auto simp: client_pending_def queued_def same pending_Ack ack_ok_def)
  qed
qed

text \<open>Steps that leave the log alone and take at most the end of the inbox away.\<close>

lemma client_inv_cut:
  assumes "client_inv es c" "gs_wal (cr_s c') = gs_wal (cr_s c)" "same_id (cr_s c) (cr_s c')" "phase_ok c'"
    and "following c' \<Longrightarrow> following c \<and> cr_start c' = cr_start c \<and> cr_arrived c' = cr_arrived c \<and>
      (\<exists>ys. inbox c = inbox c' @ ys \<and> (reading c' \<longrightarrow> reading c \<and> ys = []))"
  shows "client_inv es c'"
proof -
  have "set (inbox c') \<subseteq> set (cr_arrived c') \<and> (\<exists>m. client_at es c' m)" if f: "following c'"
  proof -
    from assms(5) [OF f] obtain ys where ys: "following c" "cr_start c' = cr_start c" "cr_arrived c' = cr_arrived c"
      "inbox c = inbox c' @ ys" "reading c' \<longrightarrow> reading c \<and> ys = []" by blast
    with assms(1) obtain m where m: "client_at es c m" "set (inbox c) \<subseteq> set (cr_arrived c)" by (auto simp: client_inv_def)
    from m(1) ys have "client_at es c' m"
      using assms(2) by (auto simp: client_at_def client_log_def prefix_def)
    with m(2) ys show ?thesis by auto
  qed
  with assms show ?thesis
    by (simp add: client_inv_def client_log_def game_wf_def same_id_def)
qed

definition conn_frame :: "ClientRun \<Rightarrow> ClientRun \<Rightarrow> bool" where
  "conn_frame c c' \<longleftrightarrow> cr_conn c' = cr_conn c \<and> cr_arrived c' = cr_arrived c \<and> cr_upPc c' = cr_upPc c \<and>
     cr_start c' = cr_start c \<and> (cr_tx c = [] \<longrightarrow> cr_tx c' = [])"

lemma conn_step_active: "conn_step c c' \<Longrightarrow> phase_ok c \<Longrightarrow> cr_upPc c = UpRun \<or> cr_upPc c = UpWait"
  by (erule conn_step.cases) (auto simp: phase_ok_def quiet_def)

lemma conn_step_inv:
  assumes inv: "client_inv es c" and es: "distinct_keys es" "\<forall>e\<in>set es. wf_entry e"
    and sent: "sent_ok es (cr_start c) sent" "prefix (cr_arrived c) sent"
    and step: "conn_step c c'"
  shows "client_inv es c' \<and> client_pending c \<subseteq> client_pending c' \<union> entry_key ` set es \<and> conn_frame c c'"
proof -
  have ph: "phase_ok c" using inv by (simp add: client_inv_def)
  have up: "cr_upPc c = UpRun \<or> cr_upPc c = UpWait" using conn_step_active [OF step ph] .
  note simps = upd_s_def same_id_def client_pending_def queued_def conn_frame_def
  note boxes = inbox_def reading_def following_def
  show ?thesis
    using step
  proof cases
    case (pi_put pkt pick ch)
    then have "ch_buf ch = ch_buf (gs_uplinkIn (cr_s c)) @ [pkt]" by (auto elim: select_send_cases)
    with pi_put up ph show ?thesis
      by (intro conjI client_inv_cut [OF inv]) (auto simp: simps boxes phase_ok_def quiet_def)
  next
    case (hk_packet pkt ch env s')
    from hk_step_inv [OF inv es sent hk_packet(2-4), of c'] hk_packet(1) show ?thesis by (simp add: conn_frame_def)
  next
    case (hk_err pkt ch env s' err)
    from hk_step_inv [OF inv es sent hk_err(2-4), of c'] hk_err(1) show ?thesis by (simp add: conn_frame_def)
  next
    case (po_write pkt r bs)
    with up ph show ?thesis
      by (intro conjI client_inv_cut [OF inv]) (auto simp: simps boxes phase_ok_def quiet_def)
  qed (use up ph in \<open>intro conjI client_inv_cut [OF inv]; auto simp: simps boxes phase_ok_def quiet_def split: pi_pc.splits\<close>)+
qed

lemma handshake_not_wal: "handshake_reply pkt = Some None \<Longrightarrow> \<not> is_wal pkt"
  by (auto simp: handshake_reply_def is_wal_def split: if_splits)

lemma uplink_step_inv:
  assumes inv: "client_inv es c" and len: "length es < 2 ^ 32" and step: "uplink_step c c'"
  shows "client_inv es c' \<and> client_pending c' = client_pending c \<and> cr_conn c' = cr_conn c \<and> cr_arrived c' = cr_arrived c"
proof -
  have ph: "phase_ok c" using inv by (simp add: client_inv_def)
  note simps = upd_s_def same_id_def client_pending_def queued_def phase_ok_def quiet_def following_def
  show ?thesis
    using step
  proof cases
    case (up_hello r bs)
    have w: "wal_mem_inv (gs_wal (cr_s c))" and pre: "prefix (client_log c) es" using inv by (simp_all add: client_inv_def)
    have "length (client_log c) \<le> length es" using pre by (rule prefix_length_le)
    then have "unat (Count (gs_wal (cr_s c))) = length (client_log c)"
      using Count_spec [OF w] len by (simp add: client_log_def)
    moreover have "client_log c = take (length (client_log c)) es" using pre by (auto simp: prefix_def)
    moreover have "inbox c' = cr_arrived c" "reading c'" "cr_arrived c' = cr_arrived c" "cr_start c' = Count (gs_wal (cr_s c))"
      "client_log c' = client_log c"
      using up_hello ph by (auto simp: inbox_def reading_def phase_ok_def quiet_def client_log_def)
    ultimately have "client_at es c' 0" using \<open>length (client_log c) \<le> length es\<close> by (simp add: client_at_def)
    moreover have "phase_ok c'" using ph up_hello by (auto simp: phase_ok_def quiet_def)
    ultimately have "client_inv es c'"
      using inv \<open>inbox c' = cr_arrived c\<close> \<open>cr_arrived c' = cr_arrived c\<close> \<open>client_log c' = client_log c\<close> up_hello(1)
      by (auto simp: client_inv_def)
    with up_hello show ?thesis by (simp add: client_pending_def)
  next
    case (up_reply pkt rest)
    obtain m where m: "client_at es c m" "set (inbox c) \<subseteq> set (cr_arrived c)"
      using inv up_reply(2) by (auto simp: client_inv_def following_def)
    have box: "inbox c = pkt # inbox c'" "reading c' = reading c"
      using up_reply ph by (auto simp: inbox_def reading_def phase_ok_def quiet_def)
    have "client_at es c' m"
      using client_at_pop [OF m(1) box] handshake_not_wal [OF up_reply(4)] up_reply(1) by (simp add: client_log_def)
    moreover have "phase_ok c'" using ph up_reply by (auto simp: phase_ok_def quiet_def)
    ultimately have "client_inv es c'"
      using inv m(2) box(1) up_reply(1) by (auto simp: client_inv_def client_log_def)
    with up_reply show ?thesis by (simp add: client_pending_def)
  next
    case (up_drained)
    with ph chan.recv_blocks [of "gs_uplinkIn (cr_s c)"] show ?thesis
      by (intro conjI client_inv_cut [OF inv]) (auto simp: simps)
  qed (use ph in \<open>intro conjI client_inv_cut [OF inv]; auto simp: simps inbox_def reading_def split: if_splits\<close>)+
qed

end
