(* ===== verification/ClientSafety.thy ===== *)
theory ClientSafety
  imports Replication
begin

text \<open>
  What the goroutines of one client guarantee whatever the server sends: every packet it writes is
  one the server can parse, its channels stay within their capacities, and it panics on one message
  of the game only. Also the channels of the server's players, and that opening the files of a
  session always comes to an end.
\<close>

section \<open>Runs of one client\<close>

text \<open>The network is free: connections are made and packets arrive at any moment.\<close>

inductive client_reach :: "ClientRun \<Rightarrow> ClientRun \<Rightarrow> bool" for c where
  start: "client_reach c c"
| step: "client_reach c c1 \<Longrightarrow> client_step c1 c2 \<Longrightarrow> client_reach c c2"
| dial: "client_reach c c1 \<Longrightarrow> cr_upPc c1 = UpDial \<Longrightarrow> client_reach c (dialled n c1)"
| arrive: "client_reach c c1 \<Longrightarrow> client_reach c (arrived pkt c1)"

section \<open>What the client writes\<close>

text \<open>The packets that \<^verbatim>\<open>handleClient\<close> and \<^verbatim>\<open>handlePacket\<close> of the server accept.\<close>

definition server_accepts :: "Packet \<Rightarrow> bool" where
  "server_accepts pkt \<longleftrightarrow> pkt_Op pkt = OpNOP \<or>
     pkt_Op pkt = OpHello \<and> (\<exists>h. ParseClientHello (pkt_Data pkt) = Some (Inr h)) \<or>
     pkt_Op pkt = OpWal \<and> (\<exists>e. Parse (pkt_Data pkt) = Some (Inr e)) \<or>
     pkt_Op pkt = OpPosition \<and> (\<exists>p. ParseClientPosition (pkt_Data pkt) = Some (Inr p))"

definition out_ok :: "GameSession \<Rightarrow> bool" where
  "out_ok s \<longleftrightarrow> (\<forall>pkt\<in>set (ch_buf (gs_uplinkOut s)). server_accepts pkt)"

definition writes_ok :: "ClientRun \<Rightarrow> bool" where
  "writes_ok c \<longleftrightarrow> game_wf (cr_s c) \<and> out_ok (cr_s c) \<and> (\<forall>pkt. cr_poPc c = PoWrite pkt \<longrightarrow> server_accepts pkt) \<and>
     (\<forall>pkt\<in>set (cr_tx c). server_accepts pkt)"

lemma wf_client_hello: "game_wf s \<Longrightarrow> wf_ClientHello (client_hello_of s)"
  by (simp add: wf_ClientHello_def client_hello_of_def game_wf_def game_magic_def)

lemma hello_parsed:
  "game_wf s \<Longrightarrow> ParseClientHello (pkt_Data (hello_pkt s)) = Some (Inr (client_hello_of s))"
  using client_hello.parse_ser0 [OF wf_client_hello] by (simp add: hello_pkt_def)

lemma hello_accepted: "game_wf s \<Longrightarrow> server_accepts (hello_pkt s)"
  using hello_parsed [of s] by (simp add: server_accepts_def) (simp add: hello_pkt_def)

lemma nop_accepted: "server_accepts \<lparr>pkt_Op = OpNOP, pkt_Data = d\<rparr>"
  by (simp add: server_accepts_def)

lemma TrySendUplink_out:
  "out_ok s \<Longrightarrow> server_accepts pkt \<Longrightarrow> out_ok (TrySendUplink s pkt)"
  by (auto simp: out_ok_def TrySendUplink_def chan_send_def split: option.splits if_splits)

lemma foldl_TrySendUplink_out:
  "out_ok s \<Longrightarrow> \<forall>pkt\<in>set pkts. server_accepts pkt \<Longrightarrow> out_ok (foldl TrySendUplink s pkts)"
  by (induction pkts arbitrary: s) (auto intro: TrySendUplink_out)

lemma tick_accepted: "tick ord ps = (ps', pkts) \<Longrightarrow> \<forall>pkt\<in>set pkts. server_accepts pkt"
  using client_position.parse_ser0
  by (auto simp: tick_def sendSelfPos_def server_accepts_def Let_def split: if_splits)

lemma select_send_out:
  assumes "select_send d pick pkt (gs_uplinkOut s) = Some (ch, sent)" "out_ok s" "server_accepts pkt"
  shows "\<forall>p\<in>set (ch_buf ch). server_accepts p"
  using assms by (cases rule: select_send_cases) (auto simp: out_ok_def)

lemma handleWalIn_out:
  assumes "handleWalIn env s w = Some (s', r)" "out_ok s"
  shows "out_ok s'"
proof (cases "wal_in_entry env s w")
  case None
  with assms show ?thesis by (simp add: handleWalIn_def)
next
  case (Some x)
  show ?thesis
  proof (cases x)
    case (Inl err)
    with Some assms show ?thesis by (simp add: handleWalIn_def)
  next
    case (Inr e)
    with Some have e: "wf_entry e" using wal_in_entry_wf by blast
    then have "server_accepts \<lparr>pkt_Op = OpWal, pkt_Data = entry_bytes e\<rparr>"
      using wal_codec.parse_ser0 by (simp add: server_accepts_def)
    moreover obtain q where "gs_sendQ s = Some q"
      using assms(1) Some Inr e by (auto simp: handleWalIn_def newWalEntry_def Serialize_ok DedupKey_ok split: option.splits)
    moreover have "out_ok (s\<lparr>gs_sendQ := x\<rparr>) = out_ok s" for x by (simp add: out_ok_def)
    ultimately show ?thesis
      using assms Some Inr newWalEntry_ok [OF e, of s _ env]
      by (auto simp: handleWalIn_def intro!: TrySendUplink_out)
  qed
qed

lemma handleMsg_out:
  assumes "handleMsg env s msg = Some (s', r)" "out_ok s"
  shows "out_ok s'"
  using assms(1)
proof (cases rule: handleMsg_cases)
  case (report n w r')
  from handleWalIn_out [OF report] assms(2) show ?thesis by (simp add: out_ok_def)
qed (use assms(2) in \<open>simp_all add: out_ok_def\<close>)

lemma handleUplinkPacket_out:
  "handleUplinkPacket env s pkt = Some (s', r) \<Longrightarrow> gs_uplinkOut s' = gs_uplinkOut s"
  by (auto simp: handleUplinkPacket_def ack_queue_key_def TrySend_def split: if_splits option.splits sum.splits prod.splits)

lemma same_id_wf: "same_id s s' \<Longrightarrow> game_wf s' = game_wf s"
  by (simp add: same_id_def game_wf_def)

lemma game_step_writes:
  assumes "game_step c c'" "writes_ok c"
  shows "writes_ok c'"
proof -
  have o: "out_ok (cr_s c)" using assms(2) by (simp add: writes_ok_def)
  have "out_ok (cr_s c')"
    using assms(1)
  proof cases
    case (lp_msg msg ch env s' nx)
    with handleMsg_out [OF lp_msg(4)] o show ?thesis by (simp add: out_ok_def)
  next
    case (lp_err msg ch env s' err)
    with handleMsg_out [OF lp_err(4)] o show ?thesis by (simp add: out_ok_def cancel_s_def upd_s_def)
  next
    case (pos_tick ord ps pkts)
    have "out_ok ((cr_s c)\<lparr>gs_positions := ps\<rparr>)" using o by (simp add: out_ok_def)
    from foldl_TrySendUplink_out [OF this tick_accepted [OF pos_tick(3)]] pos_tick(1) show ?thesis by (simp add: upd_s_def)
  qed (use o in \<open>auto simp: out_ok_def cancel_s_def upd_s_def number_msg_def\<close>)
  then show ?thesis
    using assms(2) game_step_frame(1,4) [OF assms(1)] by (simp add: writes_ok_def same_conn_def same_id_wf)
qed

lemma queue_step_writes:
  assumes "queue_step c c'" "writes_ok c"
  shows "writes_ok c'"
proof -
  have o: "out_ok (cr_s c)" using assms(2) by (simp add: writes_ok_def)
  have "out_ok (cr_s c')"
    using assms(1)
  proof cases
    case (sq_put d ds e pick ch sent)
    then have "server_accepts \<lparr>pkt_Op = OpWal, pkt_Data = d\<rparr>" by (simp add: server_accepts_def)
    from select_send_out [OF sq_put(4) o this] sq_put(1) show ?thesis by (simp add: upd_s_def out_ok_def)
  qed (use o in \<open>auto simp: out_ok_def cancel_s_def upd_s_def\<close>)
  then show ?thesis
    using assms(2) queue_step_frame(1,4) [OF assms(1)] by (simp add: writes_ok_def same_conn_def same_id_wf)
qed

lemma uplink_step_writes:
  assumes "uplink_step c c'" "writes_ok c"
  shows "writes_ok c'"
  using assms
proof cases
  case (up_hello r bs)
  with assms(2) show ?thesis by (simp add: writes_ok_def hello_accepted)
next
  case (up_drain_out pkt ch)
  with chan.recv_items [OF up_drain_out(3)] assms(2) show ?thesis
    by (auto simp: writes_ok_def out_ok_def upd_s_def game_wf_def)
qed (use assms(2) in \<open>auto simp: writes_ok_def out_ok_def upd_s_def game_wf_def\<close>)

lemma conn_step_writes:
  assumes "conn_step c c'" "writes_ok c"
  shows "writes_ok c'"
  using assms
proof cases
  case (po_take pkt ch)
  with chan.recv_items [OF po_take(3)] assms(2) show ?thesis
    by (auto simp: writes_ok_def out_ok_def upd_s_def game_wf_def)
next
  case no_tick
  with assms(2) show ?thesis
    by (auto simp: writes_ok_def upd_s_def game_wf_def intro: TrySendUplink_out nop_accepted)
next
  case (hk_packet pkt ch env s')
  with handleUplinkPacket_frame [OF hk_packet(4)] handleUplinkPacket_out [OF hk_packet(4)] assms(2) show ?thesis
    by (simp add: writes_ok_def out_ok_def game_wf_def)
next
  case (hk_err pkt ch env s' err)
  with handleUplinkPacket_frame [OF hk_err(4)] handleUplinkPacket_out [OF hk_err(4)] assms(2) show ?thesis
    by (simp add: writes_ok_def out_ok_def game_wf_def)
qed (use assms(2) in \<open>auto simp: writes_ok_def out_ok_def upd_s_def game_wf_def\<close>)

lemma client_step_writes: "client_step c c' \<Longrightarrow> writes_ok c \<Longrightarrow> writes_ok c'"
  using game_step_writes queue_step_writes uplink_step_writes conn_step_writes by (blast elim: client_step.cases)

lemma network_writes: "writes_ok c \<Longrightarrow> writes_ok (dialled n c)" "writes_ok c \<Longrightarrow> writes_ok (arrived pkt c)"
  by (simp_all add: writes_ok_def dialled_def arrived_def)

lemma client_reach_writes: "client_reach c c' \<Longrightarrow> writes_ok c \<Longrightarrow> writes_ok c'"
  by (induction rule: client_reach.induct) (blast intro: client_step_writes network_writes)+

section \<open>Channels\<close>

definition within :: "nat \<Rightarrow> 'a chan \<Rightarrow> bool" where
  "within n ch \<longleftrightarrow> ch_cap ch = n \<and> length (ch_buf ch) \<le> n"

lemma within_send: "within n ch \<Longrightarrow> chan_send x ch = Some ch' \<Longrightarrow> within n ch'"
  by (auto simp: within_def chan_send_def split: if_splits)

lemma within_recv: "within n ch \<Longrightarrow> chan_recv ch = Some (x, ch') \<Longrightarrow> within n ch'"
  using chan.recv_items [of ch x ch'] by (simp add: within_def)

lemma within_select: "within n ch \<Longrightarrow> select_send d pick x ch = Some (ch', b) \<Longrightarrow> within n ch'"
  by (auto elim!: select_send_cases intro: within_send)

lemma within_try: "within n ch \<Longrightarrow> within n (try_send d pick x ch)"
  using try_send_bounded [of ch d pick x] by (simp add: within_def)

lemma within_make [simp]: "within n (make_chan n)"
  by (simp add: within_def)

definition chans_ok :: "GameSession \<Rightarrow> bool" where
  "chans_ok s \<longleftrightarrow> within 16 (gs_msgIn s) \<and> within 16 (gs_msgOut s) \<and> within 16 (gs_uplinkIn s) \<and> within 16 (gs_uplinkOut s)"

lemma chans_TrySendUplink: "chans_ok s \<Longrightarrow> chans_ok (TrySendUplink s pkt)"
  by (auto simp: chans_ok_def TrySendUplink_def split: option.splits intro: within_send)

lemma chans_foldl: "chans_ok s \<Longrightarrow> chans_ok (foldl TrySendUplink s pkts)"
  by (induction pkts arbitrary: s) (auto intro: chans_TrySendUplink)

lemma chans_handleWalIn:
  assumes "handleWalIn env s w = Some (s', r)" "chans_ok s"
  shows "chans_ok s'"
proof -
  have "chans_ok (s\<lparr>gs_sendQ := x\<rparr>) = chans_ok s" for x by (simp add: chans_ok_def)
  with assms show ?thesis
    by (auto simp: handleWalIn_def newWalEntry_def Let_def intro!: chans_TrySendUplink split: option.splits sum.splits)
qed

lemma chans_handleMsg:
  assumes "handleMsg env s msg = Some (s', r)" "chans_ok s"
  shows "chans_ok s'"
  using assms(1)
proof (cases rule: handleMsg_cases)
  case (report n w r')
  from chans_handleWalIn [OF report] assms(2) show ?thesis by (simp add: chans_ok_def)
qed (use assms(2) in \<open>simp_all add: chans_ok_def\<close>)

lemma chans_handleUplinkPacket:
  assumes "handleUplinkPacket env s pkt = Some (s', r)" "chans_ok s"
  shows "chans_ok s'"
  using assms
  by (auto simp: handleUplinkPacket_def ack_queue_key_def TrySend_def chans_ok_def within_try
      split: if_splits option.splits sum.splits prod.splits)

definition client_chans :: "ClientRun \<Rightarrow> bool" where
  "client_chans c \<longleftrightarrow> chans_ok (cr_s c) \<and> within 128 (cr_daemon c)"

lemmas chan_simps = client_chans_def chans_ok_def cancel_s_def upd_s_def number_msg_def

lemma game_step_chans:
  assumes "game_step c c'" "client_chans c"
  shows "client_chans c'"
  using assms
proof cases
  case (lp_msg msg ch env s' nx)
  have "chans_ok ((cr_s c)\<lparr>gs_msgIn := ch\<rparr>)" using assms(2) within_recv lp_msg(3) by (auto simp: chan_simps)
  with chans_handleMsg [OF lp_msg(4)] lp_msg(1) assms(2) show ?thesis by (simp add: client_chans_def)
next
  case (lp_err msg ch env s' err)
  have "chans_ok ((cr_s c)\<lparr>gs_msgIn := ch\<rparr>)" using assms(2) within_recv lp_err(3) by (auto simp: chan_simps)
  with chans_handleMsg [OF lp_err(4)] lp_err(1) assms(2) show ?thesis by (simp add: chan_simps)
next
  case (pos_tick ord ps pkts)
  have "chans_ok ((cr_s c)\<lparr>gs_positions := ps\<rparr>)" using assms(2) by (simp add: chan_simps)
  from chans_foldl [OF this] pos_tick(1) assms(2) show ?thesis by (simp add: client_chans_def upd_s_def)
qed (use assms(2) in \<open>auto simp: chan_simps intro: within_recv within_send within_select\<close>)

lemma conn_step_chans:
  assumes "conn_step c c'" "client_chans c"
  shows "client_chans c'"
  using assms
proof cases
  case (hk_packet pkt ch env s')
  have "chans_ok ((cr_s c)\<lparr>gs_uplinkIn := ch\<rparr>)" using assms(2) within_recv hk_packet(3) by (auto simp: chan_simps)
  with chans_handleUplinkPacket [OF hk_packet(4)] hk_packet(1) assms(2) show ?thesis by (simp add: client_chans_def)
next
  case (hk_err pkt ch env s' err)
  have "chans_ok ((cr_s c)\<lparr>gs_uplinkIn := ch\<rparr>)" using assms(2) within_recv hk_err(3) by (auto simp: chan_simps)
  with chans_handleUplinkPacket [OF hk_err(4)] hk_err(1) assms(2) show ?thesis by (simp add: client_chans_def)
next
  case no_tick
  with assms(2) chans_TrySendUplink show ?thesis by (simp add: client_chans_def upd_s_def)
qed (use assms(2) in \<open>auto simp: chan_simps intro: within_recv within_send within_select\<close>)

lemma client_step_chans:
  assumes "client_step c c'" "client_chans c"
  shows "client_chans c'"
  using assms(1)
proof cases
  case queue
  then show ?thesis
    by (cases rule: queue_step.cases) (use assms(2) in \<open>auto simp: chan_simps intro: within_select\<close>)
next
  case uplink
  then show ?thesis
    by (cases rule: uplink_step.cases) (use assms(2) in \<open>auto simp: chan_simps intro: within_recv\<close>)
qed (use assms(2) game_step_chans conn_step_chans in blast)+

lemma network_chans: "client_chans c \<Longrightarrow> client_chans (dialled n c)" "client_chans c \<Longrightarrow> client_chans (arrived pkt c)"
  by (simp_all add: client_chans_def dialled_def arrived_def)

lemma client_reach_chans: "client_reach c c' \<Longrightarrow> client_chans c \<Longrightarrow> client_chans c'"
  by (induction rule: client_reach.induct) (blast intro: client_step_chans network_chans)+

text \<open>The players of the server.\<close>

definition player_chans :: "PlayerRun \<Rightarrow> bool" where
  "player_chans p \<longleftrightarrow> within 64 (p_in p) \<and> within 64 (p_out p)"

lemma player_step_chans: "player_step w p p' \<Longrightarrow> player_chans p \<Longrightarrow> player_chans p'"
  by (erule player_step.cases)
    (auto simp: player_chans_def dest: stream_body_frame(1) intro: within_recv within_select)

lemma handlePacket_chans:
  assumes "handlePacket env s pid pkt = Some (s', r)" "s_players s pid = Some q"
    and "\<forall>n p. s_players s n = Some p \<longrightarrow> player_chans p" "s_players s' n = Some p'"
  shows "player_chans p'"
proof (cases rule: handlePacket_cases [of env s pid pkt])
  case (position pos)
  with assms(1) have s': "s' = handlePositionUpdate env s pid pos" by simp
  show ?thesis
  proof (cases "n = pid")
    case True
    with assms s' show ?thesis by (auto simp: handlePositionUpdate_frame(2) player_chans_def)
  next
    case False
    with assms s' show ?thesis
      by (auto simp: handlePositionUpdate_frame(3) [OF assms(2) False] player_chans_def within_try)
  qed
qed (use assms in auto)

lemma session_step_chans:
  assumes "session_step s s'" "\<forall>n p. s_players s n = Some p \<longrightarrow> player_chans p"
  shows "\<forall>n p. s_players s' n = Some p \<longrightarrow> player_chans p"
  using assms(1)
proof cases
  case (local pid p p')
  with assms(2) player_step_chans [OF local(4)] show ?thesis by auto
next
  case (packet pid p pkt c env s1 r)
  let ?s = "s\<lparr>s_players := (s_players s)(pid \<mapsto> p\<lparr>p_in := c\<rparr>)\<rparr>"
  have "player_chans (p\<lparr>p_in := c\<rparr>)" using assms(2) packet(2) within_recv [OF _ packet(5)] by (auto simp: player_chans_def)
  then have "\<forall>n p. s_players ?s n = Some p \<longrightarrow> player_chans p" using assms(2) by auto
  from handlePacket_chans [OF packet(6) _ this] packet(1,2) show ?thesis
    by (fastforce simp: after_packet_def upd_player_def player_chans_def split: if_splits sum.splits option.splits)
next
  case (hello pid p out)
  with assms(2) show ?thesis
    by (auto simp: Join_hello_def upd_player_def player_chans_def split: prod.splits option.splits if_splits)
qed (use assms(2) in \<open>auto simp: Join_leave_def player_chans_def split: if_splits\<close>)

lemma session_reach_chans:
  assumes "session_reach s0 s" "s_players s0 = Map.empty"
  shows "\<forall>n p. s_players s n = Some p \<longrightarrow> player_chans p"
  using assms
proof (induction rule: session_reach.induct)
  case (step t u)
  then show ?case using session_step_chans by blast
next
  case (enter t pid PlayerID PlayerName worldID walIndex)
  then show ?case by (simp add: Join_enter_def new_player_def) (simp add: player_chans_def)
next
  case (close t)
  then show ?case by (auto simp: Session_Close_def player_chans_def)
qed simp

section \<open>Panics\<close>

lemma OnServerPos_no_panic:
  assumes "ParseServerPosition d = Some (Inr m)"
  shows "OnServerPos ps m \<noteq> None"
proof -
  have "length (sp_ID m) = 16" using server_position.parse_wf [OF assms] by (simp add: wf_ServerPosition_def)
  then have "slice (sp_ID m) 0 2 = Some (take 2 (sp_ID m))" "length (take 2 (sp_ID m)) = 2" by (simp_all add: slice_def)
  moreover from this(2) have "BE_Uint16 (take 2 (sp_ID m)) \<noteq> None" by (intro be16.get_total) simp
  ultimately show ?thesis by (auto simp: OnServerPos_def Let_def split: prod.split)
qed

lemma handleUplinkPacket_no_panic:
  assumes "gs_sendQ s \<noteq> None"
  shows "handleUplinkPacket env s pkt \<noteq> None"
proof -
  consider (wal) "pkt_Op pkt = OpWal" | (pos) "pkt_Op pkt = OpPosition"
    | (other) "pkt_Op pkt \<noteq> OpWal" "pkt_Op pkt \<noteq> OpPosition" by blast
  then show ?thesis
  proof cases
    case wal
    with assms server_wal.parse_no_panic [of "pkt_Data pkt"] show ?thesis
      by (auto simp: handleUplinkPacket_def ack_queue_key_def split: option.splits sum.splits prod.splits)
  next
    case pos
    with server_position.parse_no_panic [of "pkt_Data pkt"] OnServerPos_no_panic [of "pkt_Data pkt" _ "gs_positions s"]
    show ?thesis by (auto simp: handleUplinkPacket_def split: option.splits sum.splits prod.splits)
  next
    case other
    with assms show ?thesis by (auto simp: handleUplinkPacket_def ack_queue_key_def split: option.splits)
  qed
qed

lemma handleWalIn_no_panic: "gs_sendQ s \<noteq> None \<Longrightarrow> handleWalIn env s w \<noteq> None"
  using wal_in_entry_no_panic [of env s w]
  by (auto simp: handleWalIn_def newWalEntry_def Let_def split: option.splits sum.splits)

definition expected_seq :: "GameSession \<Rightarrow> Message \<Rightarrow> u32" where
  "expected_seq s msg = (if msg_Op msg = ipc_OpHello then 0 else gs_SeqGame s)"

lemma handleMsg_panic_iff:
  assumes "in_Mode (gs_Info s) \<noteq> InfoModeSingle \<longrightarrow> gs_sendQ s \<noteq> None"
  shows "handleMsg env s msg = None \<longleftrightarrow>
    msg_Seq msg = expected_seq s msg \<and> msg_Op msg = ipc_OpInfoItem \<and> length (msg_Payload msg) = 6"
proof -
  let ?s = "s\<lparr>gs_SeqGame := gs_SeqGame s + 1\<rparr>" and ?d = "msg_Payload msg"
  show ?thesis
  proof (cases "msg_Seq msg = expected_seq s msg")
    case False
    then show ?thesis by (auto simp: handleMsg_def expected_seq_def)
  next
    case True
    consider (item) "msg_Op msg = ipc_OpInfoItem" | (wal) "msg_Op msg = ipc_OpWal" | (query) "msg_Op msg = ipc_OpWalQuery"
      | (pos) "msg_Op msg = ipc_OpPosition" | (entrance) "msg_Op msg = ipc_OpInfoEntrance"
      | (other) "msg_Op msg \<notin> {ipc_OpInfoItem, ipc_OpWal, ipc_OpWalQuery, ipc_OpPosition, ipc_OpInfoEntrance}" by blast
    then show ?thesis
    proof cases
      case item
      with True InfoItem_panic [of ?d] show ?thesis
        by (cases "ParseMessageBodyInfoItem ?d") (auto simp: handleMsg_def expected_seq_def ipc_opcode_defs split: sum.split)
    next
      case wal
      have "handleWalIn env ?s w \<noteq> None" if "in_Mode (gs_Info s) \<noteq> InfoModeSingle" for w
        using handleWalIn_no_panic [of ?s] assms that by simp
      with True wal WalIn_no_panic [of ?d] show ?thesis
        by (cases "ParseMessageBodyWalIn ?d")
          (auto simp: handleMsg_def expected_seq_def ipc_opcode_defs split: sum.split option.split, metis option.distinct(1))
    next
      case query
      with True be32.get_total [of ?d] show ?thesis
        by (cases "length ?d < 4") (auto simp: handleMsg_def expected_seq_def ipc_opcode_defs split: option.split)
    next
      case pos
      with True PositionIn_no_panic [of ?d] show ?thesis
        by (cases "ParseMessageBodyPositionIn ?d") (auto simp: handleMsg_def expected_seq_def ipc_opcode_defs split: sum.split)
    next
      case entrance
      with True InfoEntrance_no_panic [of ?d] show ?thesis
        by (cases "ParseMessageBodyInfoEntrance ?d") (auto simp: handleMsg_def expected_seq_def ipc_opcode_defs split: sum.split)
    next
      case other
      with True show ?thesis by (simp add: handleMsg_def expected_seq_def)
    qed
  qed
qed

text \<open>The send queue of a session stays.\<close>

definition has_queue :: "ClientRun \<Rightarrow> bool" where
  "has_queue c \<longleftrightarrow> gs_sendQ (cr_s c) \<noteq> None"

lemma handleUplinkPacket_queue:
  "handleUplinkPacket env s pkt = Some (s', r) \<Longrightarrow> gs_sendQ s \<noteq> None \<Longrightarrow> gs_sendQ s' \<noteq> None"
  by (auto simp: handleUplinkPacket_def ack_queue_key_def TrySend_def split: if_splits option.splits sum.splits prod.splits)

lemma handleMsg_queue: "handleMsg env s msg = Some (s', r) \<Longrightarrow> gs_sendQ s \<noteq> None \<Longrightarrow> gs_sendQ s' \<noteq> None"
  using handleMsg_frame by fastforce

lemma client_step_queue:
  assumes "client_step c c'" "has_queue c"
  shows "has_queue c'"
  using assms(1)
proof cases
  case game
  then show ?thesis
  proof cases
    case (lp_msg msg ch env s' nx)
    with handleMsg_queue [OF lp_msg(4)] assms(2) show ?thesis by (simp add: has_queue_def)
  next
    case (lp_err msg ch env s' err)
    with handleMsg_queue [OF lp_err(4)] assms(2) show ?thesis by (simp add: has_queue_def cancel_s_def upd_s_def)
  qed (use assms(2) in \<open>auto simp: has_queue_def cancel_s_def upd_s_def number_msg_def\<close>)
next
  case queue
  then show ?thesis
    by (cases rule: queue_step.cases) (use assms(2) in \<open>auto simp: has_queue_def cancel_s_def upd_s_def\<close>)
next
  case uplink
  then show ?thesis
    by (cases rule: uplink_step.cases) (use assms(2) in \<open>auto simp: has_queue_def upd_s_def\<close>)
next
  case conn
  then show ?thesis
  proof cases
    case (hk_packet pkt ch env s')
    with handleUplinkPacket_queue [OF hk_packet(4)] assms(2) show ?thesis by (simp add: has_queue_def)
  next
    case (hk_err pkt ch env s' err)
    with handleUplinkPacket_queue [OF hk_err(4)] assms(2) show ?thesis by (simp add: has_queue_def)
  qed (use assms(2) in \<open>auto simp: has_queue_def upd_s_def\<close>)
qed

lemma network_queue: "has_queue c \<Longrightarrow> has_queue (dialled n c)" "has_queue c \<Longrightarrow> has_queue (arrived pkt c)"
  by (simp_all add: has_queue_def dialled_def arrived_def)

lemma client_reach_queue: "client_reach c c' \<Longrightarrow> has_queue c \<Longrightarrow> has_queue c'"
  by (induction rule: client_reach.induct) (blast intro: client_step_queue network_queue)+

section \<open>Files\<close>

lemma read_full_length: "read_full n fin bs = Inr (x, rest) \<Longrightarrow> length x = n"
  by (auto simp: read_full_Inr)

lemma load_loop_returns: "load_loop fin w bs \<noteq> None"
proof (induction fin w bs rule: load_loop.induct)
  case (1 fin w bs)
  have len: "LE_Uint32 x \<noteq> None" if "read_full 4 fin bs = Inr (x, rest)" for x rest
    by (rule le32.get_total) (simp add: read_full_length [OF that])
  show ?case
    by (subst load_loop.simps)
      (auto split: sum.splits prod.splits option.splits dest: len simp: wal_codec.parse_no_panic, metis "1.IH" not_None_eq)
qed

lemma loadSendQueue_returns: "loadSendQueue fin sq bs \<noteq> None"
proof (induction fin sq bs rule: loadSendQueue.induct)
  case (1 fin sq bs)
  have len: "LE_Uint32 x \<noteq> None" if "read_full 4 fin bs1 = Inr (x, rest)" for x rest bs1
    by (rule le32.get_total) (simp add: read_full_length [OF that])
  show ?case
    by (subst loadSendQueue.simps) (auto split: sum.splits prod.splits option.splits dest: len, metis "1.IH" not_None_eq)
qed

section \<open>A session that has been opened\<close>

lemma Run_open_fields:
  assumes "Run_open io dir info hello = Some (Inr (s, m))"
  shows "gs_msgIn s = make_chan 16" "gs_msgOut s = make_chan 16" "gs_uplinkIn s = make_chan 16" "gs_uplinkOut s = make_chan 16"
    "in_Mode (gs_Info s) \<noteq> InfoModeSingle \<longrightarrow> gs_sendQ s \<noteq> None" "gs_Info s = info"
    "gs_PlayerID s = hi_PlayerID hello" "gs_PlayerName s = hi_PlayerName hello"
  using assms by (auto simp: Run_open_def Let_def split: if_splits option.splits sum.splits bind_splits)

definition wf_start :: "Info \<Rightarrow> MessageBodyHelloIn \<Rightarrow> bool" where
  "wf_start info hello \<longleftrightarrow> length (in_SessionID info) = 16 \<and> length (in_SessionSecret info) = 8 \<and>
     length (hi_PlayerID hello) = 16 \<and> length (hi_PlayerName hello) = 8"

lemma Run_open_wf: "Run_open io dir info hello = Some (Inr (s, m)) \<Longrightarrow> wf_start info hello \<Longrightarrow> game_wf s"
  using Run_open_fields(6-8) by (simp add: game_wf_def wf_start_def)

definition example_run_io :: run_io where
  "example_run_io = \<lparr>ri_mkdir = None, ri_sendq = Inr [], ri_sendq_fin = EOF, ri_wal = Inr [], ri_wal_fin = EOF, ri_rand = []\<rparr>"

definition example_hello_in :: MessageBodyHelloIn where
  "example_hello_in = \<lparr>hi_Magic = game_magic, hi_SessionID = replicate 16 7, hi_SessionSecret = replicate 8 9,
     hi_PlayerID = replicate 16 1, hi_PlayerName = replicate 8 65, hi_WorldID = 1\<rparr>"

lemma example_start: "wf_start example_info example_hello_in"
  by (simp add: wf_start_def example_info_def example_hello_in_def)

lemma example_run_open: "\<exists>s m. Run_open example_run_io ''d'' example_info example_hello_in = Some (Inr (s, m))"
proof -
  have "OpenSendQueue (Inr []) EOF \<noteq> None" "OpenWAL (Inr []) EOF \<noteq> None"
    and q: "\<exists>q. OpenSendQueue (Inr []) EOF = Some (Inr q)" and w: "\<exists>w. OpenWAL (Inr []) EOF = Some (Inr w)"
    using OpenSendQueue_records [of "[]"] OpenWAL_records [of "[]"] by simp_all
  moreover have "\<exists>p. makeDataDir None ''d'' (replicate 16 7) = Some (Inr p)"
    using session_path_16 [of "replicate 16 7" "''d''"] by (simp add: makeDataDir_def)
  moreover have "LE_Uint32 (take 4 (copy_array 8 [])) \<noteq> None" "LE_Uint32 (drop 4 (copy_array 8 [])) \<noteq> None"
    by (intro le32.get_total; simp add: copy_array_def)+
  ultimately show ?thesis
    by (auto simp: Run_open_def example_run_io_def example_info_def example_hello_in_def Let_def)
qed

text \<open>The run in which a client has written its hello.\<close>

lemma hello_pkt_sent:
  assumes "game_wf s"
  shows "\<exists>bs. SendRaw WrOk (hello_pkt s) = (bs, None)"
proof -
  have "wf_ClientHello (client_hello_of s)" using assms by (rule wf_client_hello)
  then have "length (ClientHello_Serialize (client_hello_of s)) \<le> 65535"
    by (simp add: ClientHello_bytes put_lengths) (simp add: wf_ClientHello_def)
  then show ?thesis by (simp add: SendRaw_def hello_pkt_def Let_def)
qed

lemma example_hello_run:
  assumes o: "Run_open example_run_io ''d'' example_info example_hello_in = Some (Inr (s, m))"
  shows "\<exists>c. client_reach (Run_start s m (make_chan 128)) c \<and> cr_tx c = [hello_pkt s]"
proof -
  let ?c0 = "Run_start s m (make_chan 128)" let ?c1 = "?c0\<lparr>cr_upPc := UpDial\<rparr>" let ?c2 = "dialled 0 ?c1"
  let ?c3 = "?c2\<lparr>cr_upPc := UpHello\<rparr>"
  let ?c4 = "?c3\<lparr>cr_upPc := UpReply, cr_tx := [hello_pkt s], cr_start := Count (gs_wal s)\<rparr>"
  note f = Run_open_fields [OF o]
  have d: "\<not> gs_done s" using o by (auto simp: Run_open_def Let_def split: if_splits option.splits sum.splits bind_splits)
  have pc: "cr_upPc ?c0 = UpLoop" "cr_s ?c0 = s" using f(6) by (simp_all add: Run_start_def example_info_def)
  have "uplink_step ?c0 ?c1" using uplink_step.up_loop [of ?c0] pc d by simp
  then have 1: "client_reach ?c0 ?c1" by (intro client_reach.step [OF client_reach.start] client_step.uplink)
  then have 2: "client_reach ?c0 ?c2" by (rule client_reach.dial) simp
  have "uplink_step ?c2 ?c3" by (rule uplink_step.up_drained) (simp_all add: dialled_def pc f chan_recv_def)
  with 2 have 3: "client_reach ?c0 ?c3" by (intro client_reach.step [OF 2] client_step.uplink)
  obtain bs where "SendRaw WrOk (hello_pkt s) = (bs, None)" using hello_pkt_sent Run_open_wf [OF o example_start] by blast
  then have "uplink_step ?c3 ?c4" using uplink_step.up_hello [of ?c3 WrOk bs] pc by (simp add: dialled_def)
  then have "client_reach ?c0 ?c4" by (intro client_reach.step [OF 3] client_step.uplink)
  then show ?thesis by (intro exI [of _ ?c4]) simp
qed

section \<open>Properties\<close>

text \<open>C34: A client writes to the server only packets that the server can parse: whatever the game, the
  server and the network do, every packet a client has written on its connection is a keep-alive, a
  hello, an entry or a position with a well-formed body.\<close>

theorem client_packets_parse:
  assumes "Run_open io dir info hello = Some (Inr (s, m))" "wf_start info hello"
    and "client_reach (Run_start s m daemon) c" "pkt \<in> set (cr_tx c)"
  shows "server_accepts pkt"
proof -
  have "writes_ok (Run_start s m daemon)"
    using Run_open_fields(4) [OF assms(1)] Run_open_wf [OF assms(1,2)] by (simp add: writes_ok_def out_ok_def Run_start_def)
  from client_reach_writes [OF assms(3) this] assms(4) show ?thesis by (simp add: writes_ok_def)
qed

theorem client_packets_parse_witness:
  "\<exists>s m c pkt. Run_open example_run_io ''d'' example_info example_hello_in = Some (Inr (s, m)) \<and>
     client_reach (Run_start s m (make_chan 128)) c \<and> cr_tx c = [pkt] \<and> pkt_Op pkt = OpHello \<and> server_accepts pkt"
proof -
  obtain s m where o: "Run_open example_run_io ''d'' example_info example_hello_in = Some (Inr (s, m))" using example_run_open by blast
  obtain c where c: "client_reach (Run_start s m (make_chan 128)) c" "cr_tx c = [hello_pkt s]"
    using example_hello_run [OF o] by blast
  from client_packets_parse [OF o example_start c(1)] c(2) have "server_accepts (hello_pkt s)" by simp
  with o c show ?thesis by (fastforce simp: hello_pkt_def)
qed



text \<open>C35: A client in a session with a server never panics on a packet of the server, and panics on a
  message of the game exactly when it is an INFO_ITEM message with the expected sequence number and a
  body of six bytes.\<close>

theorem client_panics_exactly:
  assumes "Run_open io dir info hello = Some (Inr (s0, m))" "in_Mode info \<noteq> InfoModeSingle"
    and "client_reach (Run_start s0 m daemon) c"
  shows "handleUplinkPacket env (cr_s c) pkt \<noteq> None \<and>
    (handleMsg env (cr_s c) msg = None \<longleftrightarrow>
      msg_Seq msg = expected_seq (cr_s c) msg \<and> msg_Op msg = ipc_OpInfoItem \<and> length (msg_Payload msg) = 6)"
proof -
  have "has_queue (Run_start s0 m daemon)"
    using Run_open_fields(5,6) [OF assms(1)] assms(2) by (simp add: has_queue_def Run_start_def)
  from client_reach_queue [OF assms(3) this] have "gs_sendQ (cr_s c) \<noteq> None" by (simp add: has_queue_def)
  then show ?thesis using handleUplinkPacket_no_panic handleMsg_panic_iff by blast
qed

theorem client_panics_exactly_witness:
  "\<exists>s m. Run_open example_run_io ''d'' example_info example_hello_in = Some (Inr (s, m)) \<and>
     handleMsg example_gs_env s \<lparr>msg_Seq = gs_SeqGame s, msg_Op = ipc_OpInfoItem, msg_Payload = [0, 0, 0, 0, 0, 0]\<rparr> = None \<and>
     handleMsg example_gs_env s \<lparr>msg_Seq = gs_SeqGame s, msg_Op = ipc_OpInfoItem, msg_Payload = [0, 0, 0, 0, 0, 0, 0]\<rparr> \<noteq> None"
proof -
  obtain s m where o: "Run_open example_run_io ''d'' example_info example_hello_in = Some (Inr (s, m))" using example_run_open by blast
  have "in_Mode example_info \<noteq> InfoModeSingle" by (simp add: example_info_def)
  from client_panics_exactly [OF o this client_reach.start]
  have "handleMsg env s msg = None \<longleftrightarrow>
      msg_Seq msg = expected_seq s msg \<and> msg_Op msg = ipc_OpInfoItem \<and> length (msg_Payload msg) = 6" for env msg
    by (simp add: Run_start_def)
  with o show ?thesis by (simp add: expected_seq_def ipc_opcode_defs del: not_None_eq)
qed

text \<open>C37: Opening the files of a session always comes to an end with a log and a queue or an error, whatever
  bytes the files hold and however reading them ends; it never panics.\<close>

theorem open_files_return:
  "(\<exists>r. OpenWAL opened fin = Some r) \<and> (\<exists>r. OpenSendQueue opened fin = Some r)"
proof -
  have "OpenWAL opened fin \<noteq> None"
    by (auto simp: OpenWAL_def wal_load_def load_loop_returns split: sum.split option.split)
  moreover have "OpenSendQueue opened fin \<noteq> None"
    by (auto simp: OpenSendQueue_def loadSendQueue_returns split: sum.split option.split)
  ultimately show ?thesis by auto
qed

end
