(* ===== verification/ServerPlayers.thy ===== *)
theory ServerPlayers
  imports ServerApp
begin

text \<open>
  Who plays in the sessions of the server: the clients of \<open>ServerApp\<close> against the players of
  \<open>ServerSession\<close>. Shown: every player of a session is a connected client that announced this session with
  its secret, under the identity it announced, and what the session promises its players (only stored
  entries are acknowledged, the log comes in order from the index of the hello on) holds for all players
  of all sessions of a server, however they come and go.
\<close>

section \<open>What a player keeps\<close>

text \<open>
  \<open>p\<close> is \<open>q\<close> at a later time: what \<^verbatim>\<open>Join\<close> took from the hello stays, and what was written to the player
  only grows.
\<close>

definition later_player :: "PlayerRun \<Rightarrow> PlayerRun \<Rightarrow> bool" where
  "later_player p q \<longleftrightarrow> p_ID p = p_ID q \<and> p_Name p = p_Name q \<and> p_WorldID p = p_WorldID q \<and> pr_start p = pr_start q \<and>
     prefix (pr_sent q) (pr_sent p)"

definition announced :: "ClientHello \<Rightarrow> PlayerRun \<Rightarrow> bool" where
  "announced h p \<longleftrightarrow> p_ID p = ch_PlayerID h \<and> p_Name p = ch_PlayerName h \<and> p_WorldID p = ch_WorldID h \<and>
     pr_start p = ch_WalIndex h"

lemma announced_later: "later_player p q \<Longrightarrow> announced h p \<longleftrightarrow> announced h q"
  by (simp add: later_player_def announced_def)

lemma later_player_refl [simp]: "later_player p p"
  by (simp add: later_player_def)

lemma later_player_trans: "later_player p q \<Longrightarrow> later_player q r \<Longrightarrow> later_player p r"
  by (auto simp: later_player_def)

lemma stream_body_later: "stream_body p e i = (p', r) \<Longrightarrow> later_player p' p"
  by (auto simp: stream_body_def Let_def later_player_def split: if_splits sum.splits)

lemma player_step_later: "player_step w p p' \<Longrightarrow> later_player p' p"
  by (induction rule: player_step.cases) (auto simp: later_player_def dest!: stream_body_later)

text \<open>The players after a step are players before it.\<close>

definition players_from :: "Session \<Rightarrow> Session \<Rightarrow> bool" where
  "players_from s s' \<longleftrightarrow> (\<forall>c p'. s_players s' c = Some p' \<longrightarrow> (\<exists>p. s_players s c = Some p \<and> later_player p' p))"

lemma players_from_refl: "s_players s' = s_players s \<Longrightarrow> players_from s s'"
  by (auto simp: players_from_def)

lemma players_from_trans: "players_from s t \<Longrightarrow> players_from t u \<Longrightarrow> players_from s u"
  unfolding players_from_def using later_player_trans by blast

lemma players_from_upd: "\<forall>p. later_player (f p) p \<Longrightarrow> players_from s (upd_player s pid f)"
  by (auto simp: players_from_def upd_player_def later_player_def)

lemma handlePositionUpdate_players: "players_from s (handlePositionUpdate env s pid pos)"
proof -
  let ?s = "handlePositionUpdate env s pid pos"
  show ?thesis unfolding players_from_def
  proof (intro allI impI)
    fix c p' assume p': "s_players ?s c = Some p'"
    show "\<exists>p. s_players s c = Some p \<and> later_player p' p"
    proof (cases "s_players s pid")
      case None
      with p' show ?thesis by (auto simp: handlePositionUpdate_def)
    next
      case (Some p)
      with p' handlePositionUpdate_frame(2) [of env s pid pos] handlePositionUpdate_frame(3) [OF Some, of c env pos]
      show ?thesis by (cases "c = pid") (auto simp: later_player_def)
    qed
  qed
qed

lemma handlePacket_from: "handlePacket env s pid pkt = Some (s', r) \<Longrightarrow> players_from s s'"
  by (cases rule: handlePacket_cases [of env s pid pkt]) (auto intro: players_from_refl handlePositionUpdate_players)

lemma session_step_from: "session_step s s' \<Longrightarrow> players_from s s'"
proof (induction rule: session_step.cases)
  case (local s pid p p')
  with player_step_later [OF local(5)] show ?case by (auto simp: players_from_def)
next
  case (packet s pid p pkt c env s1 r)
  let ?s = "s\<lparr>s_players := (s_players s)(pid \<mapsto> p\<lparr>p_in := c\<rparr>)\<rparr>"
  have "players_from s ?s" using packet(3) by (auto simp: players_from_def later_player_def)
  moreover have "players_from ?s s1" by (rule handlePacket_from [OF packet(7)])
  moreover have "players_from s1 (after_packet s1 pid r)"
    unfolding after_packet_def by (rule players_from_upd) (auto simp: later_player_def split: sum.split option.split)
  ultimately show ?case using packet(1,2) players_from_trans by blast
next
  case (hello s pid p out)
  have "players_from s (upd_player s pid (\<lambda>p. p\<lparr>pr_started := True, pr_sent := pr_sent p @ [hello_packet]\<rparr>))"
    by (rule players_from_upd) (simp add: later_player_def)
  with hello(1,2) show ?case by (auto simp: Join_hello_def players_from_def split: prod.split option.split)
qed (auto simp: players_from_def Join_leave_def later_player_def)

section \<open>Players are clients\<close>

definition joined_ok :: "server \<Rightarrow> bool" where
  "joined_ok sv \<longleftrightarrow> (\<forall>sid appS c p. app_sessions (sv_app sv) sid = Some appS \<longrightarrow> s_players (as_session appS) c = Some p \<longrightarrow>
     (\<exists>h. sv_clients sv c = Some (CJoined h) \<and> ch_SessionID h = sid \<and> announced h p))"

lemma joined_okD:
  "joined_ok sv \<Longrightarrow> app_sessions (sv_app sv) sid = Some appS \<Longrightarrow> s_players (as_session appS) c = Some p \<Longrightarrow>
   \<exists>h. sv_clients sv c = Some (CJoined h) \<and> ch_SessionID h = sid \<and> announced h p"
  unfolding joined_ok_def by blast

text \<open>
  A step is fine when the sessions it leaves have players of before and it does not touch the clients
  that have joined.
\<close>

lemma joined_ok_step:
  assumes "joined_ok sv"
    and "\<And>sid appS' c p'. app_sessions (sv_app sv') sid = Some appS' \<Longrightarrow> s_players (as_session appS') c = Some p' \<Longrightarrow>
      \<exists>appS p. app_sessions (sv_app sv) sid = Some appS \<and> s_players (as_session appS) c = Some p \<and> later_player p' p \<and>
        sv_clients sv' c = sv_clients sv c"
  shows "joined_ok sv'"
  unfolding joined_ok_def
proof (intro allI impI)
  fix sid appS' c p' assume "app_sessions (sv_app sv') sid = Some appS'" "s_players (as_session appS') c = Some p'"
  from assms(2) [OF this] obtain appS p where p: "app_sessions (sv_app sv) sid = Some appS"
    "s_players (as_session appS) c = Some p" "later_player p' p" "sv_clients sv' c = sv_clients sv c" by blast
  from joined_okD [OF assms(1) p(1,2)] p(3,4) announced_later
  show "\<exists>h. sv_clients sv' c = Some (CJoined h) \<and> ch_SessionID h = sid \<and> announced h p'" by fastforce
qed

lemma upd_session_joined:
  assumes "joined_ok sv" "app_sessions (sv_app sv) sid = Some appS" "players_from (the_session sv appS) s"
  shows "joined_ok (upd_session sv sid appS s)"
proof (rule joined_ok_step [OF assms(1)])
  fix sid' appS' c p'
  assume a: "app_sessions (sv_app (upd_session sv sid appS s)) sid' = Some appS'" "s_players (as_session appS') c = Some p'"
  show "\<exists>appS0 p. app_sessions (sv_app sv) sid' = Some appS0 \<and> s_players (as_session appS0) c = Some p \<and>
      later_player p' p \<and> sv_clients (upd_session sv sid appS s) c = sv_clients sv c"
  proof (cases "sid' = sid")
    case True
    with a assms(2,3) show ?thesis by (auto simp: upd_session_def players_from_def)
  next
    case False
    with a show ?thesis by (auto simp: upd_session_def)
  qed
qed

text \<open>A session that has just been opened has no players, and one that is acquired keeps its players.\<close>

lemma acquireSession_players:
  assumes "acquireSession io app sid sec = Some (app', r)" "app_sessions app' sid' = Some appS'" "s_players (as_session appS') c = Some p"
  shows "\<exists>appS. app_sessions app sid' = Some appS \<and> s_players (as_session appS) c = Some p"
  using assms by (auto simp: acquireSession_def Let_def opened_no_players split: option.splits if_splits sum.splits)

lemma releaseSession_players:
  assumes "app_sessions (fst (releaseSession app sid)) sid' = Some appS'" "s_players (as_session appS') c = Some p"
  shows "\<exists>appS. app_sessions app sid' = Some appS \<and> s_players (as_session appS) c = Some p"
  using assms by (auto simp: releaseSession_def Let_def split: option.splits if_splits)

lemma hello_sessions:
  assumes "handleClient_hello io app recv = Some (app', r)" "app_sessions app' sid = Some appS'" "s_players (as_session appS') c = Some p"
  shows "\<exists>appS. app_sessions app sid = Some appS \<and> s_players (as_session appS) c = Some p"
  using assms by (auto simp: handleClient_hello_def split: sum.splits if_splits option.splits dest: acquireSession_players)

lemma server_step_joined:
  assumes "server_step marshal sv sv'" "joined_ok sv"
  shows "joined_ok sv'"
  using assms(1)
proof cases
  case (hello c io recv app r)
  show ?thesis
  proof (rule joined_ok_step [OF assms(2)])
    fix sid appS' d p' assume a: "app_sessions (sv_app sv') sid = Some appS'" "s_players (as_session appS') d = Some p'"
    then obtain appS where appS: "app_sessions (sv_app sv) sid = Some appS" "s_players (as_session appS) d = Some p'"
      using hello_sessions [OF hello(3), of sid appS' d p'] hello(1) by auto
    moreover have "d \<noteq> c" using joined_okD [OF assms(2) appS] hello(2) by auto
    ultimately show "\<exists>appS p. app_sessions (sv_app sv) sid = Some appS \<and> s_players (as_session appS) d = Some p \<and>
        later_player p' p \<and> sv_clients sv' d = sv_clients sv d"
      using hello(1) by auto
  qed
next
  case (enter c h appS)
  let ?s = "Join_enter (the_session sv appS) c (ch_PlayerID h) (ch_PlayerName h) (ch_WorldID h) (ch_WalIndex h)"
  show ?thesis unfolding joined_ok_def
  proof (intro allI impI)
    fix sid appS' d p'
    assume a: "app_sessions (sv_app sv') sid = Some appS'" "s_players (as_session appS') d = Some p'"
    show "\<exists>h'. sv_clients sv' d = Some (CJoined h') \<and> ch_SessionID h' = sid \<and> announced h' p'"
    proof (cases "sid = ch_SessionID h \<and> d = c")
      case True
      with a enter(1) show ?thesis by (auto simp: upd_session_def Join_enter_def new_player_def announced_def)
    next
      case False
      with a enter(1,3) obtain appS0 where 0: "app_sessions (sv_app sv) sid = Some appS0" "s_players (as_session appS0) d = Some p'"
        by (auto simp: upd_session_def Join_enter_def split: if_splits)
      moreover from joined_okD [OF assms(2) 0] enter(2) have "d \<noteq> c" by auto
      ultimately show ?thesis using joined_okD [OF assms(2) 0] enter(1) by auto
    qed
  qed
next
  case (session sid appS s)
  then show ?thesis using upd_session_joined [OF assms(2) session(2) session_step_from [OF session(3)]] by simp
next
  case (release c h appS)
  show ?thesis
  proof (rule joined_ok_step [OF assms(2)])
    fix sid appS' d p' assume a: "app_sessions (sv_app sv') sid = Some appS'" "s_players (as_session appS') d = Some p'"
    then obtain appS0 where 0: "app_sessions (sv_app sv) sid = Some appS0" "s_players (as_session appS0) d = Some p'"
      using releaseSession_players release(1) by fastforce
    from joined_okD [OF assms(2) 0] release(2-4) 0 have "d \<noteq> c" by auto
    with 0 release(1) show "\<exists>appS p. app_sessions (sv_app sv) sid = Some appS \<and> s_players (as_session appS) d = Some p \<and>
        later_player p' p \<and> sv_clients sv' d = sv_clients sv d" by auto
  qed
next
  case (shutdown sid appS)
  have "players_from (the_session sv appS) (cancel_session (the_session sv appS))"
    by (auto simp: players_from_def cancel_session_def later_player_def)
  with upd_session_joined [OF assms(2) shutdown(2)] shutdown(1) show ?thesis by simp
next
  case (connect c)
  show ?thesis
  proof (rule joined_ok_step [OF assms(2)])
    fix sid appS d p assume a: "app_sessions (sv_app sv') sid = Some appS" "s_players (as_session appS) d = Some p"
    with connect have "d \<noteq> c" using joined_okD [OF assms(2), of sid appS d p] by auto
    with a connect(1) show "\<exists>appS p'. app_sessions (sv_app sv) sid = Some appS \<and> s_players (as_session appS) d = Some p' \<and>
        later_player p p' \<and> sv_clients sv' d = sv_clients sv d" by auto
  qed
qed (use assms(2) in \<open>auto simp: joined_ok_def\<close>)

lemma server_reach_joined: "server_reach marshal dataDir sink sv \<Longrightarrow> joined_ok sv"
  by (induction rule: server_reach.induct) (simp add: joined_ok_def server_init_def, rule server_step_joined)

section \<open>Properties\<close>

text \<open>C23: Whatever clients connect, join and leave, in whatever order, and whatever sessions the server has
  open: every player of a session is a client that is connected, announced this session and its secret,
  and plays under the identity it announced; every acknowledgement it was sent is for an entry in the log
  of this session, and the log packets it was sent are the entries of this log from the index it
  announced on, in order and without gaps.\<close>

theorem server_players_served:
  assumes "server_reach marshal dataDir sink sv" "app_sessions (sv_app sv) sid = Some appS"
    and "s_players (as_session appS) c = Some p" "length (wal_entries (s_wal (as_session appS))) < 2 ^ 32"
  shows "\<exists>h n. sv_clients sv c = Some (CJoined h) \<and> ch_SessionID h = sid \<and>
    ch_SessionSecret h = s_Secret (as_session appS) \<and> announced h p \<and>
    (\<forall>pkt\<in>set (pr_sent p). pkt_Op pkt = OpWalAck \<longrightarrow>
      (\<exists>e\<in>set (wal_entries (s_wal (as_session appS))). DedupKey e = Inr (pkt_Data pkt))) \<and>
    filter is_wal (pr_sent p) = wal_packets (wal_entries (s_wal (as_session appS))) (ch_WalIndex h) n"
proof -
  let ?es = "wal_entries (s_wal (as_session appS))"
  have inv: "server_inv sv" by (rule server_reach_inv [OF assms(1)])
  then have ok: "session_ok sv sid appS" using assms(2) by (simp add: server_inv_def)
  obtain h where h: "sv_clients sv c = Some (CJoined h)" "ch_SessionID h = sid" "announced h p"
    using joined_okD [OF server_reach_joined [OF assms(1)] assms(2,3)] by blast
  have "uses sv c h" using h(1) by (simp add: uses_def)
  with ok h(2) have "ch_SessionSecret h = s_Secret (as_session appS)" by (auto simp: session_ok_def)
  moreover have "player_inv ?es p" "wal_mem_inv (s_wal (as_session appS))"
    using ok assms(3) by (auto simp: session_ok_def session_inv_def)
  then have "stream_inv ?es p" "acks_inv ?es p" "\<forall>e\<in>set ?es. wf_entry e"
    using assms(4) by (auto simp: player_inv_def wal_mem_inv_def)
  moreover from this(1) obtain n m where "filter is_wal (pr_sent p) = wal_packets ?es (pr_start p) m"
    unfolding stream_inv_def stream_at_def pipe_def by (metis stream_shrink)
  moreover have "\<exists>e\<in>set ?es. DedupKey e = Inr (pkt_Data pkt)" if "pkt \<in> set (pr_sent p)" "pkt_Op pkt = OpWalAck" for pkt
    using that \<open>acks_inv ?es p\<close> \<open>\<forall>e\<in>set ?es. wf_entry e\<close> DedupKey_ok by (fastforce simp: acks_inv_def outgoing_def ack_ok_def)
  moreover have "pr_start p = ch_WalIndex h" using h(3) by (simp add: announced_def)
  ultimately show ?thesis using h by metis
qed

theorem server_players_served_witness:
  "\<exists>sv appS p h n. server_reach (\<lambda>_. Inr []) ''d'' SinkNull sv \<and> app_sessions (sv_app sv) (replicate 16 7) = Some appS \<and>
     s_players (as_session appS) 0 = Some p \<and> sv_clients sv 0 = Some (CJoined h) \<and>
     ch_SessionSecret h = s_Secret (as_session appS) \<and> announced h p \<and>
     filter is_wal (pr_sent p) = wal_packets (wal_entries (s_wal (as_session appS))) (ch_WalIndex h) n"
proof -
  let ?h = "example_hello 1" and ?sid = "replicate 16 7 :: bytes"
  let ?appS = "\<lparr>as_session = example_session [], as_count = 2\<rparr>"
  let ?s = "Join_enter (the_session example_server ?appS) 0 (ch_PlayerID ?h) (ch_PlayerName ?h) (ch_WorldID ?h) (ch_WalIndex ?h)"
  let ?sv = "(upd_session example_server ?sid ?appS ?s)\<lparr>sv_clients := (sv_clients example_server)(0 \<mapsto> CJoined ?h)\<rparr>"
  have "ch_SessionID ?h = ?sid" by (simp add: example_hello_def)
  then have "server_step (\<lambda>_. Inr []) example_server ?sv"
    using server_step.enter [of example_server 0 ?h ?appS "\<lambda>_. Inr []"] by (simp add: example_server_def)
  then have r: "server_reach (\<lambda>_. Inr []) ''d'' SinkNull ?sv" by (rule server_reach.step [OF example_server_reach])
  have a: "app_sessions (sv_app ?sv) ?sid = Some (?appS\<lparr>as_session := ?s\<rparr>)"
    by (simp add: upd_session_def example_server_def)
  have len: "length (wal_entries (s_wal (as_session (?appS\<lparr>as_session := ?s\<rparr>)))) < 2 ^ 32"
    by (simp add: Join_enter_def example_session_def reopened_def)
  obtain p where p: "s_players (as_session (?appS\<lparr>as_session := ?s\<rparr>)) 0 = Some p" by (simp add: Join_enter_def)
  from server_players_served [OF r a p len] r a p show ?thesis by blast
qed

end
