(* ===== verification/World.thy ===== *)
theory World
  imports ClientSafety ServerPlayers
begin

text \<open>
  The system as a whole. A world is a session of the server, the clients, and for every connection
  the hello that a client has written and the server has not read, and all packets the server has
  written. Connections are numbered and never reused; the number of a connection is the address of
  its \<^verbatim>\<open>Player\<close> on the server.
\<close>

section \<open>State and steps\<close>

record world =
  w_server :: Session
  w_clients :: "nat \<rightharpoonup> ClientRun"
  w_used :: "nat set"
  w_hello :: "nat \<rightharpoonup> Packet"
  w_sent :: "nat \<Rightarrow> Packet list"

definition server_log :: "world \<Rightarrow> WalEntry list" where
  "server_log w = wal_entries (s_wal (w_server w))"

text \<open>The server has become \<open>s\<close>; what is written on a connection stays written.\<close>

definition set_server :: "Session \<Rightarrow> world \<Rightarrow> world" where
  "set_server s w = w\<lparr>w_server := s,
     w_sent := (\<lambda>n. case s_players s n of Some p \<Rightarrow> pr_sent p | None \<Rightarrow> w_sent w n)\<rparr>"

text \<open>The first packet a client writes on its connection is on its way to \<^verbatim>\<open>handleClient\<close>.\<close>

definition set_client :: "nat \<Rightarrow> ClientRun \<Rightarrow> ClientRun \<Rightarrow> world \<Rightarrow> world" where
  "set_client k c c' w = w\<lparr>w_clients := (w_clients w)(k \<mapsto> c'),
     w_hello := (if cr_tx c = [] \<and> cr_tx c' \<noteq> [] then (w_hello w)(cr_conn c' \<mapsto> hd (cr_tx c')) else w_hello w)\<rparr>"

text \<open>A connection that both ends have.\<close>

definition linked :: "ClientRun \<Rightarrow> bool" where
  "linked c \<longleftrightarrow> cr_upPc c \<in> {UpDrain, UpHello, UpReply, UpRun, UpWait}"

text \<open>The files of a client and of the server hold what is in memory.\<close>

definition wal_on_disk :: "WAL \<Rightarrow> bool" where
  "wal_on_disk w \<longleftrightarrow> f_bytes (wal_file w) = concat (map wal_record (wal_entries w))"

text \<open>
  The steps: the goroutines of the server run; somebody else joins the session; the server accepts
  the hello of a client; the session is closed; the server is started again and opens the session
  from its file; a client takes a step, dials, or receives the next packet; a client is started
  again and opens its files.
\<close>

inductive world_step :: "world \<Rightarrow> world \<Rightarrow> bool" where
  server: "session_step (w_server w) s \<Longrightarrow> world_step w (set_server s w)"
| join: "n \<notin> w_used w \<Longrightarrow> s = Join_enter (w_server w) n PlayerID PlayerName worldID walIndex \<Longrightarrow>
    world_step w (set_server s (w\<lparr>w_used := insert n (w_used w)\<rparr>))"
| accept: "w_hello w n = Some pkt \<Longrightarrow> pkt_Op pkt = OpHello \<Longrightarrow> ParseClientHello (pkt_Data pkt) = Some (Inr h) \<Longrightarrow>
    ch_SessionID h = s_ID (w_server w) \<Longrightarrow> ch_SessionSecret h = s_Secret (w_server w) \<Longrightarrow>
    s = Join_enter (w_server w) n (ch_PlayerID h) (ch_PlayerName h) (ch_WorldID h) (ch_WalIndex h) \<Longrightarrow>
    world_step w (set_server s (w\<lparr>w_hello := (w_hello w)(n := None)\<rparr>))"
| close: "world_step w (set_server (Session_Close (w_server w)) w)"
| reopen: "wal_on_disk (s_wal (w_server w)) \<Longrightarrow>
    OpenSession None (Inr (f_bytes (wal_file (s_wal (w_server w))))) EOF dir (s_ID (w_server w)) (s_Secret (w_server w)) sink =
      Some (Inr s) \<Longrightarrow> world_step w (set_server s w)"
| client: "w_clients w k = Some c \<Longrightarrow> client_step c c' \<Longrightarrow> world_step w (set_client k c c' w)"
| dial: "w_clients w k = Some c \<Longrightarrow> cr_upPc c = UpDial \<Longrightarrow> n \<notin> w_used w \<Longrightarrow>
    world_step w (w\<lparr>w_used := insert n (w_used w), w_clients := (w_clients w)(k \<mapsto> dialled n c)\<rparr>)"
| deliver: "w_clients w k = Some c \<Longrightarrow> linked c \<Longrightarrow> w_sent w (cr_conn c) = cr_arrived c @ pkt # rest \<Longrightarrow>
    world_step w (w\<lparr>w_clients := (w_clients w)(k \<mapsto> arrived pkt c)\<rparr>)"
| restart: "w_clients w k = Some c \<Longrightarrow> gs_sendQ (cr_s c) = Some q \<Longrightarrow> sq_inv q \<Longrightarrow> wal_on_disk (gs_wal (cr_s c)) \<Longrightarrow>
    ri_sendq io = Inr (f_bytes (sq_file q)) \<Longrightarrow> ri_sendq_fin io = EOF \<Longrightarrow>
    ri_wal io = Inr (f_bytes (wal_file (gs_wal (cr_s c)))) \<Longrightarrow> ri_wal_fin io = EOF \<Longrightarrow>
    in_Mode info \<noteq> InfoModeSingle \<Longrightarrow> Run_open io dir info hello = Some (Inr (s, helloOut)) \<Longrightarrow> game_wf s \<Longrightarrow>
    world_step w (w\<lparr>w_clients := (w_clients w)(k \<mapsto> Run_start s helloOut daemon)\<rparr>)"

text \<open>
  The beginning: the session is open, its log without duplicates, nobody is connected, and every
  client has opened its files, the log being an earlier state of the server's (empty, for a new
  client).
\<close>

definition world_init :: "world \<Rightarrow> bool" where
  "world_init w \<longleftrightarrow> session_inv (w_server w) \<and> distinct_keys (server_log w) \<and> s_players (w_server w) = Map.empty \<and>
     w_used w = {} \<and> w_hello w = Map.empty \<and> w_sent w = (\<lambda>_. []) \<and>
     (\<forall>k c. w_clients w k = Some c \<longrightarrow> (\<exists>s m d. c = Run_start s m d \<and> game_wf s \<and> wal_mem_inv (gs_wal s) \<and>
       prefix (wal_entries (gs_wal s)) (server_log w)))"

inductive world_reach :: "world \<Rightarrow> world \<Rightarrow> bool" for w where
  start: "world_reach w w"
| step: "world_reach w w1 \<Longrightarrow> world_step w1 w2 \<Longrightarrow> world_reach w w2"

section \<open>Invariant\<close>

text \<open>The bookkeeping of connections.\<close>

definition conns_inv :: "world \<Rightarrow> bool" where
  "conns_inv w \<longleftrightarrow>
     (\<forall>n p. s_players (w_server w) n = Some p \<longrightarrow> w_sent w n = pr_sent p \<and> n \<in> w_used w \<and> w_hello w n = None) \<and>
     (\<forall>n. n \<notin> w_used w \<longrightarrow> w_sent w n = [] \<and> w_hello w n = None) \<and>
     (\<forall>n. w_hello w n \<noteq> None \<longrightarrow> w_sent w n = [])"

text \<open>The server knows connection \<open>n\<close>, if at all, as one that asked for the log from \<open>start\<close>.\<close>

definition start_ok :: "world \<Rightarrow> nat \<Rightarrow> u32 \<Rightarrow> bool" where
  "start_ok w n start \<longleftrightarrow> sent_ok (server_log w) start (w_sent w n) \<and>
     (\<forall>p. s_players (w_server w) n = Some p \<longrightarrow> pr_start p = start) \<and>
     (\<forall>pkt. w_hello w n = Some pkt \<longrightarrow> (\<exists>h. ParseClientHello (pkt_Data pkt) = Some (Inr h) \<and> ch_WalIndex h = start))"

definition unused_conn :: "world \<Rightarrow> nat \<Rightarrow> bool" where
  "unused_conn w n \<longleftrightarrow> w_sent w n = [] \<and> s_players (w_server w) n = None \<and> w_hello w n = None"

definition link_ok :: "world \<Rightarrow> ClientRun \<Rightarrow> bool" where
  "link_ok w c \<longleftrightarrow> (linked c \<longrightarrow> cr_conn c \<in> w_used w \<and> prefix (cr_arrived c) (w_sent w (cr_conn c)) \<and>
     (if cr_tx c = [] then unused_conn w (cr_conn c) else start_ok w (cr_conn c) (cr_start c)))"

text \<open>No two clients share a connection.\<close>

definition links_apart :: "(nat \<rightharpoonup> ClientRun) \<Rightarrow> bool" where
  "links_apart cl \<longleftrightarrow> (\<forall>k k' c c'. k \<noteq> k' \<and> cl k = Some c \<and> cl k' = Some c' \<and> linked c \<and> linked c' \<longrightarrow>
     cr_conn c \<noteq> cr_conn c')"

definition world_inv :: "world \<Rightarrow> bool" where
  "world_inv w \<longleftrightarrow> session_inv (w_server w) \<and> distinct_keys (server_log w) \<and> conns_inv w \<and>
     (\<forall>k c. w_clients w k = Some c \<longrightarrow> client_inv (server_log w) c \<and> link_ok w c) \<and> links_apart (w_clients w)"

section \<open>Logs grow\<close>

lemma sent_ok_mono: "sent_ok es start sent \<Longrightarrow> prefix es es' \<Longrightarrow> sent_ok es' start sent"
proof -
  assume "sent_ok es start sent" and pre: "prefix es es'"
  then obtain n where n: "n \<noteq> 0 \<longrightarrow> unat start + n \<le> length es" "filter is_wal sent = wal_packets es start n"
    and acks: "\<forall>pkt\<in>set sent. ack_ok es pkt" by (auto simp: sent_ok_def)
  from acks have "\<forall>pkt\<in>set sent. ack_ok es' pkt"
    using set_mono_prefix [OF pre] unfolding ack_ok_def by blast
  moreover have "filter is_wal sent = wal_packets es' start n" using n wal_packets_mono [OF pre] by simp
  moreover have "n \<noteq> 0 \<longrightarrow> unat start + n \<le> length es'" using n prefix_length_le [OF pre] by auto
  ultimately show ?thesis by (auto simp: sent_ok_def)
qed

lemma client_inv_mono:
  assumes "client_inv es c" "prefix es es'"
  shows "client_inv es' c"
proof -
  have "client_at es' c m" if "client_at es c m" for m
    using that assms(2) by (auto simp: client_at_def prefix_def)
  moreover have "prefix (client_log c) es'"
    using assms prefix_order.trans by (auto simp: client_inv_def)
  ultimately show ?thesis using assms(1) unfolding client_inv_def by blast
qed

lemma player_sent_ok:
  assumes "player_inv es p" "length es < 2 ^ 32"
  shows "sent_ok es (pr_start p) (pr_sent p)"
proof -
  from assms obtain n where n: "stream_at es p n" by (auto simp: player_inv_def stream_inv_def)
  then obtain m where "m \<le> n" "filter is_wal (pr_sent p) = wal_packets es (pr_start p) m"
    unfolding stream_at_def pipe_def by (metis stream_shrink)
  moreover have "\<forall>pkt\<in>set (pr_sent p). ack_ok es pkt"
    using assms(1) by (simp add: player_inv_def acks_inv_def outgoing_def)
  ultimately show ?thesis using n by (auto simp: sent_ok_def stream_at_def intro!: exI [of _ m])
qed

section \<open>Steps of the server\<close>

lemma session_step_players:
  "session_step s s' \<Longrightarrow> s_players s' n = Some p' \<Longrightarrow>
   \<exists>p. s_players s n = Some p \<and> pr_start p' = pr_start p \<and> prefix (pr_sent p) (pr_sent p')"
  using session_step_from unfolding players_from_def later_player_def by blast

lemma session_step_log:
  assumes "session_step s s'" "session_inv s"
  shows "prefix (wal_entries (s_wal s)) (wal_entries (s_wal s'))"
    and "distinct_keys (wal_entries (s_wal s)) \<Longrightarrow> distinct_keys (wal_entries (s_wal s'))"
proof -
  have w: "wal_mem_inv (s_wal s)" using assms(2) by (simp add: session_inv_def)
  have "prefix (wal_entries (s_wal s)) (wal_entries (s_wal s')) \<and>
      (distinct_keys (wal_entries (s_wal s)) \<longrightarrow> distinct_keys (wal_entries (s_wal s')))"
    using assms(1)
  proof cases
    case (packet pid p pkt c env s1 r)
    let ?s = "s\<lparr>s_players := (s_players s)(pid \<mapsto> p\<lparr>p_in := c\<rparr>)\<rparr>"
    show ?thesis
    proof (cases rule: handlePacket_cases [of env ?s pid pkt])
      case (quiet r')
      with packet show ?thesis by auto
    next
      case (failed e w' err err')
      with packet wal_mem.append_grows [OF w failed(1), of "he_io env"] wal_mem.append_distinct [OF w failed(1), of "he_io env"]
      show ?thesis by auto
    next
      case (stored e w')
      with packet wal_mem.append_grows [OF w stored(1), of "he_io env"] wal_mem.append_distinct [OF w stored(1), of "he_io env"]
      show ?thesis by auto
    next
      case (position pos)
      with packet show ?thesis by (auto simp: handlePositionUpdate_frame(1))
    qed
  qed (auto simp: Join_hello_def Join_leave_def upd_player_def split: prod.splits option.splits)
  then show "prefix (wal_entries (s_wal s)) (wal_entries (s_wal s'))"
    "distinct_keys (wal_entries (s_wal s)) \<Longrightarrow> distinct_keys (wal_entries (s_wal s'))" by simp_all
qed

text \<open>What a change on the server's side has to respect.\<close>

definition extends :: "world \<Rightarrow> world \<Rightarrow> bool" where
  "extends w w' \<longleftrightarrow> w_clients w' = w_clients w \<and> w_used w \<subseteq> w_used w' \<and> prefix (server_log w) (server_log w') \<and>
     (\<forall>n\<in>w_used w. prefix (w_sent w n) (w_sent w' n) \<and> (\<forall>st. start_ok w n st \<longrightarrow> start_ok w' n st) \<and>
       (unused_conn w n \<longrightarrow> unused_conn w' n))"

lemma world_inv_extends:
  assumes "world_inv w" "session_inv (w_server w')" "distinct_keys (server_log w')" "conns_inv w'" "extends w w'"
  shows "world_inv w'"
proof -
  have "client_inv (server_log w') c \<and> link_ok w' c" if "w_clients w k = Some c" for k c
  proof -
    have "client_inv (server_log w) c" and l: "link_ok w c" using assms(1) that by (auto simp: world_inv_def)
    then have "client_inv (server_log w') c" using assms(5) client_inv_mono by (auto simp: extends_def)
    moreover have "link_ok w' c"
    proof (cases "linked c")
      case True
      with l have c: "cr_conn c \<in> w_used w" "prefix (cr_arrived c) (w_sent w (cr_conn c))"
        "if cr_tx c = [] then unused_conn w (cr_conn c) else start_ok w (cr_conn c) (cr_start c)"
        by (simp_all add: link_ok_def)
      moreover from c(1) assms(5) have "prefix (w_sent w (cr_conn c)) (w_sent w' (cr_conn c))"
        "start_ok w (cr_conn c) st \<Longrightarrow> start_ok w' (cr_conn c) st"
        "unused_conn w (cr_conn c) \<Longrightarrow> unused_conn w' (cr_conn c)" "cr_conn c \<in> w_used w'" for st
        by (auto simp: extends_def)
      ultimately show ?thesis by (auto simp: link_ok_def intro: prefix_order.trans)
    qed (simp add: link_ok_def)
    ultimately show ?thesis ..
  qed
  moreover have "w_clients w' = w_clients w" using assms(5) by (simp add: extends_def)
  ultimately show ?thesis using assms(1-4) by (simp add: world_inv_def)
qed

text \<open>The server changes without a new player.\<close>

lemma set_server_inv:
  assumes inv: "world_inv w" and s: "session_inv s" "distinct_keys (wal_entries (s_wal s))"
    and log: "prefix (server_log w) (wal_entries (s_wal s))" "length (wal_entries (s_wal s)) < 2 ^ 32"
    and old: "\<And>n p'. s_players s n = Some p' \<Longrightarrow>
      \<exists>p. s_players (w_server w) n = Some p \<and> pr_start p' = pr_start p \<and> prefix (pr_sent p) (pr_sent p')"
  shows "world_inv (set_server s w)"
proof (rule world_inv_extends [OF inv])
  let ?w = "set_server s w"
  have f: "w_server ?w = s" "server_log ?w = wal_entries (s_wal s)" "w_clients ?w = w_clients w" "w_used ?w = w_used w"
    "w_hello ?w = w_hello w" by (simp_all add: set_server_def server_log_def)
  have cs: "conns_inv w" using inv by (simp add: world_inv_def)
  have sent_new: "w_sent ?w n = pr_sent p'" if "s_players s n = Some p'" for n p' using that by (simp add: set_server_def)
  have sent_old: "w_sent ?w n = w_sent w n" if "s_players s n = None" for n using that by (simp add: set_server_def)
  show "session_inv (w_server ?w)" "distinct_keys (server_log ?w)" using s f by simp_all
  have pl: "\<exists>p. s_players (w_server w) n = Some p \<and> pr_start p' = pr_start p \<and> prefix (w_sent w n) (w_sent ?w n) \<and>
      n \<in> w_used w \<and> w_hello w n = None" if "s_players s n = Some p'" for n p'
    using old [OF that] cs sent_new [OF that] unfolding conns_inv_def by fastforce
  show "conns_inv ?w"
    unfolding conns_inv_def f
  proof (intro conjI allI impI)
    fix n assume "n \<notin> w_used w"
    then show "w_sent ?w n = []" "w_hello w n = None"
      using pl [of n] cs sent_old [of n] by (cases "s_players s n"; auto simp: conns_inv_def)+
  next
    fix n assume "w_hello w n \<noteq> None"
    then show "w_sent ?w n = []" using pl [of n] cs sent_old [of n] by (cases "s_players s n") (auto simp: conns_inv_def)
  qed (use pl sent_new in blast)+
  show "extends w ?w"
    unfolding extends_def f
  proof (intro conjI ballI allI impI)
    fix n assume "n \<in> w_used w"
    show "prefix (w_sent w n) (w_sent ?w n)"
      using pl [of n] sent_old [of n] by (cases "s_players s n") auto
    show "unused_conn ?w n" if "unused_conn w n"
      using that pl [of n] sent_old [of n] by (cases "s_players s n") (auto simp: unused_conn_def f)
    fix st assume st: "start_ok w n st"
    show "start_ok ?w n st"
    proof (cases "s_players s n")
      case None
      with st sent_old [of n] sent_ok_mono [OF _ log(1)] show ?thesis by (simp add: start_ok_def f)
    next
      case (Some p')
      have "sent_ok (wal_entries (s_wal s)) (pr_start p') (pr_sent p')"
        using s(1) Some log(2) player_sent_ok by (auto simp: session_inv_def)
      with pl [OF Some] st Some sent_new [OF Some] show ?thesis by (auto simp: start_ok_def f)
    qed
  qed (use log in simp_all)
qed

text \<open>A player enters on a connection on which nothing has been written.\<close>

lemma enter_inv:
  assumes inv: "world_inv w" and fresh: "n \<notin> w_used w \<or> w_hello w n \<noteq> None"
    and start: "\<And>st. n \<in> w_used w \<Longrightarrow> start_ok w n st \<Longrightarrow> st = walIndex"
    and w': "w' = set_server (Join_enter (w_server w) n PlayerID PlayerName worldID walIndex)
      (w\<lparr>w_used := insert n (w_used w), w_hello := (w_hello w)(n := None)\<rparr>)"
  shows "world_inv w'"
proof (rule world_inv_extends [OF inv])
  have cs: "conns_inv w" and si: "session_inv (w_server w)" using inv by (simp_all add: world_inv_def)
  from cs fresh have n: "s_players (w_server w) n = None" "w_sent w n = []" unfolding conns_inv_def by (metis option.exhaust)+
  have f: "w_server w' = Join_enter (w_server w) n PlayerID PlayerName worldID walIndex" "server_log w' = server_log w"
    "w_clients w' = w_clients w" "w_used w' = insert n (w_used w)" "w_hello w' = (w_hello w)(n := None)"
    by (simp_all add: w' set_server_def server_log_def Join_enter_def)
  have pn: "s_players (w_server w') n = Some (new_player (s_cancelled (w_server w)) PlayerID PlayerName worldID walIndex)"
    by (simp add: f Join_enter_def)
  have po: "s_players (w_server w') m = s_players (w_server w) m" if "m \<noteq> n" for m using that by (simp add: f Join_enter_def)
  have sent: "w_sent w' m = w_sent w m" for m
    using n cs by (auto simp: w' set_server_def Join_enter_def new_player_def conns_inv_def split: option.split)
  show "session_inv (w_server w')" using si by (simp add: f Join_enter_inv)
  show "distinct_keys (server_log w')" using inv by (simp add: f world_inv_def)
  show "conns_inv w'"
    unfolding conns_inv_def
  proof (intro conjI allI impI)
    fix m p assume p: "s_players (w_server w') m = Some p"
    have old: "w_sent w m = pr_sent q \<and> m \<in> w_used w \<and> w_hello w m = None" if "s_players (w_server w) m = Some q" for q
      using cs that by (simp add: conns_inv_def)
    show "w_sent w' m = pr_sent p" using p pn po [of m] old n sent by (cases "m = n") (auto simp: new_player_def)
    have "m = n \<or> m \<in> w_used w \<and> w_hello w m = None" using p po [of m] old [of p] by (cases "m = n") simp_all
    then show "m \<in> w_used w'" "w_hello w' m = None" by (auto simp: f(4,5))
  qed (use cs n sent in \<open>auto simp: f conns_inv_def split: if_splits\<close>)
  show "extends w w'"
    unfolding extends_def
  proof (intro conjI ballI allI impI)
    fix m assume m: "m \<in> w_used w"
    show "unused_conn w' m" if "unused_conn w m"
    proof -
      have "m \<noteq> n" using that m fresh by (auto simp: unused_conn_def)
      with that show ?thesis by (simp add: unused_conn_def sent po f(5))
    qed
    fix st assume st: "start_ok w m st"
    show "start_ok w' m st"
    proof (cases "m = n")
      case True
      with start [of st] m st n pn show ?thesis by (simp add: start_ok_def f sent new_player_def)
    next
      case False
      with st show ?thesis by (simp add: start_ok_def f(2,5) sent po)
    qed
  qed (auto simp: f sent)
qed

section \<open>Steps of the clients\<close>

lemma links_apart_upd:
  assumes "links_apart cl" "\<And>j d. j \<noteq> k \<Longrightarrow> cl j = Some d \<Longrightarrow> linked d \<Longrightarrow> linked c \<Longrightarrow> cr_conn d \<noteq> cr_conn c"
  shows "links_apart (cl(k \<mapsto> c))"
  unfolding links_apart_def
proof (intro allI impI)
  fix i j d e assume h: "i \<noteq> j \<and> (cl(k \<mapsto> c)) i = Some d \<and> (cl(k \<mapsto> c)) j = Some e \<and> linked d \<and> linked e"
  consider "i = k" | "j = k" | "i \<noteq> k" "j \<noteq> k" by blast
  then show "cr_conn d \<noteq> cr_conn e"
  proof cases
    case 1
    with h assms(2) [of j e] show ?thesis by auto
  next
    case 2
    with h assms(2) [of i d] show ?thesis by auto
  next
    case 3
    with h assms(1) show ?thesis unfolding links_apart_def by (metis fun_upd_other)
  qed
qed

text \<open>One client changes on its own.\<close>

lemma world_inv_client:
  assumes inv: "world_inv w" and k: "w_clients w k = Some c" and c': "client_inv (server_log w) c'" "link_ok w c'"
    and apart: "linked c' \<Longrightarrow> linked c \<and> cr_conn c' = cr_conn c"
  shows "world_inv (w\<lparr>w_clients := (w_clients w)(k \<mapsto> c')\<rparr>)"
proof -
  let ?w = "w\<lparr>w_clients := (w_clients w)(k \<mapsto> c')\<rparr>"
  have same: "server_log ?w = server_log w" "conns_inv ?w = conns_inv w" "link_ok ?w d = link_ok w d" for d
    by (simp_all add: server_log_def conns_inv_def link_ok_def unused_conn_def start_ok_def)
  have "links_apart (w_clients w)" using inv by (simp add: world_inv_def)
  then have "links_apart ((w_clients w)(k \<mapsto> c'))"
    using k apart by (intro links_apart_upd) (auto simp: links_apart_def)
  with inv c' show ?thesis by (auto simp: world_inv_def same)
qed

lemma client_log_wf:
  assumes "world_inv w"
  shows "distinct_keys (server_log w)" "\<forall>e\<in>set (server_log w). wf_entry e"
  using assms by (auto simp: world_inv_def session_inv_def wal_mem_inv_def server_log_def)

lemma link_sent:
  assumes "world_inv w" "w_clients w k = Some c" "cr_upPc c = UpReply \<or> cr_upPc c = UpRun \<or> cr_upPc c = UpWait"
  shows "sent_ok (server_log w) (cr_start c) (w_sent w (cr_conn c))" "prefix (cr_arrived c) (w_sent w (cr_conn c))"
proof -
  have "client_inv (server_log w) c" "link_ok w c" using assms(1,2) by (auto simp: world_inv_def)
  then show "sent_ok (server_log w) (cr_start c) (w_sent w (cr_conn c))" "prefix (cr_arrived c) (w_sent w (cr_conn c))"
    using assms(3) by (auto simp: client_inv_def phase_ok_def link_ok_def linked_def start_ok_def)
qed

text \<open>Steps of a client that do not write a hello.\<close>

lemma client_quiet_inv:
  assumes inv: "world_inv w" and k: "w_clients w k = Some c" and c': "client_inv (server_log w) c'"
    and fr: "linked c' \<Longrightarrow> linked c \<and> cr_conn c' = cr_conn c \<and> cr_arrived c' = cr_arrived c \<and> cr_start c' = cr_start c"
    and tx: "cr_tx c' = [] \<longleftrightarrow> cr_tx c = []"
  shows "world_inv (set_client k c c' w)"
proof -
  have "link_ok w c" using inv k by (simp add: world_inv_def)
  with fr tx have "link_ok w c'" by (auto simp: link_ok_def)
  with world_inv_client [OF inv k c'] fr tx show ?thesis by (auto simp: set_client_def)
qed

lemma client_hello_inv:
  assumes inv: "world_inv w" and k: "w_clients w k = Some c" and pc: "cr_upPc c = UpHello"
    and c': "c' = c\<lparr>cr_upPc := UpReply, cr_tx := [hello_pkt (cr_s c)], cr_start := Count (gs_wal (cr_s c))\<rparr>"
    and ci: "client_inv (server_log w) c'"
  shows "world_inv (set_client k c c' w)"
proof -
  let ?n = "cr_conn c" and ?w = "w\<lparr>w_hello := (w_hello w)(cr_conn c \<mapsto> hello_pkt (cr_s c))\<rparr>"
  have cl: "client_inv (server_log w) c" "link_ok w c" and cs: "conns_inv w" using inv k by (auto simp: world_inv_def)
  have tx: "cr_tx c = []" using cl(1) pc by (simp add: client_inv_def phase_ok_def)
  have n: "?n \<in> w_used w" "unused_conn w ?n" "cr_arrived c = []"
    using cl(2) pc tx by (auto simp: link_ok_def linked_def unused_conn_def)
  have log: "server_log ?w = server_log w" by (simp add: server_log_def)
  have other: "link_ok ?w d" if "link_ok w d" "linked d \<Longrightarrow> cr_conn d \<noteq> ?n" for d
    using that by (auto simp: link_ok_def unused_conn_def start_ok_def log)
  have "conns_inv ?w" using cs n by (auto simp: conns_inv_def unused_conn_def)
  moreover have "link_ok ?w d" if d: "w_clients w j = Some d" "j \<noteq> k" for j d
  proof (rule other)
    show "link_ok w d" using inv d by (simp add: world_inv_def)
    show "cr_conn d \<noteq> ?n" if "linked d"
      using inv d k that pc unfolding world_inv_def links_apart_def linked_def by blast
  qed
  moreover have "link_ok ?w c'"
  proof -
    have "game_wf (cr_s c)" using cl(1) by (simp add: client_inv_def)
    then have "start_ok ?w ?n (Count (gs_wal (cr_s c)))"
      using n hello_parsed [of "cr_s c"] by (auto simp: start_ok_def unused_conn_def sent_ok_def wal_packets_def client_hello_of_def log)
    with n show ?thesis by (simp add: link_ok_def c' tx)
  qed
  moreover have "links_apart ((w_clients w)(k \<mapsto> c'))"
  proof -
    have "links_apart (w_clients w)" using inv by (simp add: world_inv_def)
    moreover have "linked c'" "linked c" "cr_conn c' = cr_conn c" using pc c' by (simp_all add: linked_def)
    ultimately show ?thesis using k by (intro links_apart_upd) (auto simp: links_apart_def)
  qed
  moreover have "set_client k c c' w = ?w\<lparr>w_clients := (w_clients w)(k \<mapsto> c')\<rparr>"
    using c' tx by (simp add: set_client_def)
  moreover have "link_ok (?w\<lparr>w_clients := cl\<rparr>) d = link_ok ?w d" "conns_inv (?w\<lparr>w_clients := cl\<rparr>) = conns_inv ?w"
    "server_log (?w\<lparr>w_clients := cl\<rparr>) = server_log w" for cl d
    by (simp_all add: link_ok_def unused_conn_def start_ok_def conns_inv_def server_log_def)
  ultimately show ?thesis using inv ci by (auto simp: world_inv_def)
qed

lemma client_step_inv:
  assumes inv: "world_inv w" and len: "length (server_log w) < 2 ^ 32" and k: "w_clients w k = Some c"
    and step: "client_step c c'"
  shows "world_inv (set_client k c c' w) \<and> client_pending c \<subseteq> client_pending c' \<union> entry_key ` set (server_log w)"
proof -
  have ci: "client_inv (server_log w) c" using inv k by (simp add: world_inv_def)
  then have ph: "phase_ok c" by (simp add: client_inv_def)
  show ?thesis
    using step
  proof cases
    case game
    note fr = game_step_frame [OF game]
    from client_quiet_inv [OF inv k client_inv_same [OF ci fr(1-4)]] fr(1,5) show ?thesis
      by (auto simp: same_conn_def linked_def)
  next
    case queue
    note fr = queue_step_frame [OF queue]
    from client_quiet_inv [OF inv k client_inv_same [OF ci fr(1-4)]] fr(1,5) show ?thesis
      by (auto simp: same_conn_def linked_def)
  next
    case conn
    have up: "cr_upPc c = UpRun \<or> cr_upPc c = UpWait" using conn_step_active [OF conn ph] .
    then have "sent_ok (server_log w) (cr_start c) (w_sent w (cr_conn c))" "prefix (cr_arrived c) (w_sent w (cr_conn c))"
      using link_sent [OF inv k] by blast+
    from conn_step_inv [OF ci client_log_wf [OF inv] this conn]
    have r: "client_inv (server_log w) c'" "client_pending c \<subseteq> client_pending c' \<union> entry_key ` set (server_log w)" "conn_frame c c'"
      by simp_all
    have "cr_tx c \<noteq> []" "cr_tx c' \<noteq> []"
      using ph up r(1,3) by (auto simp: phase_ok_def conn_frame_def client_inv_def)
    with client_quiet_inv [OF inv k r(1)] r(2,3) show ?thesis by (auto simp: conn_frame_def linked_def)
  next
    case uplink
    from uplink_step_inv [OF ci len uplink]
    have r: "client_inv (server_log w) c'" "client_pending c' = client_pending c" "cr_conn c' = cr_conn c"
      "cr_arrived c' = cr_arrived c" by simp_all
    show ?thesis
    proof (cases "\<exists>r bs. cr_upPc c = UpHello \<and>
        c' = c\<lparr>cr_upPc := UpReply, cr_tx := [hello_pkt (cr_s c)], cr_start := Count (gs_wal (cr_s c))\<rparr>")
      case True
      then show ?thesis using client_hello_inv [OF inv k _ _ r(1)] r(2) by auto
    next
      case False
      with uplink have "cr_tx c' = cr_tx c \<and> cr_start c' = cr_start c \<and> (linked c' \<longrightarrow> linked c)"
        by (cases rule: uplink_step.cases) (auto simp: upd_s_def linked_def split: if_splits)
      with client_quiet_inv [OF inv k r(1)] r(2-4) show ?thesis by auto
    qed
  qed
qed

lemma arrived_inv:
  assumes "client_inv es c"
  shows "client_inv es (arrived pkt c)"
proof -
  let ?c = "arrived pkt c"
  have eqs: "reading ?c = reading c" "following ?c = following c" "cr_arrived ?c = cr_arrived c @ [pkt]"
    "inbox ?c = (if reading c then inbox c @ [pkt] else inbox c)" "cr_start ?c = cr_start c" "client_log ?c = client_log c"
    by (auto simp: arrived_def reading_def following_def inbox_def client_log_def)
  have "client_at es ?c m" if "client_at es c m" for m
    using that by (auto simp: client_at_def eqs)
  moreover have "phase_ok ?c" using assms by (auto simp: client_inv_def phase_ok_def quiet_def arrived_def)
  ultimately show ?thesis using assms eqs by (auto simp: client_inv_def arrived_def)
qed

lemma deliver_inv:
  assumes inv: "world_inv w" and k: "w_clients w k = Some c" "linked c" "w_sent w (cr_conn c) = cr_arrived c @ pkt # rest"
  shows "world_inv (w\<lparr>w_clients := (w_clients w)(k \<mapsto> arrived pkt c)\<rparr>)"
proof (rule world_inv_client [OF inv k(1)])
  have "client_inv (server_log w) c" and l: "link_ok w c" using inv k(1) by (auto simp: world_inv_def)
  then show "client_inv (server_log w) (arrived pkt c)" by (simp add: arrived_inv)
  have "prefix (cr_arrived c @ [pkt]) (w_sent w (cr_conn c))" using k(3) by simp
  moreover have "linked (arrived pkt c) = linked c" by (simp add: linked_def arrived_def)
  ultimately show "link_ok w (arrived pkt c)" using l k(2) by (simp add: link_ok_def) (simp add: arrived_def)
qed (use k in \<open>simp add: arrived_def linked_def\<close>)

lemma dial_inv:
  assumes inv: "world_inv w" and k: "w_clients w k = Some c" "cr_upPc c = UpDial" "n \<notin> w_used w"
  shows "world_inv (w\<lparr>w_used := insert n (w_used w), w_clients := (w_clients w)(k \<mapsto> dialled n c)\<rparr>)"
proof -
  let ?w = "w\<lparr>w_used := insert n (w_used w)\<rparr>"
  have cs: "conns_inv w" and si: "session_inv (w_server w)" and ci: "client_inv (server_log w) c"
    using inv k by (simp_all add: world_inv_def)
  have n: "unused_conn w n"
    using cs k(3) unfolding conns_inv_def unused_conn_def by (metis option.exhaust)
  have same: "unused_conn (?w\<lparr>w_clients := cl\<rparr>) m = unused_conn w m" "start_ok (?w\<lparr>w_clients := cl\<rparr>) m st = start_ok w m st"
    "server_log (?w\<lparr>w_clients := cl\<rparr>) = server_log w" for m st cl
    by (simp_all add: unused_conn_def start_ok_def server_log_def)
  have "client_inv (server_log w) (dialled n c)"
    using ci k(2) by (simp add: client_inv_def phase_ok_def quiet_def dialled_def following_def client_log_def)
  moreover have "link_ok (?w\<lparr>w_clients := cl\<rparr>) (dialled n c)" for cl
    using n by (simp add: link_ok_def same dialled_def)
  moreover have "link_ok (?w\<lparr>w_clients := cl\<rparr>) d" if "link_ok w d" for cl d
    using that by (auto simp: link_ok_def same)
  moreover have "conns_inv (?w\<lparr>w_clients := cl\<rparr>)" for cl using cs by (auto simp: conns_inv_def)
  moreover have "links_apart ((w_clients w)(k \<mapsto> dialled n c))"
  proof -
    have "links_apart (w_clients w)" "\<And>j d. w_clients w j = Some d \<Longrightarrow> linked d \<Longrightarrow> cr_conn d \<noteq> n"
      using inv k(3) by (auto simp: world_inv_def link_ok_def)
    then show ?thesis by (intro links_apart_upd) (simp_all add: dialled_def)
  qed
  ultimately show ?thesis using inv by (auto simp: world_inv_def same)
qed

text \<open>What a client has when it is started again from its files.\<close>

lemma Run_open_files:
  assumes "Run_open io dir info hello = Some (Inr (s, m))" "in_Mode info \<noteq> InfoModeSingle"
  shows "OpenWAL (ri_wal io) (ri_wal_fin io) = Some (Inr (gs_wal s))"
    "\<exists>q. OpenSendQueue (ri_sendq io) (ri_sendq_fin io) = Some (Inr q) \<and> gs_sendQ s = Some q"
  using assms by (auto simp: Run_open_def Let_def split: if_splits option.splits sum.splits bind_splits)

lemma Run_start_inv:
  assumes "game_wf s" "wal_mem_inv (gs_wal s)" "prefix (wal_entries (gs_wal s)) es"
  shows "client_inv es (Run_start s m d)" "\<not> linked (Run_start s m d)"
  using assms by (simp_all add: client_inv_def phase_ok_def quiet_def following_def client_log_def Run_start_def linked_def)

lemma restart_inv:
  assumes inv: "world_inv w" and k: "w_clients w k = Some c" "gs_sendQ (cr_s c) = Some q" "sq_inv q" "wal_on_disk (gs_wal (cr_s c))"
    and io: "ri_sendq io = Inr (f_bytes (sq_file q))" "ri_sendq_fin io = EOF"
      "ri_wal io = Inr (f_bytes (wal_file (gs_wal (cr_s c))))" "ri_wal_fin io = EOF"
    and run: "in_Mode info \<noteq> InfoModeSingle" "Run_open io dir info hello = Some (Inr (s, m))" "game_wf s"
  shows "world_inv (w\<lparr>w_clients := (w_clients w)(k \<mapsto> Run_start s m d)\<rparr>) \<and> client_pending c \<subseteq> client_pending (Run_start s m d)"
proof -
  have ci: "client_inv (server_log w) c" using inv k by (simp add: world_inv_def)
  then have "\<forall>e\<in>set (client_log c). wf_entry e" by (auto simp: client_inv_def wal_mem_inv_def client_log_def)
  from OpenWAL_records [OF this] Run_open_files(1) [OF run(2,1)] io(3,4) k(4)
  have w: "gs_wal s = reopened (client_log c)" by (simp add: wal_on_disk_def client_log_def)
  then have log: "wal_entries (gs_wal s) = client_log c" "wal_mem_inv (gs_wal s)"
    using reopened_inv [OF \<open>\<forall>e\<in>set (client_log c). wf_entry e\<close>] by (simp_all add: wal_inv_def) (simp add: reopened_def)
  obtain q' where q': "gs_sendQ s = Some q'" "OpenSendQueue (Inr (f_bytes (sq_file q))) EOF = Some (Inr q')"
    using Run_open_files(2) [OF run(2,1)] io by auto
  with sq_inv_reopen [OF k(3)] have "pending q \<subseteq>\<^sub>m pending q'" by auto
  then have "dom (pending q) \<subseteq> dom (pending q')" by (rule map_le_implies_dom_le)
  then have pend: "client_pending c \<subseteq> client_pending (Run_start s m d)"
    using k(2) q'(1) by (simp add: client_pending_def queued_def Run_start_def)
  have "prefix (wal_entries (gs_wal s)) (server_log w)" using ci log(1) by (simp add: client_inv_def)
  from Run_start_inv [OF run(3) log(2) this] have "world_inv (w\<lparr>w_clients := (w_clients w)(k \<mapsto> Run_start s m d)\<rparr>)"
    by (intro world_inv_client [OF inv k(1)]) (auto simp: link_ok_def)
  with pend show ?thesis by simp
qed

section \<open>Every step keeps the invariant\<close>

lemma reopen_log:
  assumes "session_inv s" "wal_on_disk (s_wal s)"
    and "OpenSession None (Inr (f_bytes (wal_file (s_wal s)))) EOF dir sid sec sink = Some (Inr s')"
  shows "wal_entries (s_wal s') = wal_entries (s_wal s)" "s_players s' = Map.empty"
proof -
  have "\<forall>e\<in>set (wal_entries (s_wal s)). wf_entry e" using assms(1) by (simp add: session_inv_def wal_mem_inv_def)
  from OpenWAL_records [OF this] OpenSession_fields(3) [OF assms(3)] assms(2)
  have "s_wal s' = reopened (wal_entries (s_wal s))" by (auto simp: wal_on_disk_def)
  then show "wal_entries (s_wal s') = wal_entries (s_wal s)" by (simp add: reopened_def)
  show "s_players s' = Map.empty" using assms(3) by (auto simp: OpenSession_def split: option.splits sum.splits)
qed

lemma set_server_log [simp]: "w_server (set_server s w) = s" "server_log (set_server s w) = wal_entries (s_wal s)"
  "w_clients (set_server s w) = w_clients w"
  by (simp_all add: set_server_def server_log_def)

lemma set_client_frame [simp]: "w_server (set_client k c c' w) = w_server w" "server_log (set_client k c c' w) = server_log w"
  "w_clients (set_client k c c' w) = (w_clients w)(k \<mapsto> c')"
  by (simp_all add: set_client_def server_log_def)

lemma Join_enter_log [simp]: "s_wal (Join_enter s n i nm wid ix) = s_wal s"
  by (simp add: Join_enter_def)

lemma world_step_session:
  assumes "world_step w w'" "session_inv (w_server w)"
  shows "session_inv (w_server w') \<and> prefix (server_log w) (server_log w')"
  using assms
proof cases
  case (server s)
  with session_step_inv [OF server(2) assms(2)] session_step_log(1) [OF server(2) assms(2)] show ?thesis
    by (simp add: server_log_def)
next
  case (reopen dir sink s)
  with OpenSession_inv [OF reopen(3)] reopen_log [OF assms(2) reopen(2,3)] show ?thesis by (simp add: server_log_def)
next
  case close
  with Session_Close_inv [OF assms(2)] show ?thesis by (simp add: server_log_def) (simp add: Session_Close_def wal_Close_image)
qed (auto simp: server_log_def Join_enter_inv)

lemma world_reach_session:
  "world_reach w w' \<Longrightarrow> session_inv (w_server w) \<Longrightarrow> session_inv (w_server w') \<and> prefix (server_log w) (server_log w')"
proof (induction rule: world_reach.induct)
  case (step w1 w2)
  then have "prefix (server_log w) (server_log w1)" "session_inv (w_server w2)" "prefix (server_log w1) (server_log w2)"
    using world_step_session [OF step(2)] by simp_all
  then show ?case using prefix_order.trans by blast
qed simp

text \<open>What stays pending in a client, or has reached the server's log.\<close>

definition keeps_reports :: "world \<Rightarrow> world \<Rightarrow> bool" where
  "keeps_reports w w' \<longleftrightarrow> (\<forall>k c. w_clients w k = Some c \<longrightarrow> (\<exists>c'. w_clients w' k = Some c' \<and>
     client_pending c \<subseteq> client_pending c' \<union> entry_key ` set (server_log w')))"

lemma keeps_reports_same: "w_clients w' = w_clients w \<Longrightarrow> keeps_reports w w'"
  by (auto simp: keeps_reports_def)

lemma keeps_reports_client:
  assumes "w_clients w k = Some c" "w_clients w' = (w_clients w)(k \<mapsto> c')"
    "client_pending c \<subseteq> client_pending c' \<union> entry_key ` set (server_log w')"
  shows "keeps_reports w w'"
  using assms by (auto simp: keeps_reports_def)

lemma keeps_reports_trans:
  assumes "keeps_reports w1 w2" "keeps_reports w2 w3" "prefix (server_log w2) (server_log w3)"
  shows "keeps_reports w1 w3"
  unfolding keeps_reports_def
proof (intro allI impI)
  fix k c1 assume "w_clients w1 k = Some c1"
  with assms(1) obtain c2 where c2: "w_clients w2 k = Some c2"
    "client_pending c1 \<subseteq> client_pending c2 \<union> entry_key ` set (server_log w2)" unfolding keeps_reports_def by blast
  with assms(2) obtain c3 where c3: "w_clients w3 k = Some c3"
    "client_pending c2 \<subseteq> client_pending c3 \<union> entry_key ` set (server_log w3)" unfolding keeps_reports_def by blast
  have "entry_key ` set (server_log w2) \<subseteq> entry_key ` set (server_log w3)"
    using set_mono_prefix [OF assms(3)] by blast
  with c2(2) c3 show "\<exists>c'. w_clients w3 k = Some c' \<and> client_pending c1 \<subseteq> client_pending c' \<union> entry_key ` set (server_log w3)"
    by blast
qed

lemma Session_Close_log [simp]: "wal_entries (s_wal (Session_Close s)) = wal_entries (s_wal s)"
  by (simp add: Session_Close_def wal_Close_image)

lemma close_players:
  assumes "s_players (Session_Close s) n = Some p'"
  shows "\<exists>p. s_players s n = Some p \<and> pr_start p' = pr_start p \<and> prefix (pr_sent p) (pr_sent p')"
  using assms by (auto simp: Session_Close_def)

lemma world_step_inv:
  assumes inv: "world_inv w" and step: "world_step w w'" and len: "length (server_log w') < 2 ^ 32"
  shows "world_inv w' \<and> keeps_reports w w'"
proof -
  have si: "session_inv (w_server w)" and dk: "distinct_keys (server_log w)" and cs: "conns_inv w"
    using inv by (simp_all add: world_inv_def)
  have si': "session_inv (w_server w')" and pre: "prefix (server_log w) (server_log w')"
    using world_step_session [OF step si] by simp_all
  from pre len have len0: "length (server_log w) < 2 ^ 32" using prefix_length_le by fastforce
  show ?thesis
    using step
  proof cases
    case (server s)
    have "distinct_keys (wal_entries (s_wal s))"
      using session_step_log(2) [OF server(2) si] dk by (simp add: server_log_def)
    then show ?thesis
      using set_server_inv [OF inv _ _ _ _ session_step_players [OF server(2)]] si' pre len server(1)
      by (simp add: keeps_reports_same)
  next
    case (join n s PlayerID PlayerName worldID walIndex)
    have "w_hello w n = None" using cs join(2) by (simp add: conns_inv_def)
    then have "(w_hello w)(n := None) = w_hello w" by auto
    with enter_inv [OF inv, of n walIndex w' PlayerID PlayerName worldID] join show ?thesis
      by (simp add: keeps_reports_same)
  next
    case (accept n pkt h s)
    have n: "n \<in> w_used w" using cs accept(2) by (auto simp: conns_inv_def)
    have "st = ch_WalIndex h" if "start_ok w n st" for st using that accept(2,4) by (auto simp: start_ok_def)
    with enter_inv [OF inv, of n "ch_WalIndex h" w' "ch_PlayerID h" "ch_PlayerName h" "ch_WorldID h"] accept n show ?thesis
      by (simp add: keeps_reports_same insert_absorb)
  next
    case close
    then show ?thesis
      using set_server_inv [OF inv _ _ _ _ close_players] si' pre len dk
      by (simp add: keeps_reports_same) (simp add: server_log_def)
  next
    case (reopen dir sink s)
    note l = reopen_log [OF si reopen(2,3)]
    from set_server_inv [OF inv, of s] si' pre len dk l reopen(1) show ?thesis
      by (simp add: keeps_reports_same server_log_def)
  next
    case (client k c c')
    with client_step_inv [OF inv len0 client(2,3)] keeps_reports_client [OF client(2), of w' c'] show ?thesis by simp
  next
    case (dial k c n)
    with dial_inv [OF inv dial(2-4)] show ?thesis
      by (auto intro!: keeps_reports_client [OF dial(2)] simp: client_pending_def dialled_def)
  next
    case (deliver k c pkt rest)
    with deliver_inv [OF inv deliver(2-4)] show ?thesis
      by (auto intro!: keeps_reports_client [OF deliver(2)] simp: client_pending_def arrived_def)
  next
    case (restart k c q io info dir hello s helloOut d)
    with restart_inv [OF inv restart(2-12), of d] show ?thesis
      by (auto intro!: keeps_reports_client [OF restart(2)])
  qed
qed

lemma world_init_inv:
  assumes "world_init w"
  shows "world_inv w"
proof -
  have "client_inv (server_log w) c \<and> \<not> linked c" if "w_clients w k = Some c" for k c
    using assms that Run_start_inv unfolding world_init_def by blast
  then have "(\<forall>k c. w_clients w k = Some c \<longrightarrow> client_inv (server_log w) c \<and> link_ok w c) \<and> links_apart (w_clients w)"
    unfolding link_ok_def links_apart_def by blast
  moreover have "conns_inv w" using assms by (simp add: world_init_def conns_inv_def)
  ultimately show ?thesis using assms by (simp add: world_inv_def world_init_def)
qed

lemma world_reach_inv:
  "world_reach w w' \<Longrightarrow> world_inv w \<Longrightarrow> length (server_log w') < 2 ^ 32 \<Longrightarrow> world_inv w' \<and> keeps_reports w w'"
proof (induction rule: world_reach.induct)
  case (step w1 w2)
  have "session_inv (w_server w)" using step.prems(1) by (simp add: world_inv_def)
  then have "session_inv (w_server w1)" using world_reach_session [OF step(1)] by simp
  from world_step_session [OF step(2) this] have pre: "prefix (server_log w1) (server_log w2)" by simp
  then have "length (server_log w1) < 2 ^ 32" using step.prems(2) prefix_length_le by fastforce
  with step.IH step.prems(1) have 1: "world_inv w1" "keeps_reports w w1" by simp_all
  from world_step_inv [OF 1(1) step(2) step.prems(2)] keeps_reports_trans [OF 1(2) _ pre] show ?case by simp
qed (simp add: keeps_reports_same)

section \<open>A client that has caught up\<close>

text \<open>
  The server's side of connection \<open>n\<close> is idle: the stream waits for an entry that is not there yet,
  and nothing is queued or being written.
\<close>

definition stream_idle :: "Session \<Rightarrow> PlayerRun \<Rightarrow> bool" where
  "stream_idle s p \<longleftrightarrow> pr_wsPc p = WsNext \<and> next_entry (s_wal s) (pr_stream p) = Some None \<and>
     pr_outPc p = OutWait \<and> ch_buf (p_out p) = []"

lemma idle_stream_all:
  assumes "session_inv s" "s_players s n = Some p" "length (wal_entries (s_wal s)) < 2 ^ 32" "stream_idle s p"
  shows "\<exists>m. length (wal_entries (s_wal s)) \<le> unat (pr_start p) + m \<and> length (filter is_wal (pr_sent p)) = m"
proof -
  let ?es = "wal_entries (s_wal s)"
  have w: "wal_mem_inv (s_wal s)" using assms(1) by (simp add: session_inv_def)
  from assms(1-3) obtain m where m: "stream_at ?es p m" by (auto simp: session_inv_def player_inv_def stream_inv_def)
  have idle: "pr_wsPc p = WsNext" "pr_outPc p = OutWait" "ch_buf (p_out p) = []"
    "next_entry (s_wal s) (pr_stream p) = Some None" using assms(4) by (simp_all add: stream_idle_def)
  have ix: "stream_index (pr_stream p) = pr_start p + of_nat m" and
    sent: "filter is_wal (pr_sent p) = wal_packets ?es (pr_start p) m" and le: "m \<noteq> 0 \<longrightarrow> unat (pr_start p) + m \<le> length ?es"
    using m idle by (simp_all add: stream_at_def pipe_simps)
  have "length ?es \<le> unat (stream_index (pr_stream p))"
    using idle(4) by (auto simp: next_entry_def Get_spec [OF w assms(3)] split: if_splits)
  moreover have "unat (pr_start p + of_nat m) = unat (pr_start p) + m"
    using le assms(3) unat_plus_of_nat [of "pr_start p" m] by (cases "m = 0") auto
  ultimately show ?thesis using ix sent by (intro exI [of _ m]) simp
qed

section \<open>A run for examples\<close>

definition example_world :: "WalEntry list \<Rightarrow> GameSession \<Rightarrow> world" where
  "example_world es s = \<lparr>w_server = example_session es,
     w_clients = [0 \<mapsto> Run_start s \<lparr>msg_Seq = 0, msg_Op = ipc_OpHello, msg_Payload = []\<rparr> (make_chan 128)],
     w_used = {}, w_hello = Map.empty, w_sent = (\<lambda>_. [])\<rparr>"

lemma example_world_init:
  assumes "distinct_keys es" "\<forall>e\<in>set es. wf_entry e" "gs_wal s = reopened es'" "prefix es' es" "game_wf s"
  shows "world_init (example_world es s)"
proof -
  have "session_inv (example_session es)" using OpenSession_inv [OF open_example [OF assms(2)]] .
  moreover have "wal_entries (s_wal (example_session es)) = es" by (simp add: example_session_def reopened_def)
  moreover have "\<forall>e\<in>set es'. wf_entry e" using assms(2) set_mono_prefix [OF assms(4)] by blast
  moreover from reopened_inv [OF this] have "wal_mem_inv (gs_wal s)" by (simp add: assms(3) wal_inv_def)
  moreover have "wal_entries (gs_wal s) = es'" by (simp add: assms(3) reopened_def)
  ultimately have "\<exists>s' m d. Run_start s m0 d0 = Run_start s' m d \<and> game_wf s' \<and> wal_mem_inv (gs_wal s') \<and>
      prefix (wal_entries (gs_wal s')) es" for m0 d0
    using assms by blast
  with \<open>session_inv (example_session es)\<close> \<open>wal_entries (s_wal (example_session es)) = es\<close> assms(1) show ?thesis
    by (simp add: world_init_def example_world_def server_log_def) (simp add: example_session_def)
qed

text \<open>
  A client connects: it dials, sends its hello, is accepted, reads the reply of the server and starts
  its goroutines, and the server's stream for it waits for the entry behind the client's log.
\<close>

definition joined_player :: "GameSession \<Rightarrow> PlayerRun" where
  "joined_player s = new_player False (gs_PlayerID s) (gs_PlayerName s) (in_WorldID (gs_Info s)) (Count (gs_wal s))"

definition connected_player :: "GameSession \<Rightarrow> PlayerRun" where
  "connected_player s = (joined_player s)\<lparr>pr_started := True, pr_sent := [hello_packet], pr_wsPc := WsNext\<rparr>"

lemma hello_packet_ok: "handshake_reply hello_packet = Some None"
  by (simp add: handshake_reply_def hello_packet_def ServerHello_Serialize_def game_magic_def slice_def Let_def
      copy_into_def LE_PutUint32_def)

lemma example_connected:
  assumes wf: "game_wf s" and idle: "\<not> gs_done s" "gs_uplinkIn s = make_chan 16" "gs_uplinkOut s = make_chan 16"
    and info: "gs_Info s = example_info"
  shows "\<exists>w c. world_reach (example_world es s) w \<and> w_clients w 0 = Some c \<and> cr_s c = s \<and> cr_upPc c = UpRun \<and>
    cr_hkPc c = HkLoop \<and> reading c \<and> inbox c = [] \<and> cr_arrived c = w_sent w (cr_conn c) \<and>
    s_players (w_server w) (cr_conn c) = Some (connected_player s) \<and> s_wal (w_server w) = reopened es"
proof -
  let ?m = "\<lparr>msg_Seq = 0, msg_Op = ipc_OpHello, msg_Payload = []\<rparr>"
  let ?w = "\<lambda>sv c h sent. \<lparr>w_server = sv, w_clients = [0 \<mapsto> c], w_used = {0}, w_hello = h, w_sent = sent\<rparr>"
  let ?none = "\<lambda>_ :: nat. [] :: Packet list"
  let ?s0 = "example_session es"
  let ?c0 = "Run_start s ?m (make_chan 128)" let ?c1 = "?c0\<lparr>cr_upPc := UpDial\<rparr>"
  let ?c2 = "dialled 0 ?c1" let ?c3 = "?c2\<lparr>cr_upPc := UpHello\<rparr>"
  let ?c4 = "?c3\<lparr>cr_upPc := UpReply, cr_tx := [hello_pkt s], cr_start := Count (gs_wal s)\<rparr>"
  let ?c5 = "arrived hello_packet ?c4"
  let ?c6 = "?c5\<lparr>cr_upPc := UpRun, cr_piPc := PiLoop, cr_poPc := PoLoop, cr_noPc := NoLoop, cr_hkPc := HkLoop, cr_rx := []\<rparr>"
  let ?p1 = "joined_player s" let ?p2 = "?p1\<lparr>pr_started := True, pr_sent := [hello_packet]\<rparr>"
  let ?at = "\<lambda>p. ?s0\<lparr>s_players := [0 \<mapsto> p]\<rparr>"
  let ?on = "?none(0 := [hello_packet])"
  have sv: "set_server (?at p) (?w sv c h sent) = ?w (?at p) c h (sent(0 := pr_sent p))" for p sv c h sent
    by (auto simp: set_server_def fun_eq_iff)
  have none: "?none(0 := []) = ?none" "?none(0 := x, 0 := y) = ?none(0 := y)" for x y by auto
  have go: "world_reach w0 w1 \<Longrightarrow> world_step w1 w2 \<Longrightarrow> world_reach w0 w2" for w0 w1 w2 by (rule world_reach.step)
  have sim [simp]: "cr_s ?c0 = s" "cr_upPc ?c0 = UpLoop" "cr_tx ?c0 = []" "cr_piPc ?c0 = PiEnd" "cr_rx ?c0 = []"
    using info by (simp_all add: Run_start_def example_info_def)
  have "world_step (example_world es s) (set_client 0 ?c0 ?c1 (example_world es s))"
    by (rule world_step.client, simp add: example_world_def, rule client_step.uplink)
      (use uplink_step.up_loop [of ?c0] idle in simp)
  then have 1: "world_reach (example_world es s) ((example_world es s)\<lparr>w_clients := [0 \<mapsto> ?c1]\<rparr>)"
    using go [OF world_reach.start] by (simp add: set_client_def example_world_def)
  have 2: "world_reach (example_world es s) (?w ?s0 ?c2 Map.empty ?none)"
    using go [OF 1, OF world_step.dial [of _ 0 ?c1 0]] by (simp add: example_world_def)
  have "client_step ?c2 ?c3"
    by (rule client_step.uplink, rule uplink_step.up_drained) (simp_all add: dialled_def idle chan_recv_def)
  then have 3: "world_reach (example_world es s) (?w ?s0 ?c3 Map.empty ?none)"
    using go [OF 2, OF world_step.client [of _ 0 ?c2 ?c3]] by (simp add: set_client_def dialled_def)
  obtain bs where bs: "SendRaw WrOk (hello_pkt s) = (bs, None)" using hello_pkt_sent [OF wf] by blast
  then have "client_step ?c3 ?c4"
    using uplink_step.up_hello [of ?c3 WrOk bs] by (intro client_step.uplink) (simp add: dialled_def)
  then have 4: "world_reach (example_world es s) (?w ?s0 ?c4 [0 \<mapsto> hello_pkt s] ?none)"
    using go [OF 3, OF world_step.client [of _ 0 ?c3 ?c4]] by (simp add: set_client_def dialled_def)
  have h: "pkt_Op (hello_pkt s) = OpHello" "ch_SessionID (client_hello_of s) = s_ID ?s0"
    "ch_SessionSecret (client_hello_of s) = s_Secret ?s0"
    using info by (simp_all add: hello_pkt_def client_hello_of_def example_info_def example_session_def)
  have je: "Join_enter ?s0 0 (ch_PlayerID (client_hello_of s)) (ch_PlayerName (client_hello_of s))
      (ch_WorldID (client_hello_of s)) (ch_WalIndex (client_hello_of s)) = ?at ?p1"
    by (simp add: Join_enter_def joined_player_def client_hello_of_def example_session_def)
  have "world_step (?w ?s0 ?c4 [0 \<mapsto> hello_pkt s] ?none) (?w (?at ?p1) ?c4 Map.empty ?none)"
    using world_step.accept [of "?w ?s0 ?c4 [0 \<mapsto> hello_pkt s] ?none" 0 "hello_pkt s" "client_hello_of s" "?at ?p1"]
      hello_parsed [OF wf] h je sv [of ?p1] none(1)
    by (simp add: joined_player_def new_player_def)
  with go [OF 4] have 5: "world_reach (example_world es s) (?w (?at ?p1) ?c4 Map.empty ?none)" by blast
  have "Join_hello WrOk (?at ?p1) 0 = ?at ?p2"
    using hello_sent by (auto simp: Join_hello_def upd_player_def joined_player_def new_player_def)
  moreover have "session_step (?at ?p1) (Join_hello WrOk (?at ?p1) 0)"
    by (rule session_step.hello [where p = ?p1]) (simp_all add: joined_player_def new_player_def)
  ultimately have "session_step (?at ?p1) (?at ?p2)" by simp
  then have 6: "world_reach (example_world es s) (?w (?at ?p2) ?c4 Map.empty ?on)"
    using go [OF 5, OF world_step.server [of _ "?at ?p2"]] by (simp add: sv)
  have "session_step (?at ?p2) (?at (connected_player s))"
    using session_step.local [of "?at ?p2" 0 ?p2 "connected_player s"] player_step.ws_loop [of ?p2 "s_wal ?s0"]
    by (simp add: connected_player_def joined_player_def new_player_def)
  then have 7: "world_reach (example_world es s) (?w (?at (connected_player s)) ?c4 Map.empty ?on)"
    using go [OF 6, OF world_step.server [of _ "?at (connected_player s)"]]
    by (simp add: sv connected_player_def)
  have 8: "world_reach (example_world es s) (?w (?at (connected_player s)) ?c5 Map.empty ?on)"
    using go [OF 7, OF world_step.deliver [of _ 0 ?c4 hello_packet "[]"]] by (simp add: linked_def dialled_def)
  have "client_step ?c5 ?c6"
    using uplink_step.up_reply [of ?c5 hello_packet "[]"] hello_packet_ok
    by (intro client_step.uplink) (simp add: dialled_def arrived_def)
  then have 9: "world_reach (example_world es s) (?w (?at (connected_player s)) ?c6 Map.empty ?on)"
    using go [OF 8, OF world_step.client [of _ 0 ?c5 ?c6]] by (simp add: set_client_def dialled_def arrived_def)
  show ?thesis
    by (rule exI, rule exI [of _ ?c6], rule conjI, rule 9)
      (simp add: dialled_def arrived_def reading_def inbox_def idle(2) example_session_def)
qed

definition example_client :: "WalEntry list \<Rightarrow> GameSession" where
  "example_client es = (example_game es)\<lparr>gs_sendQ := Some (fst (Add add_all_ok empty_queue (entry_key example_event) (entry_bytes example_event)))\<rparr>"

lemma example_client_ok:
  "game_wf (example_client es)" "\<not> gs_done (example_client es)" "gs_uplinkIn (example_client es) = make_chan 16"
  "gs_uplinkOut (example_client es) = make_chan 16" "gs_Info (example_client es) = example_info"
  "gs_wal (example_client es) = reopened es"
  by (simp_all add: example_client_def example_game_def game_wf_def example_info_def)

lemma example_client_queued: "entry_key example_event \<in> queued (example_client es)"
proof -
  let ?r = "Add add_all_ok empty_queue (entry_key example_event) (entry_bytes example_event)"
  have "?r = (fst ?r, None)"
    using Add_all_ok(1) [of empty_queue "entry_key example_event" "entry_bytes example_event"] by (simp add: prod_eq_iff)
  from sq.add_stored [OF this] show ?thesis by (simp add: example_client_def queued_def)
qed

lemma example_keys: "distinct_keys [example_item]" "\<forall>e\<in>set [example_item]. wf_entry e"
  by (simp_all add: distinct_keys_def)

section \<open>Properties\<close>

text \<open>C1: The log of every client is at any moment a prefix of the log of the server: however the
  goroutines of the server and of all clients interleave, whatever the disks do and other players
  send, and however often connections break and clients or the server are started again from their
  files, a client never misses an entry, never has one twice and never has the entries in another
  order. The logs of two clients therefore never disagree. (The log has fewer than \<open>2\<^sup>3\<^sup>2\<close> entries.)\<close>

theorem clients_replicate_log:
  assumes "world_init w0" "world_reach w0 w" "length (server_log w) < 2 ^ 32"
    and "w_clients w k = Some c"
  shows "prefix (client_log c) (server_log w) \<and> distinct_keys (client_log c) \<and>
    (\<forall>k' c'. w_clients w k' = Some c' \<longrightarrow> prefix (client_log c) (client_log c') \<or> prefix (client_log c') (client_log c))"
proof -
  have inv: "world_inv w" using world_reach_inv [OF assms(2) world_init_inv [OF assms(1)] assms(3)] by simp
  then have pre: "prefix (client_log c') (server_log w)" if "w_clients w k' = Some c'" for k' c'
    using that by (simp add: world_inv_def client_inv_def)
  have "distinct_keys (client_log c)"
    using inv pre [OF assms(4)] by (auto simp: world_inv_def distinct_keys_def prefix_def)
  with pre [OF assms(4)] pre show ?thesis using prefix_same_cases by blast
qed

theorem clients_replicate_log_witness:
  "\<exists>w c. world_reach (example_world [example_item] (example_client [])) w \<and> w_clients w 0 = Some c \<and> cr_upPc c = UpRun \<and>
     prefix (client_log c) (server_log w) \<and> client_log c \<noteq> server_log w"
proof -
  have i: "world_init (example_world [example_item] (example_client []))"
    by (rule example_world_init [OF example_keys, where es' = "[]"]) (simp_all add: example_client_ok)
  obtain w c where w: "world_reach (example_world [example_item] (example_client [])) w" "w_clients w 0 = Some c"
    "cr_s c = example_client []" "cr_upPc c = UpRun" "s_wal (w_server w) = reopened [example_item]"
    using example_connected [OF example_client_ok(1-5), of "[example_item]" "[]"] by blast
  then have "server_log w = [example_item]" "client_log c = []"
    by (simp_all add: server_log_def client_log_def example_client_ok) (simp_all add: reopened_def)
  with clients_replicate_log [OF i w(1) _ w(2)] w show ?thesis by auto
qed



text \<open>C3: A client catches up: when everything the server wrote on its connection has arrived and has been
  handled, and the server's stream for it waits for the next entry, the log of the client is equal to
  the log of the server.\<close>

theorem clients_catch_up:
  assumes "world_init w0" "world_reach w0 w" "length (server_log w) < 2 ^ 32"
    and "w_clients w k = Some c" "cr_upPc c = UpRun" "cr_hkPc c \<noteq> HkEnd" "reading c" "inbox c = []"
    and "cr_arrived c = w_sent w (cr_conn c)" "s_players (w_server w) (cr_conn c) = Some p" "stream_idle (w_server w) p"
  shows "client_log c = server_log w"
proof -
  have inv: "world_inv w" using world_reach_inv [OF assms(2) world_init_inv [OF assms(1)] assms(3)] by simp
  then have ci: "client_inv (server_log w) c" "link_ok w c" and si: "session_inv (w_server w)" and cs: "conns_inv w"
    using assms(4) by (auto simp: world_inv_def)
  have "cr_tx c \<noteq> []" using ci(1) assms(5) by (simp add: client_inv_def phase_ok_def)
  with ci(2) assms(5,10) have start: "pr_start p = cr_start c" by (simp add: link_ok_def linked_def start_ok_def)
  have sent: "w_sent w (cr_conn c) = pr_sent p" using cs assms(10) by (simp add: conns_inv_def)
  obtain m where m: "client_at (server_log w) c m" using ci(1) assms(6) by (auto simp: client_inv_def following_def)
  then have "m = length (filter is_wal (cr_arrived c))" using assms(7,8) by (auto simp: client_at_def)
  moreover have "length (server_log w) \<le> unat (cr_start c) + length (filter is_wal (pr_sent p))"
    using idle_stream_all [OF si assms(10) _ assms(11)] assms(3) start by (auto simp: server_log_def)
  ultimately show ?thesis using m assms(9) sent by (simp add: client_at_def)
qed

theorem clients_catch_up_witness:
  "\<exists>w c p. world_reach (example_world [example_item] (example_client [example_item])) w \<and> w_clients w 0 = Some c \<and>
     s_players (w_server w) (cr_conn c) = Some p \<and> stream_idle (w_server w) p \<and>
     client_log c = server_log w \<and> server_log w = [example_item]"
proof -
  let ?s = "example_client [example_item]"
  have i: "world_init (example_world [example_item] ?s)"
    by (rule example_world_init [OF example_keys, where es' = "[example_item]"]) (simp_all add: example_client_ok)
  obtain w c where w: "world_reach (example_world [example_item] ?s) w" "w_clients w 0 = Some c" "cr_upPc c = UpRun"
    "cr_hkPc c = HkLoop" "reading c" "inbox c = []" "cr_arrived c = w_sent w (cr_conn c)"
    "s_players (w_server w) (cr_conn c) = Some (connected_player ?s)" "s_wal (w_server w) = reopened [example_item]"
    using example_connected [OF example_client_ok(1-5), of "[example_item]" "[example_item]"] by blast
  have log: "server_log w = [example_item]" using w(9) by (simp add: server_log_def) (simp add: reopened_def)
  have "Count (reopened [example_item]) = 1" by (simp add: Count_def reopened_def)
  then have idle: "stream_idle (w_server w) (connected_player ?s)"
    using w(9) by (simp add: stream_idle_def connected_player_def joined_player_def new_player_def next_entry_def Subscribe_def
        example_client_ok) (simp add: Get_def reopened_def)
  have "client_log c = server_log w"
    by (rule clients_catch_up [OF i w(1) _ w(2,3) _ w(5-8) idle]) (simp_all add: log w(4))
  with w idle log show ?thesis by blast
qed

end
