(* ===== verification/IpcConn.thy ===== *)
theory IpcConn
  imports IpcMsg
begin

text \<open>
  How the client finds and talks to a running game: the sockets and named pipes it polls,
  \<^verbatim>\<open>client/internal/ipc/platform_unix.go\<close>, \<^verbatim>\<open>platform_windows.go\<close> and \<^verbatim>\<open>unixsock.go\<close>, and the overlapped
  reads and writes on a pipe, \<^verbatim>\<open>project64_windows.go\<close>. The operating system is a parameter: what each
  call returns is part of the argument. Shown: a message of any length that Windows hands out in
  pieces is put together again, opening a pipe never leaks a handle, and the one way in which a piece
  is lost.
\<close>

section \<open>Finding a game\<close>

definition HasSuffix :: "string \<Rightarrow> string \<Rightarrow> bool" where
  "HasSuffix s x \<longleftrightarrow> length x \<le> length s \<and> drop (length s - length x) s = x"

definition HasPrefix :: "string \<Rightarrow> string \<Rightarrow> bool" where
  "HasPrefix s x \<longleftrightarrow> take (length x) s = x"

text \<open>
  \<^verbatim>\<open>getRuntimeDir\<close>: the package variable afterwards and the result; an unset environment variable is a
  panic.
\<close>

definition getRuntimeDir_unix :: "string \<Rightarrow> string \<Rightarrow> string option" where
  "getRuntimeDir_unix runtimeDir env =
     (if runtimeDir = '''' then (if env = '''' then None else Some env) else Some runtimeDir)"

definition getRuntimeDir_windows :: "string \<Rightarrow> string \<Rightarrow> string option" where
  "getRuntimeDir_windows runtimeDir env =
     (if runtimeDir = '''' then (if env = '''' then None else Some (env @ [CHR 0x5C] @ ''Temp'')) else Some runtimeDir)"

datatype ConnFactory = UnixConnFactory string | PJ64ConnFactory string

text \<open>\<open>entries\<close> is what \<^verbatim>\<open>os.ReadDir\<close> returns: the names, or an error; \<open>dir\<close> what \<^verbatim>\<open>getRuntimeDir\<close>
  returns.\<close>

definition listSockets :: "string option \<Rightarrow> string list result \<Rightarrow> string list option" where
  "listSockets dir entries =
     map_option (\<lambda>dir. let dir = dir @ ''/n64-ipc''
       in case entries of
            Inl err \<Rightarrow> []
          | Inr names \<Rightarrow> map (\<lambda>name. dir @ ''/'' @ name) (filter (\<lambda>name. HasSuffix name ''.sock'') names)) dir"

definition PollUnix :: "string option \<Rightarrow> string list result \<Rightarrow> ConnFactory list option" where
  "PollUnix dir entries = map_option (map UnixConnFactory) (listSockets dir entries)"

definition Poll_unix :: "string \<Rightarrow> string \<Rightarrow> string list result \<Rightarrow> ConnFactory list option" where
  "Poll_unix runtimeDir env sockets = PollUnix (getRuntimeDir_unix runtimeDir env) sockets"

definition pipe_dir :: string where
  "pipe_dir = [CHR 0x5C, CHR 0x5C, CHR ''.'', CHR 0x5C] @ ''pipe'' @ [CHR 0x5C]"

definition listPipes :: "string list result \<Rightarrow> string list" where
  "listPipes entries =
     (case entries of
        Inl err \<Rightarrow> []
      | Inr names \<Rightarrow> map (\<lambda>name. pipe_dir @ name) (filter (\<lambda>name. HasPrefix name ''pj64em-ipc.'') names))"

definition PollProject64 :: "string list result \<Rightarrow> ConnFactory list" where
  "PollProject64 entries = map PJ64ConnFactory (listPipes entries)"

definition Poll_windows :: "string \<Rightarrow> string \<Rightarrow> string list result \<Rightarrow> string list result \<Rightarrow> ConnFactory list option" where
  "Poll_windows runtimeDir env pipes sockets =
     map_option (\<lambda>unix. PollProject64 pipes @ unix) (PollUnix (getRuntimeDir_windows runtimeDir env) sockets)"

section \<open>Unix sockets\<close>

text \<open>
  Opening and closing the socket of a game; \<open>dial\<close> is what \<^verbatim>\<open>net.DialUnix\<close> returns, and \<open>os_open\<close> are the
  connections the process holds. Reading and writing are in \<open>IpcMsg\<close>.
\<close>

record UnixConn =
  uc_conn :: nat

definition newUnixConn :: "(string \<Rightarrow> nat result) \<Rightarrow> nat set \<Rightarrow> string \<Rightarrow> nat set \<times> UnixConn result" where
  "newUnixConn dial os_open path =
     (case dial path of
        Inl err \<Rightarrow> (os_open, Inl err)
      | Inr conn \<Rightarrow> (insert conn os_open, Inr \<lparr>uc_conn = conn\<rparr>))"

definition UnixConn_Close :: "nat set \<Rightarrow> UnixConn \<Rightarrow> nat set" where
  "UnixConn_Close os_open conn = os_open - {uc_conn conn}"

lemma unix_open_no_leak:
  assumes "newUnixConn dial os_open path = (os_open', r)" "\<forall>h. dial path = Inr h \<longrightarrow> h \<notin> os_open"
  shows "case r of Inl err \<Rightarrow> os_open' = os_open | Inr conn \<Rightarrow> UnixConn_Close os_open' conn = os_open"
  using assms by (auto simp: newUnixConn_def UnixConn_Close_def split: sum.splits)

section \<open>Named pipes\<close>

datatype winerr = ERROR_IO_PENDING | ERROR_MORE_DATA | WinErr nat

text \<open>A handle is a number; \<open>os_open\<close> are the handles the process holds.\<close>

record PJ64Conn =
  pj_path :: string
  pj_handle :: nat
  pj_readEvent :: nat
  pj_writeEvent :: nat

text \<open>What the calls of \<^verbatim>\<open>newPJ64Conn\<close> return: the conversion of the path, \<^verbatim>\<open>CreateFile\<close>,
  \<^verbatim>\<open>SetNamedPipeHandleState\<close>, and the two \<^verbatim>\<open>CreateEvent\<close>.\<close>

record pj_open_io =
  po_utf16 :: "winerr option"
  po_file :: "winerr + nat"
  po_mode :: "winerr option"
  po_readEvent :: "winerr + nat"
  po_writeEvent :: "winerr + nat"

definition newPJ64Conn :: "pj_open_io \<Rightarrow> nat set \<Rightarrow> string \<Rightarrow> nat set \<times> (winerr + PJ64Conn)" where
  "newPJ64Conn io os_open path =
     (case po_utf16 io of
        Some err \<Rightarrow> (os_open, Inl err)
      | None \<Rightarrow>
     (case po_file io of
        Inl err \<Rightarrow> (os_open, Inl err)
      | Inr h \<Rightarrow>
     (let os_open = insert h os_open in
     (case po_mode io of
        Some err \<Rightarrow> (os_open - {h}, Inl err)
      | None \<Rightarrow>
     (case po_readEvent io of
        Inl err \<Rightarrow> (os_open - {h}, Inl err)
      | Inr readEvent \<Rightarrow>
     (let os_open = insert readEvent os_open in
     (case po_writeEvent io of
        Inl err \<Rightarrow> (os_open - {readEvent} - {h}, Inl err)
      | Inr writeEvent \<Rightarrow>
          (insert writeEvent os_open,
           Inr \<lparr>pj_path = path, pj_handle = h, pj_readEvent = readEvent, pj_writeEvent = writeEvent\<rparr>))))))))"

definition PJ64Conn_Close :: "nat set \<Rightarrow> PJ64Conn \<Rightarrow> nat set" where
  "PJ64Conn_Close os_open conn = os_open - {pj_handle conn} - {pj_readEvent conn} - {pj_writeEvent conn}"

text \<open>\<^verbatim>\<open>Open\<close> of a factory, whichever it is, with the connection and \<^verbatim>\<open>Close\<close> of the interface \<^verbatim>\<open>Conn\<close>.\<close>

datatype Conn = ConnUnix UnixConn | ConnPJ64 PJ64Conn
datatype open_error = UnixError go_error | PipeError winerr

definition UnixConnFactory_Open ::
    "(string \<Rightarrow> nat result) \<Rightarrow> nat set \<Rightarrow> string \<Rightarrow> nat set \<times> (open_error + Conn)" where
  "UnixConnFactory_Open dial os_open path =
     (case newUnixConn dial os_open path of
        (os_open, Inl err) \<Rightarrow> (os_open, Inl (UnixError err))
      | (os_open, Inr conn) \<Rightarrow> (os_open, Inr (ConnUnix conn)))"

definition PJ64ConnFactory_Open :: "pj_open_io \<Rightarrow> nat set \<Rightarrow> string \<Rightarrow> nat set \<times> (open_error + Conn)" where
  "PJ64ConnFactory_Open io os_open path =
     (case newPJ64Conn io os_open path of
        (os_open, Inl err) \<Rightarrow> (os_open, Inl (PipeError err))
      | (os_open, Inr conn) \<Rightarrow> (os_open, Inr (ConnPJ64 conn)))"

fun ConnFactory_Open ::
    "(string \<Rightarrow> nat result) \<Rightarrow> pj_open_io \<Rightarrow> nat set \<Rightarrow> ConnFactory \<Rightarrow> nat set \<times> (open_error + Conn)" where
  "ConnFactory_Open dial io os_open (UnixConnFactory path) = UnixConnFactory_Open dial os_open path"
| "ConnFactory_Open dial io os_open (PJ64ConnFactory path) = PJ64ConnFactory_Open io os_open path"

fun Conn_Close :: "nat set \<Rightarrow> Conn \<Rightarrow> nat set" where
  "Conn_Close os_open (ConnUnix conn) = UnixConn_Close os_open conn"
| "Conn_Close os_open (ConnPJ64 conn) = PJ64Conn_Close os_open conn"

text \<open>
  One overlapped operation: what starting it returned, what waiting for its event returned, the
  result of \<^verbatim>\<open>GetOverlappedResult\<close>, and the bytes in the buffer.
\<close>

record overlapped =
  ov_start :: "winerr option"
  ov_wait :: "winerr option"
  ov_result :: "nat \<times> winerr option"
  ov_buf :: bytes

definition waitOverlapped :: "overlapped \<Rightarrow> nat \<times> winerr option" where
  "waitOverlapped ov =
     (if ov_start ov \<noteq> None \<and> ov_start ov \<noteq> Some ERROR_IO_PENDING then (0, ov_start ov)
      else if ov_start ov = Some ERROR_IO_PENDING \<and> ov_wait ov \<noteq> None then (0, ov_wait ov)
      else ov_result ov)"

text \<open>
  \<^verbatim>\<open>Read\<close>: the operations are what Windows does with the successive calls of \<^verbatim>\<open>ReadFile\<close>, the result of
  the loop is \<^const>\<open>None\<close> while it waits for more of them, and in the inner option a panic of \<^verbatim>\<open>buf[:n]\<close>.
\<close>

fun PJ64_Read_loop :: "overlapped list \<Rightarrow> bytes \<Rightarrow> (winerr + bytes) option option" where
  "PJ64_Read_loop [] msg = None"
| "PJ64_Read_loop (ov # ovs) msg =
     (let (n, err) = waitOverlapped ov
      in case slice (ov_buf ov) 0 n of
           None \<Rightarrow> Some None
         | Some part \<Rightarrow>
             (let msg = msg @ part
              in case err of
                   None \<Rightarrow> Some (Some (Inr msg))
                 | Some e \<Rightarrow> if e = ERROR_MORE_DATA then PJ64_Read_loop ovs msg else Some (Some (Inl e))))"

definition PJ64_Read :: "overlapped list \<Rightarrow> (winerr + bytes) option option" where
  "PJ64_Read ovs = PJ64_Read_loop ovs []"

definition PJ64_Write :: "overlapped \<Rightarrow> winerr option" where
  "PJ64_Write ov = snd (waitOverlapped ov)"

section \<open>A message in pieces\<close>

text \<open>
  How Windows hands out a message on a pipe in message mode when each read completes after
  \<^verbatim>\<open>ReadFile\<close> has returned: pieces of at most 512 bytes, with \<^const>\<open>ERROR_MORE_DATA\<close> on all but the last.
\<close>

definition buffer_with :: "bytes \<Rightarrow> bytes" where
  "buffer_with part = part @ replicate (512 - length part) 0"

definition pending_read :: "winerr option \<Rightarrow> bytes \<Rightarrow> overlapped" where
  "pending_read err part = \<lparr>ov_start = Some ERROR_IO_PENDING, ov_wait = None, ov_result = (length part, err),
     ov_buf = buffer_with part\<rparr>"

fun pipe_reads :: "bytes list \<Rightarrow> bytes \<Rightarrow> overlapped list" where
  "pipe_reads [] final = [pending_read None final]"
| "pipe_reads (part # parts) final = pending_read (Some ERROR_MORE_DATA) part # pipe_reads parts final"

text \<open>A read that is complete when \<^verbatim>\<open>ReadFile\<close> returns, with more of the message to come.\<close>

definition immediate_read :: "bytes \<Rightarrow> overlapped" where
  "immediate_read part = \<lparr>ov_start = Some ERROR_MORE_DATA, ov_wait = None, ov_result = (length part, Some ERROR_MORE_DATA),
     ov_buf = buffer_with part\<rparr>"

lemma slice_buffer: "length part \<le> 512 \<Longrightarrow> slice (buffer_with part) 0 (length part) = Some part"
  by (simp add: slice_def buffer_with_def)

lemma Read_loop_pieces:
  "\<forall>part\<in>set (parts @ [final]). length part \<le> 512 \<Longrightarrow>
   PJ64_Read_loop (pipe_reads parts final @ rest) msg = Some (Some (Inr (msg @ concat parts @ final)))"
  by (induction parts arbitrary: msg) (auto simp: pending_read_def waitOverlapped_def slice_buffer)

lemma Read_loop_immediate:
  "PJ64_Read_loop (immediate_read part # rest) msg = PJ64_Read_loop rest msg"
  by (simp add: immediate_read_def waitOverlapped_def slice_def)

section \<open>Properties\<close>

text \<open>C38: A message of any length on a named pipe is read whole: when Windows hands it out in pieces of at
  most 512 bytes, each completing after \<^verbatim>\<open>ReadFile\<close> has returned, \<^verbatim>\<open>Read\<close> returns their concatenation
  after exactly as many reads. But a piece that is complete at once, where \<^verbatim>\<open>ReadFile\<close> itself reports
  that there is more, is dropped, and the rest is returned as if it were the message.\<close>

theorem pipe_message_whole:
  assumes "\<forall>part\<in>set (parts @ [final]). length part \<le> 512"
  shows "PJ64_Read (pipe_reads parts final @ rest) = Some (Some (Inr (concat parts @ final))) \<and>
    PJ64_Read (immediate_read first # pipe_reads parts final @ rest) = Some (Some (Inr (concat parts @ final)))"
  using Read_loop_pieces [OF assms, of rest "[]"] by (simp add: PJ64_Read_def Read_loop_immediate del: PJ64_Read_loop.simps)

theorem pipe_message_whole_witness:
  "PJ64_Read (pipe_reads [replicate 512 1] [2, 3]) = Some (Some (Inr (replicate 512 1 @ [2, 3]))) \<and>
   PJ64_Read (immediate_read (replicate 512 1) # pipe_reads [] [2, 3]) = Some (Some (Inr [2, 3]))"
  using pipe_message_whole [of "[replicate 512 1]" "[2, 3]" "[]"] pipe_message_whole [of "[]" "[2, 3]" "[]" "replicate 512 1"]
  by simp

text \<open>Opening a pipe does not leak: on every error the process holds the handles it held before, and a
  connection that is closed gives all three back.\<close>

lemma pipe_open_no_leak:
  assumes "newPJ64Conn io os_open path = (os_open', r)"
    and "\<forall>h \<in> {x. po_file io = Inr x} \<union> {x. po_readEvent io = Inr x} \<union> {x. po_writeEvent io = Inr x}. h \<notin> os_open"
  shows "case r of Inl err \<Rightarrow> os_open' = os_open
    | Inr conn \<Rightarrow> os_open \<subseteq> os_open' \<and> PJ64Conn_Close os_open' conn = os_open"
  using assms
  by (auto simp: newPJ64Conn_def PJ64Conn_Close_def Let_def split: option.splits sum.splits)

text \<open>So whichever way a game is reached, a failed open holds nothing and a closed connection gives back
  what it held.\<close>

lemma open_no_leak:
  assumes "ConnFactory_Open dial io os_open factory = (os_open', r)" "\<forall>path h. dial path = Inr h \<longrightarrow> h \<notin> os_open"
    and "\<forall>h \<in> {x. po_file io = Inr x} \<union> {x. po_readEvent io = Inr x} \<union> {x. po_writeEvent io = Inr x}. h \<notin> os_open"
  shows "case r of Inl err \<Rightarrow> os_open' = os_open | Inr conn \<Rightarrow> Conn_Close os_open' conn = os_open"
proof (cases factory)
  case (UnixConnFactory path)
  obtain os1 r1 where "newUnixConn dial os_open path = (os1, r1)" by fastforce
  with unix_open_no_leak [OF this] assms(1,2) UnixConnFactory show ?thesis
    by (cases r1) (auto simp: UnixConnFactory_Open_def)
next
  case (PJ64ConnFactory path)
  obtain os1 r1 where "newPJ64Conn io os_open path = (os1, r1)" by fastforce
  with pipe_open_no_leak [OF this assms(3)] assms(1) PJ64ConnFactory show ?thesis
    by (cases r1) (auto simp: PJ64ConnFactory_Open_def)
qed

end
