(* ===== verification/Config.thy ===== *)
theory Config
  imports Prelude
begin

text \<open>
  The configuration of the two programs, \<^verbatim>\<open>client/internal/config/config.go\<close> and
  \<^verbatim>\<open>server/internal/config/config.go\<close>, and the directories and the choice of program they start from
  (\<^verbatim>\<open>client/internal/util\<close>, \<^verbatim>\<open>client/main.go\<close>), with the file association of the Windows client
  (\<^verbatim>\<open>client/internal/app/util_windows.go\<close>). The flag package is a parameter: given the flags that
  are defined and the arguments, it returns the values that were set and the positional arguments.
  What it relies on is that package's documented behaviour: a flag that is not set keeps its default.
\<close>

section \<open>Flags\<close>

datatype flag_val = FlagString string | FlagUint16 u16

record flag =
  fl_name :: string
  fl_shorthand :: string
  fl_default :: flag_val

type_synonym flag_values = "string \<Rightarrow> flag_val option"
type_synonym flag_parser = "flag list \<Rightarrow> string list \<Rightarrow> (flag_values \<times> string list) result"

definition string_flag :: "flag_values \<Rightarrow> string \<Rightarrow> string \<Rightarrow> string" where
  "string_flag vals name def = (case vals name of Some (FlagString s) \<Rightarrow> s | _ \<Rightarrow> def)"

definition uint16_flag :: "flag_values \<Rightarrow> string \<Rightarrow> u16 \<Rightarrow> u16" where
  "uint16_flag vals name def = (case vals name of Some (FlagUint16 n) \<Rightarrow> n | _ \<Rightarrow> def)"

section \<open>The client\<close>

record ClientConfig =
  cc_GamePatchPath :: string
  cc_DataDir :: string
  cc_UpstreamServer :: string
  cc_UpstreamPort :: u16

text \<open>\<open>confDir\<close> is what \<^verbatim>\<open>os.UserConfigDir\<close> returns.\<close>

definition client_data_dir :: "string result \<Rightarrow> string" where
  "client_data_dir confDir = (case confDir of Inl err \<Rightarrow> ''./data/client'' | Inr dir \<Rightarrow> dir @ ''/OoTMM/client'')"

definition client_flags :: "string \<Rightarrow> flag list" where
  "client_flags defaultDataDir =
     [\<lparr>fl_name = ''data'', fl_shorthand = ''d'', fl_default = FlagString defaultDataDir\<rparr>,
      \<lparr>fl_name = ''server'', fl_shorthand = ''s'', fl_default = FlagString ''multi.ootmm.com''\<rparr>,
      \<lparr>fl_name = ''port'', fl_shorthand = ''p'', fl_default = FlagUint16 14236\<rparr>]"

definition ParseConfig :: "string result \<Rightarrow> flag_parser \<Rightarrow> string list \<Rightarrow> ClientConfig result" where
  "ParseConfig confDir parse args =
     (let defaultDataDir = client_data_dir confDir
      in case parse (client_flags defaultDataDir) args of
           Inl err \<Rightarrow> Inl err
         | Inr (vals, posArgs) \<Rightarrow>
             if length posArgs = 1
             then Inr \<lparr>cc_GamePatchPath = hd posArgs, cc_DataDir = string_flag vals ''data'' defaultDataDir,
                    cc_UpstreamServer = string_flag vals ''server'' ''multi.ootmm.com'',
                    cc_UpstreamPort = uint16_flag vals ''port'' 14236\<rparr>
             else Inl (Errorf ''expected exactly one positional argument (path to game patch), got %d''))"

text \<open>\<^verbatim>\<open>RunDir\<close> of both platforms; the argument is the environment variable.\<close>

definition RunDir_unix :: "string \<Rightarrow> string" where
  "RunDir_unix env = env @ ''/ootmm''"

definition RunDir_windows :: "string \<Rightarrow> string" where
  "RunDir_windows env = env @ [CHR 0x5C] @ ''OoTMM''"

text \<open>\<^verbatim>\<open>main\<close> of the client: the same executable is the client and the daemon.\<close>

datatype client_program = RunDaemon | StartApp

definition client_main :: "string list \<Rightarrow> client_program" where
  "client_main args = (if length args > 1 \<and> args ! 1 = ''--daemon'' then RunDaemon else StartApp)"

text \<open>
  \<^verbatim>\<open>registerFileAssociation\<close> on Windows. \<open>create\<close> is what \<^verbatim>\<open>registry.CreateKey\<close> returns for a path: an
  error, or whether the key existed. The result is the values written, as pairs of key and value, and
  whether the shell is notified. The code keeps \<^verbatim>\<open>ok\<close> of the second call for the third and fourth.
\<close>

definition assoc_key :: "nat \<Rightarrow> string" where
  "assoc_key i = ''Software'' @ [CHR 0x5C] @ ''Classes'' @ [CHR 0x5C] @
     (if i = 0 then ''.ootmm''
      else if i = 1 then ''OoTMM.Patch''
      else if i = 2 then ''OoTMM.Patch'' @ [CHR 0x5C] @ ''shell'' @ [CHR 0x5C] @ ''open'' @ [CHR 0x5C] @ ''command''
      else ''OoTMM.Patch'' @ [CHR 0x5C] @ ''DefaultIcon'')"

definition quoted :: "string \<Rightarrow> string" where
  "quoted s = [CHR 0x22] @ s @ [CHR 0x22]"

definition registerFileAssociation ::
    "string result \<Rightarrow> (string \<Rightarrow> bool result) \<Rightarrow> (string \<times> string) list \<times> bool" where
  "registerFileAssociation executable create =
     (case executable of
        Inl err \<Rightarrow> ([], False)
      | Inr path \<Rightarrow>
     (case create (assoc_key 0) of
        Inl err \<Rightarrow> ([], False)
      | Inr ok \<Rightarrow>
     (let changed = False \<or> \<not> ok; vals = [(assoc_key 0, ''OoTMM.Patch'')] in
     (case create (assoc_key 1) of
        Inl err \<Rightarrow> (vals, False)
      | Inr ok \<Rightarrow>
     (let changed = changed \<or> \<not> ok; vals = vals @ [(assoc_key 1, ''OoTMM Patch File'')] in
     (case create (assoc_key 2) of
        Inl err \<Rightarrow> (vals, False)
      | Inr _ \<Rightarrow>
     (let changed = changed \<or> \<not> ok; vals = vals @ [(assoc_key 2, quoted path @ '' '' @ quoted ''%1'')] in
     (case create (assoc_key 3) of
        Inl err \<Rightarrow> (vals, False)
      | Inr _ \<Rightarrow>
     (let changed = changed \<or> \<not> ok; vals = vals @ [(assoc_key 3, quoted path @ '',-2'')] in
      (vals, changed))))))))))"

section \<open>The server\<close>

record ServerConfig =
  sc_DataDir :: string
  sc_NatsURL :: string

text \<open>
  The flags of the server are those of the process (\<^verbatim>\<open>flag.CommandLine\<close>), which ends the process on
  an error of its own: that is \<^const>\<open>None\<close>. \<open>data_env\<close> and \<open>nats_env\<close> are the environment variables.
\<close>

definition server_ParseConfig :: "string \<Rightarrow> string \<Rightarrow> flag_parser \<Rightarrow> string list \<Rightarrow> ServerConfig option" where
  "server_ParseConfig data_env nats_env parse args =
     (let defaultDataDir = (if data_env = '''' then ''./data/server'' else data_env);
          flags = [\<lparr>fl_name = ''data'', fl_shorthand = ''d'', fl_default = FlagString defaultDataDir\<rparr>]
      in case parse flags args of
           Inl err \<Rightarrow> None
         | Inr (vals, posArgs) \<Rightarrow>
             Some \<lparr>sc_DataDir = string_flag vals ''data'' defaultDataDir, sc_NatsURL = nats_env\<rparr>)"

section \<open>Lemmas\<close>

lemma ParseConfig_Inr_iff:
  "(\<exists>conf. ParseConfig confDir parse args = Inr conf) \<longleftrightarrow>
   (\<exists>vals path. parse (client_flags (client_data_dir confDir)) args = Inr (vals, [path]))"
  by (auto simp: ParseConfig_def Let_def length_Suc_conv split: sum.splits if_splits)

lemma ParseConfig_defaults:
  assumes "ParseConfig confDir (\<lambda>flags args. Inr (\<lambda>_. None, args)) [path] = Inr conf"
  shows "cc_GamePatchPath conf = path" "cc_DataDir conf = client_data_dir confDir"
    "cc_UpstreamServer conf = ''multi.ootmm.com''" "cc_UpstreamPort conf = 14236"
  using assms by (auto simp: ParseConfig_def Let_def string_flag_def uint16_flag_def)

text \<open>
  When all four keys can be written, the shell is notified exactly when one of the first two keys is
  new: a new command or icon key alone goes unnoticed.
\<close>

lemma association_notifies:
  assumes "\<forall>i<4. \<exists>ok. create (assoc_key i) = Inr ok"
  shows "snd (registerFileAssociation (Inr path) create) \<longleftrightarrow>
      create (assoc_key 0) = Inr False \<or> create (assoc_key 1) = Inr False"
    and "length (fst (registerFileAssociation (Inr path) create)) = 4"
proof -
  obtain b0 b1 b2 b3 where "create (assoc_key 0) = Inr b0" "create (assoc_key 1) = Inr b1"
    "create (assoc_key 2) = Inr b2" "create (assoc_key 3) = Inr b3"
    using assms [rule_format, of 0] assms [rule_format, of 1] assms [rule_format, of 2] assms [rule_format, of 3] by auto
  then show "snd (registerFileAssociation (Inr path) create) \<longleftrightarrow>
      create (assoc_key 0) = Inr False \<or> create (assoc_key 1) = Inr False"
    "length (fst (registerFileAssociation (Inr path) create)) = 4"
    by (auto simp: registerFileAssociation_def Let_def)
qed

end
