(* ===== verification/ClientApp.thy ===== *)
theory ClientApp
  imports ClientSafety IpcConn Config
begin

text \<open>
  The client program, \<^verbatim>\<open>client/internal/app/app.go\<close>, around the sessions it runs: it polls for games,
  opens a connection to one, reads its hello, runs a session until its context is done, and goes back
  to polling until it is interrupted. \<^verbatim>\<open>game.Run\<close> is here as a whole: what it does before, while and
  after its goroutines run. Shown: a session whose context is done can always be brought to its end,
  in whatever state its goroutines are, and how many connections to games are open, which is where
  the early returns of \<^verbatim>\<open>game.Run\<close> show.
\<close>

section \<open>Polling\<close>

definition modeStr :: "InfoMode \<Rightarrow> string" where
  "modeStr mode = (case mode of InfoModeSingle \<Rightarrow> ''Single Player'' | InfoModeCoop \<Rightarrow> ''Co-op'' | InfoModeMulti \<Rightarrow> ''Multiplayer'')"

text \<open>\<^verbatim>\<open>hello\<close>, given what \<^verbatim>\<open>conn.Read\<close> returned.\<close>

definition app_hello :: "bytes result \<Rightarrow> MessageBodyHelloIn go" where
  "app_hello raw =
     (case raw of
        Inl err \<Rightarrow> Some (Inl (Wrapf ''failed to read from connection: %w'' err))
      | Inr raw \<Rightarrow>
     (case ParseMessage raw of
        None \<Rightarrow> None
      | Some (Inl err) \<Rightarrow> Some (Inl (Wrapf ''failed to parse message: %w'' err))
      | Some (Inr msg) \<Rightarrow>
          if msg_Op msg \<noteq> ipc_OpHello then Some (Inl (Errorf ''unexpected operation code: %d''))
          else if msg_Seq msg \<noteq> 0 then Some (Inl (Errorf ''unexpected sequence number: %d''))
          else
     (case ParseMessageBodyHelloIn (msg_Payload msg) of
        None \<Rightarrow> None
      | Some (Inl err) \<Rightarrow> Some (Inl (Wrapf ''failed to parse HELLO_IN message body: %w'' err))
      | Some (Inr hello) \<Rightarrow>
          if hi_Magic hello \<noteq> game_magic then Some (Inl (Errorf ''unexpected magic: %x''))
          else Some (Inr hello))))"

text \<open>Opening a connection fails, or gives one, on which the first read returns something.\<close>

datatype open_io = OpenFails go_error | Opens nat "bytes result"

text \<open>One pass over the factories; \<open>os_open\<close> are the open connections to games.\<close>

fun poll_pass :: "(ConnFactory \<Rightarrow> open_io) \<Rightarrow> ConnFactory list \<Rightarrow> nat set \<Rightarrow>
    (nat set \<times> (nat \<times> MessageBodyHelloIn) option) option" where
  "poll_pass io [] os_open = Some (os_open, None)"
| "poll_pass io (factory # factories) os_open =
     (case io factory of
        OpenFails err \<Rightarrow> poll_pass io factories os_open
      | Opens conn raw \<Rightarrow>
          (let os_open = insert conn os_open
           in case app_hello raw of
                None \<Rightarrow> None
              | Some (Inl err) \<Rightarrow> poll_pass io factories (os_open - {conn})
              | Some (Inr hello) \<Rightarrow> Some (os_open, Some (conn, hello))))"

section \<open>The session as a whole\<close>

text \<open>All goroutines that \<^verbatim>\<open>Run\<close> waits for have returned.\<close>

definition all_ended :: "ClientRun \<Rightarrow> bool" where
  "all_ended c \<longleftrightarrow> cr_inPc c = MiEnd \<and> cr_outPc c = MoEnd \<and> cr_loopPc c = LpEnd \<and> cr_sqPc c = SqEnd \<and> cr_upPc c = UpEnd"

definition game_start_msg :: "GameSession \<Rightarrow> Msg" where
  "game_start_msg s = (zero_msg MsgTypeGameStart)
     \<lparr>dm_SessionID := EncodeToString (in_SessionID (gs_Info s)), dm_PlayerID := EncodeToString (gs_PlayerID s),
      dm_PlayerName := TrimRight_nul (gs_PlayerName s), dm_WorldID := uint (in_WorldID (gs_Info s))\<rparr>"

text \<open>
  Where \<^verbatim>\<open>Run\<close> is once its goroutines are started: sending the start event, waiting for the context,
  in \<^verbatim>\<open>Close\<close> of the position system, which waits for its goroutine, waiting for the other goroutines
  after it closed the connection, sending the end event.
\<close>

datatype run_pc = RunStart | RunWait | RunPos | RunJoin | RunEnd

datatype app_pc = AppLoop | AppSleep | AppGame nat MessageBodyHelloIn | AppRun nat run_pc ClientRun | AppEnd

text \<open>
  The program: whether it was interrupted, where its main goroutine is, the open connections to games,
  and the channel to the daemon while no session has it. \<open>ca_rejected\<close> only counts the sessions that
  \<^verbatim>\<open>Run\<close> gave up before it started them.
\<close>

record ClientApp =
  ca_cancelled :: bool
  ca_pc :: app_pc
  ca_open :: "nat set"
  ca_daemon :: "Msg chan"
  ca_rejected :: nat

definition app_init :: ClientApp where
  "app_init = \<lparr>ca_cancelled = False, ca_pc = AppLoop, ca_open = {}, ca_daemon = make_chan 128, ca_rejected = 0\<rparr>"

text \<open>The connections that can be opened are not open.\<close>

definition fresh_opens :: "(ConnFactory \<Rightarrow> open_io) \<Rightarrow> nat set \<Rightarrow> bool" where
  "fresh_opens io os_open \<longleftrightarrow> (\<forall>factory conn raw. io factory = Opens conn raw \<longrightarrow> conn \<notin> os_open)"

inductive app_step :: "ClientConfig \<Rightarrow> Info \<Rightarrow> ClientApp \<Rightarrow> ClientApp \<Rightarrow> bool" for conf info where
  interrupt: "app_step conf info a (a\<lparr>ca_cancelled := True\<rparr>)"
| stop: "ca_pc a = AppLoop \<Longrightarrow> ca_cancelled a \<Longrightarrow> app_step conf info a (a\<lparr>ca_pc := AppEnd\<rparr>)"
| poll_none: "ca_pc a = AppLoop \<Longrightarrow> \<not> ca_cancelled a \<Longrightarrow> fresh_opens io (ca_open a) \<Longrightarrow>
    poll_pass io factories (ca_open a) = Some (os_open, None) \<Longrightarrow>
    app_step conf info a (a\<lparr>ca_pc := AppSleep, ca_open := os_open\<rparr>)"
| poll_game: "ca_pc a = AppLoop \<Longrightarrow> \<not> ca_cancelled a \<Longrightarrow> fresh_opens io (ca_open a) \<Longrightarrow>
    poll_pass io factories (ca_open a) = Some (os_open, Some (conn, hello)) \<Longrightarrow>
    app_step conf info a (a\<lparr>ca_pc := AppGame conn hello, ca_open := os_open\<rparr>)"
| wake: "ca_pc a = AppSleep \<Longrightarrow> app_step conf info a (a\<lparr>ca_pc := AppLoop\<rparr>)"
| run_reject: "ca_pc a = AppGame conn hello \<Longrightarrow> Run_open io (cc_DataDir conf) info hello = Some (Inl err) \<Longrightarrow>
    app_step conf info a (a\<lparr>ca_pc := AppLoop, ca_rejected := Suc (ca_rejected a)\<rparr>)"
| run_start: "ca_pc a = AppGame conn hello \<Longrightarrow> Run_open io (cc_DataDir conf) info hello = Some (Inr (s, m)) \<Longrightarrow>
    app_step conf info a (a\<lparr>ca_pc := AppRun conn RunStart (Run_start s m (ca_daemon a))\<rparr>)"
| run_step: "ca_pc a = AppRun conn pc c \<Longrightarrow> pc \<noteq> RunEnd \<Longrightarrow> client_step c c' \<Longrightarrow>
    app_step conf info a (a\<lparr>ca_pc := AppRun conn pc c'\<rparr>)"
| run_dial: "ca_pc a = AppRun conn pc c \<Longrightarrow> cr_upPc c = UpDial \<Longrightarrow>
    app_step conf info a (a\<lparr>ca_pc := AppRun conn pc (dialled n c)\<rparr>)"
| run_arrive: "ca_pc a = AppRun conn pc c \<Longrightarrow> app_step conf info a (a\<lparr>ca_pc := AppRun conn pc (arrived pkt c)\<rparr>)"
| run_started: "ca_pc a = AppRun conn RunStart c \<Longrightarrow> chan_send (game_start_msg (cr_s c)) (cr_daemon c) = Some ch \<Longrightarrow>
    app_step conf info a (a\<lparr>ca_pc := AppRun conn RunWait (c\<lparr>cr_daemon := ch\<rparr>)\<rparr>)"
| run_positions: "ca_pc a = AppRun conn RunWait c \<Longrightarrow> gs_done (cr_s c) \<Longrightarrow>
    app_step conf info a (a\<lparr>ca_pc := AppRun conn RunPos (PositionSystem_Close c)\<rparr>)"
| run_close: "ca_pc a = AppRun conn RunPos c \<Longrightarrow> cr_posPc c = PosEnd \<Longrightarrow>
    app_step conf info a (a\<lparr>ca_pc := AppRun conn RunJoin c, ca_open := ca_open a - {conn}\<rparr>)"
| run_join: "ca_pc a = AppRun conn RunJoin c \<Longrightarrow> all_ended c \<Longrightarrow>
    app_step conf info a (a\<lparr>ca_pc := AppRun conn RunEnd c\<rparr>)"
| run_drain: "ca_pc a = AppRun conn RunEnd c \<Longrightarrow> chan_recv (cr_daemon c) = Some (m, ch) \<Longrightarrow>
    app_step conf info a (a\<lparr>ca_pc := AppRun conn RunEnd (c\<lparr>cr_daemon := ch\<rparr>)\<rparr>)"
| run_end: "ca_pc a = AppRun conn RunEnd c \<Longrightarrow> chan_send (zero_msg MsgTypeGameEnd) (cr_daemon c) = Some ch \<Longrightarrow>
    app_step conf info a (a\<lparr>ca_pc := AppLoop, ca_daemon := ch\<rparr>)"
| daemon_recv: "\<forall>conn pc c. ca_pc a \<noteq> AppRun conn pc c \<Longrightarrow> chan_recv (ca_daemon a) = Some (m, ch) \<Longrightarrow>
    app_step conf info a (a\<lparr>ca_daemon := ch\<rparr>)"

inductive app_reach :: "ClientConfig \<Rightarrow> Info \<Rightarrow> ClientApp \<Rightarrow> bool" for conf info where
  init: "app_reach conf info app_init"
| step: "app_reach conf info a \<Longrightarrow> app_step conf info a a' \<Longrightarrow> app_reach conf info a'"

section \<open>Lemmas on polling\<close>

lemma app_hello_no_panic: "app_hello raw \<noteq> None"
  by (simp add: app_hello_def ParseMessage_no_panic HelloIn_no_panic split: sum.split option.split del: not_None_eq)

lemma poll_pass_open:
  assumes "poll_pass io factories os_open = Some (os_open', r)" "fresh_opens io os_open"
  shows "case r of None \<Rightarrow> os_open' = os_open
    | Some (conn, hello) \<Rightarrow> os_open' = insert conn os_open \<and> conn \<notin> os_open \<and> hi_Magic hello = game_magic"
  using assms
proof (induction io factories os_open arbitrary: os_open' r rule: poll_pass.induct)
  case (2 io factory factories os_open)
  show ?case
  proof (cases "io factory")
    case OpenFails
    with 2 show ?thesis by simp
  next
    case (Opens conn raw)
    with 2(4) have new: "conn \<notin> os_open" by (auto simp: fresh_opens_def)
    from new have same: "insert conn os_open - {conn} = os_open" by simp
    obtain h where h: "app_hello raw = Some h" using app_hello_no_panic [of raw] by auto
    show ?thesis
    proof (cases h)
      case (Inl err)
      with 2(3,4) Opens h same have "poll_pass io factories os_open = Some (os_open', r)" by simp
      with 2(2) [OF Opens refl h Inl, unfolded same] 2(4) show ?thesis by blast
    next
      case (Inr hello)
      with h have "hi_Magic hello = game_magic"
        by (auto simp: app_hello_def split: sum.splits option.splits if_splits)
      with 2(3) Opens h Inr new show ?thesis by auto
    qed
  qed
qed simp

section \<open>The state of a session\<close>

text \<open>The log in memory is consistent and the channels keep their capacities, whatever the client does.\<close>

definition run_ok :: "ClientRun \<Rightarrow> bool" where
  "run_ok c \<longleftrightarrow> wal_mem_inv (gs_wal (cr_s c)) \<and> client_chans c"

lemma handleUplinkPacket_mem_inv:
  assumes "handleUplinkPacket env s pkt = Some (s', r)" "wal_mem_inv (gs_wal s)"
  shows "wal_mem_inv (gs_wal s')"
proof -
  have "gs_wal s' = gs_wal s \<or> (\<exists>b. ParseServerWal (pkt_Data pkt) = Some (Inr b) \<and>
      gs_wal s' = fst (Append (ge_append env) (gs_wal s) (sw_Entry b)))"
    using assms(1)
    by (auto simp: handleUplinkPacket_def ack_queue_key_def TrySend_def split: if_splits option.splits sum.splits prod.splits)
  then show ?thesis
  proof
    assume "\<exists>b. ParseServerWal (pkt_Data pkt) = Some (Inr b) \<and> gs_wal s' = fst (Append (ge_append env) (gs_wal s) (sw_Entry b))"
    then obtain b where b: "ParseServerWal (pkt_Data pkt) = Some (Inr b)"
      "gs_wal s' = fst (Append (ge_append env) (gs_wal s) (sw_Entry b))" by blast
    from server_wal.parse_wf [OF b(1)] have "wf_entry (sw_Entry b)" by (simp add: wf_ServerWal_def)
    with wal_mem.append_inv [OF assms(2)] b(2) show ?thesis by simp
  qed (use assms(2) in simp)
qed

lemma client_step_mem_inv:
  assumes "client_step c c'" "wal_mem_inv (gs_wal (cr_s c))"
  shows "wal_mem_inv (gs_wal (cr_s c'))"
  using assms(1)
proof cases
  case game
  then show ?thesis
  proof cases
    case (lp_msg msg ch env s' nx)
    with handleMsg_frame [OF lp_msg(4)] assms(2) show ?thesis by simp
  next
    case (lp_err msg ch env s' err)
    with handleMsg_frame [OF lp_err(4)] assms(2) show ?thesis by (simp add: cancel_s_def upd_s_def)
  qed (use assms(2) in \<open>auto simp: cancel_s_def upd_s_def number_msg_def\<close>)
next
  case queue
  then show ?thesis by (cases rule: queue_step.cases) (use assms(2) in \<open>auto simp: cancel_s_def upd_s_def\<close>)
next
  case uplink
  then show ?thesis by (cases rule: uplink_step.cases) (use assms(2) in \<open>auto simp: upd_s_def\<close>)
next
  case conn
  then show ?thesis
  proof cases
    case (hk_packet pkt ch env s')
    with handleUplinkPacket_mem_inv [OF hk_packet(4)] assms(2) show ?thesis by simp
  next
    case (hk_err pkt ch env s' err)
    with handleUplinkPacket_mem_inv [OF hk_err(4)] assms(2) show ?thesis by simp
  qed (use assms(2) in \<open>auto simp: upd_s_def\<close>)
qed

lemma run_ok_step: "client_step c c' \<Longrightarrow> run_ok c \<Longrightarrow> run_ok c'"
  using client_step_mem_inv client_step_chans by (simp add: run_ok_def)

lemma run_ok_network: "run_ok c \<Longrightarrow> run_ok (dialled n c)" "run_ok c \<Longrightarrow> run_ok (arrived pkt c)"
  using network_chans by (simp_all add: run_ok_def dialled_def arrived_def)

lemma run_ok_daemon: "run_ok c \<Longrightarrow> within 128 ch \<Longrightarrow> run_ok (c\<lparr>cr_daemon := ch\<rparr>)"
  by (simp add: run_ok_def client_chans_def)

lemma run_ok_start:
  assumes "Run_open io dir info hello = Some (Inr (s, m))" "within 128 ch"
  shows "run_ok (Run_start s m ch)"
proof -
  obtain w where "OpenWAL (ri_wal io) (ri_wal_fin io) = Some (Inr w)" "gs_wal s = w"
    using assms(1) by (auto simp: Run_open_def Let_def split: if_splits option.splits sum.splits bind_splits)
  with OpenWAL_mem_inv Run_open_fields(1-4) [OF assms(1)] assms(2) show ?thesis
    by (simp add: run_ok_def client_chans_def chans_ok_def Run_start_def)
qed

section \<open>Ending a session\<close>

text \<open>How much the goroutines still have to do once the context of the session is done.\<close>

fun lp_work :: "lp_pc \<Rightarrow> nat" where
  "lp_work LpEnd = 0"
| "lp_work LpWait = 1"
| "lp_work (LpSend msg) = 2"
| "lp_work (LpDaemon m) = 3"
| "lp_work (LpWal index i) = 2 + 2 * (16 - unat i)"
| "lp_work (LpWalSend msg index i) = 3 + 2 * (16 - unat (i + 1))"

fun sq_work :: "sq_pc \<Rightarrow> nat" where
  "sq_work SqEnd = 0"
| "sq_work (SqPut ds) = 2 + length ds"
| "sq_work _ = 1"

fun up_work :: "up_pc \<Rightarrow> nat" where
  "up_work UpEnd = 0"
| "up_work UpLoop = 1"
| "up_work UpRetry = 2"
| "up_work UpDrain = 5"
| "up_work UpHello = 4"
| "up_work UpRun = 4"
| "up_work _ = 3"

definition work :: "ClientRun \<Rightarrow> nat" where
  "work c = (if cr_inPc c = MiEnd then 0 else 1) + (if cr_outPc c = MoEnd then 0 else 1) + lp_work (cr_loopPc c) +
     length (ch_buf (cr_daemon c)) + sq_work (cr_sqPc c) +
     ((if cr_piPc c = PiEnd then 0 else 1) + (if cr_poPc c = PoEnd then 0 else 1) +
      (if cr_noPc c = NoEnd then 0 else 1) + (if cr_hkPc c = HkEnd then 0 else 1)) +
     up_work (cr_upPc c) + length (ch_buf (gs_uplinkIn (cr_s c))) + length (ch_buf (gs_uplinkOut (cr_s c)))"

text \<open>A step towards the end.\<close>

definition advances :: "ClientRun \<Rightarrow> bool" where
  "advances c \<longleftrightarrow> (\<exists>c'. client_step c c' \<and> work c' < work c)"

lemma advancesI: "client_step c c' \<Longrightarrow> work c' < work c \<Longrightarrow> advances c"
  by (auto simp: advances_def)

lemmas work_simps = work_def cancel_s_def upd_s_def

lemma reader_advances: "cr_inPc c \<noteq> MiEnd \<Longrightarrow> gs_done (cr_s c) \<Longrightarrow> advances c"
proof (cases "cr_inPc c")
  case MiRead
  assume "gs_done (cr_s c)"
  with MiRead show ?thesis
    by (intro advancesI [OF client_step.game [OF game_step.mi_fail [OF MiRead]]]) (simp_all add: work_simps)
next
  case (MiPut msg)
  assume d: "gs_done (cr_s c)"
  with MiPut show ?thesis
    by (intro advancesI [OF client_step.game [OF game_step.mi_put [OF MiPut, of PickDone "gs_msgIn (cr_s c)" False]]])
      (simp_all add: select_send_done work_simps)
qed simp

lemma writer_advances: "cr_outPc c \<noteq> MoEnd \<Longrightarrow> gs_done (cr_s c) \<Longrightarrow> advances c"
proof (cases "cr_outPc c")
  case MoWait
  assume d: "gs_done (cr_s c)"
  with MoWait show ?thesis
    by (intro advancesI [OF client_step.game [OF game_step.mo_stop [OF MoWait d]]]) (simp_all add: work_simps)
next
  case (MoWrite msg)
  assume "gs_done (cr_s c)"
  with MoWrite show ?thesis
    by (intro advancesI [OF client_step.game [OF game_step.mo_fail [OF MoWrite]]]) (simp_all add: work_simps)
qed simp

text \<open>\<^verbatim>\<open>handleMsgLoop\<close>: the log it answers from is consistent, and the daemon's channel can be emptied.\<close>

lemma game_wal_msg_total: "wal_mem_inv (gs_wal s) \<Longrightarrow> game_wal_msg s i \<noteq> None"
proof -
  assume w: "wal_mem_inv (gs_wal s)"
  have "idx (wal_entries (gs_wal s)) (unat i) \<noteq> None" if "\<not> wal_count (gs_wal s) \<le> i"
  proof -
    have "unat i < unat (wal_count (gs_wal s))" using that by (simp add: word_less_nat_alt word_le_nat_alt)
    also have "\<dots> \<le> length (wal_entries (gs_wal s))"
      using w by (simp add: wal_mem_inv_def unat_of_nat take_bit_nat_eq_self take_bit_nat_less_eq_self)
    finally show ?thesis by (simp add: idx_def)
  qed
  then show ?thesis by (auto simp: game_wal_msg_def Get_def)
qed

lemma daemon_advances:
  assumes "cr_loopPc c = LpDaemon m" "gs_done (cr_s c)" "run_ok c"
  shows "advances c"
proof (cases "chan_send m (cr_daemon c)")
  case (Some ch)
  then have "length (ch_buf ch) = Suc (length (ch_buf (cr_daemon c)))" by (auto simp: chan_send_def split: if_splits)
  with assms show ?thesis
    by (intro advancesI [OF client_step.game [OF game_step.lp_daemon [OF assms(1) Some]]]) (simp_all add: work_simps)
next
  case None
  with assms(3) have "ch_buf (cr_daemon c) \<noteq> []"
    by (auto simp: chan_send_def run_ok_def client_chans_def within_def split: if_splits)
  then obtain x ch where r: "chan_recv (cr_daemon c) = Some (x, ch)" "length (ch_buf ch) < length (ch_buf (cr_daemon c))"
    by (auto simp: chan_recv_def neq_Nil_conv)
  with assms show ?thesis
    by (intro advancesI [OF client_step.game [OF game_step.daemon_recv [OF r(1)]]]) (simp_all add: work_simps)
qed

lemma handler_advances:
  assumes "cr_loopPc c \<noteq> LpEnd" "gs_done (cr_s c)" "run_ok c"
  shows "advances c"
proof (cases "cr_loopPc c")
  case LpWait
  with assms show ?thesis
    by (intro advancesI [OF client_step.game [OF game_step.lp_stop [OF LpWait assms(2)]]]) (simp_all add: work_simps)
next
  case (LpSend msg)
  with assms show ?thesis
    by (intro advancesI [OF client_step.game [OF game_step.lp_send [OF LpSend, of PickDone "gs_msgOut (cr_s c)" False]]])
      (simp_all add: select_send_done work_simps)
next
  case (LpWal index i)
  show ?thesis
  proof (cases "16 \<le> i \<or> game_wal_msg (cr_s c) (index + i) = Some None")
    case True
    with assms LpWal show ?thesis
      by (intro advancesI [OF client_step.game [OF game_step.lp_wal_end [OF LpWal True]]]) (simp_all add: work_simps)
  next
    case False
    then have i: "i < 16" by (simp add: not_le)
    then have "unat (i + 1) = Suc (unat i)" "unat i < 16"
      by (auto simp: word_less_nat_alt unat_word_ariths)
    moreover obtain msg where m: "game_wal_msg (cr_s c) (index + i) = Some (Some msg)"
      using False game_wal_msg_total [of "cr_s c" "index + i"] assms(3) by (auto simp: run_ok_def)
    ultimately show ?thesis using assms LpWal
      by (intro advancesI [OF client_step.game [OF game_step.lp_wal [OF LpWal i m]]]) (simp_all add: work_simps)
  qed
next
  case (LpWalSend msg index i)
  with assms show ?thesis
    by (intro advancesI [OF client_step.game [OF game_step.lp_wal_send [OF LpWalSend, of PickDone "gs_msgOut (cr_s c)" False]]])
      (simp_all add: select_send_done work_simps)
next
  case (LpDaemon m)
  with daemon_advances assms show ?thesis by blast
qed (use assms in simp)

lemma queue_advances:
  assumes "cr_sqPc c \<noteq> SqEnd" "gs_done (cr_s c)"
  shows "advances c"
proof -
  consider (idle) "cr_sqPc c = SqLoop \<or> cr_sqPc c = SqSleep" | (empty) "cr_sqPc c = SqPut []"
    | (put) d ds where "cr_sqPc c = SqPut (d # ds)"
    using assms(1) by (cases "cr_sqPc c") (auto, metis neq_Nil_conv)
  then show ?thesis
  proof cases
    case idle
    with assms show ?thesis
      by (intro advancesI [OF client_step.queue [OF queue_step.sq_stop [OF idle assms(2)]]]) (auto simp: work_simps)
  next
    case empty
    with assms show ?thesis
      by (intro advancesI [OF client_step.queue [OF queue_step.sq_done [OF empty]]]) (simp_all add: work_simps)
  next
    case put
    show ?thesis
    proof (cases d rule: wal_codec.parse_cases)
      case (error e)
      with assms put show ?thesis
        by (intro advancesI [OF client_step.queue [OF queue_step.sq_bad [OF put]]]) (simp_all add: work_simps)
    next
      case (ok e)
      with assms put show ?thesis
        by (intro advancesI [OF client_step.queue [OF queue_step.sq_put [OF put, of e PickDone "gs_uplinkOut (cr_s c)" False]]])
          (simp_all add: select_send_done work_simps)
    qed
  qed
qed

text \<open>The goroutines of a connection; a write to a closed connection fails.\<close>

lemma done_ctx: "gs_done (cr_s c) \<Longrightarrow> up_ctx c"
  by (simp add: up_ctx_def)

lemma pump_in_advances:
  assumes "cr_piPc c \<noteq> PiEnd" "gs_done (cr_s c)"
  shows "advances c"
proof (cases "cr_piPc c")
  case PiLoop
  with assms show ?thesis
    by (intro advancesI [OF client_step.conn [OF conn_step.pi_stop [OF PiLoop done_ctx]]]) (simp_all add: work_simps)
next
  case PiRecv
  with assms show ?thesis
    by (intro advancesI [OF client_step.conn [OF conn_step.pi_fail [OF PiRecv]]]) (simp_all add: work_simps)
next
  case (PiPut pkt)
  with assms show ?thesis
    by (intro advancesI [OF client_step.conn [OF conn_step.pi_drop [OF PiPut, of PickDone "gs_uplinkIn (cr_s c)"]]])
      (simp_all add: select_send_done work_simps done_ctx)
qed (use assms in simp)

lemma pump_out_advances:
  assumes "cr_poPc c \<noteq> PoEnd" "gs_done (cr_s c)"
  shows "advances c"
proof (cases "\<exists>pkt. cr_poPc c = PoWrite pkt")
  case True
  then obtain pkt where w: "cr_poPc c = PoWrite pkt" by blast
  obtain bs err where "SendRaw (WrFail 0) pkt = (bs, Some err)" using SendRaw_fails by blast
  with assms w show ?thesis
    by (intro advancesI [OF client_step.conn [OF conn_step.po_fail [OF w]]]) (simp_all add: work_simps)
next
  case False
  with assms(1) have "cr_poPc c = PoLoop \<or> cr_poPc c = PoWait" by (cases "cr_poPc c") auto
  from advancesI [OF client_step.conn [OF conn_step.po_stop [OF this done_ctx]]] assms show ?thesis
    by (simp add: work_simps)
qed

lemma nops_advance:
  assumes "cr_noPc c \<noteq> NoEnd" "gs_done (cr_s c)"
  shows "advances c"
proof -
  from assms(1) have "cr_noPc c = NoLoop \<or> cr_noPc c = NoWait" by (cases "cr_noPc c") auto
  from advancesI [OF client_step.conn [OF conn_step.no_stop [OF this done_ctx]]] assms show ?thesis
    by (simp add: work_simps)
qed

lemma packets_advance:
  assumes "cr_hkPc c \<noteq> HkEnd" "gs_done (cr_s c)"
  shows "advances c"
proof -
  from assms(1) have "cr_hkPc c = HkLoop \<or> cr_hkPc c = HkWait" by (cases "cr_hkPc c") auto
  from advancesI [OF client_step.conn [OF conn_step.hk_stop [OF this done_ctx]]] assms show ?thesis
    by (simp add: work_simps)
qed

lemma drain_advances:
  assumes "cr_upPc c = UpDrain" "gs_done (cr_s c)"
  shows "advances c"
proof -
  consider (inp) x xs where "ch_buf (gs_uplinkIn (cr_s c)) = x # xs" | (out) x xs where "ch_buf (gs_uplinkOut (cr_s c)) = x # xs"
    | (empty) "ch_buf (gs_uplinkIn (cr_s c)) = []" "ch_buf (gs_uplinkOut (cr_s c)) = []"
    by (meson neq_Nil_conv)
  then show ?thesis
  proof cases
    case (inp x xs)
    then have "chan_recv (gs_uplinkIn (cr_s c)) = Some (x, (gs_uplinkIn (cr_s c))\<lparr>ch_buf := xs\<rparr>)" by (simp add: chan_recv_def)
    from advancesI [OF client_step.uplink [OF uplink_step.up_drain_in [OF assms(1) this]]] assms inp show ?thesis
      by (simp add: work_simps)
  next
    case (out x xs)
    then have "chan_recv (gs_uplinkOut (cr_s c)) = Some (x, (gs_uplinkOut (cr_s c))\<lparr>ch_buf := xs\<rparr>)" by (simp add: chan_recv_def)
    from advancesI [OF client_step.uplink [OF uplink_step.up_drain_out [OF assms(1) this]]] assms out show ?thesis
      by (simp add: work_simps)
  next
    case empty
    then have "chan_recv (gs_uplinkIn (cr_s c)) = None" "chan_recv (gs_uplinkOut (cr_s c)) = None" by (simp_all add: chan_recv_def)
    from advancesI [OF client_step.uplink [OF uplink_step.up_drained [OF assms(1) this]]] assms show ?thesis
      by (simp add: work_simps)
  qed
qed

lemma uplink_advances:
  assumes "cr_upPc c \<noteq> UpEnd" "gs_done (cr_s c)"
    and ended: "cr_piPc c = PiEnd" "cr_poPc c = PoEnd" "cr_noPc c = NoEnd" "cr_hkPc c = HkEnd"
  shows "advances c"
proof (cases "cr_upPc c")
  case UpLoop
  from advancesI [OF client_step.uplink [OF uplink_step.up_loop [OF UpLoop]]] assms UpLoop show ?thesis by (simp add: work_simps)
next
  case UpDial
  from advancesI [OF client_step.uplink [OF uplink_step.up_dial_fail [OF UpDial]]] assms UpDial show ?thesis by (simp add: work_simps)
next
  case UpDrain
  with assms(2) show ?thesis by (rule drain_advances [rotated])
next
  case UpHello
  obtain bs err where "SendRaw (WrFail 0) (hello_pkt (cr_s c)) = (bs, Some err)" using SendRaw_fails by blast
  from advancesI [OF client_step.uplink [OF uplink_step.up_hello_fail [OF UpHello this]]] assms UpHello show ?thesis
    by (simp add: work_simps)
next
  case UpReply
  from advancesI [OF client_step.uplink [OF uplink_step.up_reply_fail [OF UpReply]]] assms UpReply show ?thesis by (simp add: work_simps)
next
  case UpRun
  from advancesI [OF client_step.uplink [OF uplink_step.up_stop [OF UpRun done_ctx]]] assms UpRun show ?thesis by (simp add: work_simps)
next
  case UpWait
  from advancesI [OF client_step.uplink [OF uplink_step.up_joined [OF UpWait ended]]] assms UpWait show ?thesis by (simp add: work_simps)
next
  case UpRetry
  from advancesI [OF client_step.uplink [OF uplink_step.up_retry [OF UpRetry]]] assms UpRetry show ?thesis by (simp add: work_simps)
qed (use assms in simp)

lemma session_advances: "gs_done (cr_s c) \<Longrightarrow> run_ok c \<Longrightarrow> all_ended c \<or> advances c"
  using reader_advances writer_advances handler_advances queue_advances pump_in_advances pump_out_advances
    nops_advance packets_advance uplink_advances
  unfolding all_ended_def by blast

text \<open>Once the context of a session is done, it stays done.\<close>

lemma handleMsg_done: "handleMsg env s msg = Some (s', r) \<Longrightarrow> gs_done s' = gs_done s"
  by (auto simp: handleMsg_def handleWalIn_def newWalEntry_def TrySendUplink_def Let_def
      split: if_splits option.splits sum.splits prod.splits)

lemma TrySendUplink_done [simp]:
  "gs_done (TrySendUplink s pkt) = gs_done s" "gs_done (foldl TrySendUplink s pkts) = gs_done s"
proof -
  show one: "gs_done (TrySendUplink s pkt) = gs_done s" for s pkt by (simp add: TrySendUplink_def split: option.split)
  show "gs_done (foldl TrySendUplink s pkts) = gs_done s" by (induction pkts arbitrary: s) (simp_all add: one)
qed

lemma client_step_done:
  assumes "client_step c c'" "gs_done (cr_s c)"
  shows "gs_done (cr_s c')"
  using assms(1)
proof cases
  case game
  then show ?thesis
  proof cases
    case (lp_msg msg ch env s' nx)
    with handleMsg_done [OF lp_msg(4)] assms(2) show ?thesis by simp
  qed (use assms(2) in \<open>auto simp: cancel_s_def upd_s_def number_msg_def\<close>)
next
  case queue
  then show ?thesis by (cases rule: queue_step.cases) (use assms(2) in \<open>auto simp: cancel_s_def upd_s_def\<close>)
next
  case uplink
  then show ?thesis by (cases rule: uplink_step.cases) (use assms(2) in \<open>auto simp: upd_s_def\<close>)
next
  case conn
  then show ?thesis
  proof cases
    case (hk_packet pkt ch env s')
    with handleUplinkPacket_frame(5) [OF hk_packet(4)] assms(2) show ?thesis by simp
  next
    case (hk_err pkt ch env s' err)
    with handleUplinkPacket_frame(5) [OF hk_err(4)] assms(2) show ?thesis by simp
  qed (use assms(2) in \<open>auto simp: upd_s_def\<close>)
qed

text \<open>The goroutines of a session whose context is done come to rest.\<close>

definition ending :: "ClientRun \<Rightarrow> bool" where
  "ending c \<longleftrightarrow> run_ok c \<and> gs_done (cr_s c)"

interpretation ending: progress client_step ending all_ended work
proof unfold_locales
  show "ending c'" if "client_step c c'" "ending c" for c c'
    using that run_ok_step client_step_done by (simp add: ending_def)
  show "\<exists>c'. client_step c c' \<and> work c' < work c" if "ending c" "\<not> all_ended c" for c
    using that session_advances by (auto simp: ending_def advances_def)
qed

section \<open>The program as a whole\<close>

text \<open>The connection that the main goroutine has and has not closed.\<close>

fun held :: "app_pc \<Rightarrow> nat set" where
  "held (AppGame conn hello) = {conn}"
| "held (AppRun conn RunStart c) = {conn}"
| "held (AppRun conn RunWait c) = {conn}"
| "held (AppRun conn RunPos c) = {conn}"
| "held _ = {}"

definition app_inv :: "ClientApp \<Rightarrow> bool" where
  "app_inv a \<longleftrightarrow> within 128 (ca_daemon a) \<and> (\<forall>conn pc c. ca_pc a = AppRun conn pc c \<longrightarrow> run_ok c) \<and>
     (\<forall>conn c. ca_pc a = AppRun conn RunPos c \<longrightarrow> cr_posDone c) \<and>
     finite (ca_open a) \<and> held (ca_pc a) \<subseteq> ca_open a \<and> card (ca_open a) = ca_rejected a + card (held (ca_pc a))"

lemma held_run: "held (AppRun conn pc c') = held (AppRun conn pc c)"
  by (cases pc) simp_all

lemma client_step_posDone: "client_step c c' \<Longrightarrow> cr_posDone c' = cr_posDone c"
  by (auto elim!: client_step.cases game_step.cases queue_step.cases uplink_step.cases conn_step.cases
      simp: cancel_s_def upd_s_def)

lemma app_step_inv:
  assumes "app_step conf info a a'" "app_inv a"
  shows "app_inv a'"
  using assms(1)
proof cases
  case (poll_none io factories os_open)
  with poll_pass_open [OF poll_none(5,4)] assms(2) show ?thesis by (simp add: app_inv_def)
next
  case (poll_game io factories os_open conn hello)
  with poll_pass_open [OF poll_game(5,4)] assms(2) show ?thesis by (simp add: app_inv_def)
next
  case (run_start conn hello io s m)
  with run_ok_start [OF run_start(3)] assms(2) show ?thesis by (simp add: app_inv_def)
next
  case (run_step conn pc c c')
  with run_ok_step client_step_posDone assms(2) held_run [of conn pc c' c] show ?thesis by (auto simp: app_inv_def)
next
  case (run_dial conn pc c n)
  with run_ok_network(1) assms(2) held_run [of conn pc "dialled n c" c] show ?thesis by (auto simp: app_inv_def dialled_def)
next
  case (run_arrive conn pc c pkt)
  with run_ok_network(2) assms(2) held_run [of conn pc "arrived pkt c" c] show ?thesis by (auto simp: app_inv_def arrived_def)
next
  case (run_started conn c ch)
  then have "run_ok c" "within 128 ch" using assms(2) within_send by (auto simp: app_inv_def run_ok_def client_chans_def)
  with run_started assms(2) run_ok_daemon show ?thesis by (simp add: app_inv_def)
next
  case (run_positions conn c)
  then have "run_ok (c\<lparr>cr_posDone := True\<rparr>)" using assms(2) by (auto simp: app_inv_def run_ok_def client_chans_def)
  with run_positions assms(2) show ?thesis by (simp add: app_inv_def)
next
  case (run_close conn c)
  with assms(2) show ?thesis by (auto simp: app_inv_def)
next
  case (run_drain conn c m ch)
  then have "run_ok c" "within 128 ch" using assms(2) within_recv by (auto simp: app_inv_def run_ok_def client_chans_def)
  with run_drain assms(2) run_ok_daemon show ?thesis by (simp add: app_inv_def)
next
  case (run_end conn c ch)
  then have "within 128 ch" using assms(2) within_send by (auto simp: app_inv_def run_ok_def client_chans_def)
  with run_end assms(2) show ?thesis by (simp add: app_inv_def)
next
  case (daemon_recv m ch)
  with assms(2) within_recv show ?thesis by (auto simp: app_inv_def)
qed (use assms(2) in \<open>auto simp: app_inv_def\<close>)

interpretation app_run: step_invariant "app_step conf info" app_inv for conf info
  by unfold_locales (rule app_step_inv)

lemma app_reach_inv: "app_reach conf info a \<Longrightarrow> app_inv a"
  by (induction rule: app_reach.induct) (simp add: app_inv_def app_init_def, blast intro: app_step_inv)

lemma run_steps:
  assumes "client_step\<^sup>*\<^sup>* c c'" "pc \<noteq> RunEnd" "ca_pc a = AppRun conn pc c"
  shows "(app_step conf info)\<^sup>*\<^sup>* a (a\<lparr>ca_pc := AppRun conn pc c'\<rparr>)"
  using assms
proof (induction rule: rtranclp_induct)
  case base
  then have "a\<lparr>ca_pc := AppRun conn pc c\<rparr> = a" by (cases a) simp
  then show ?case by simp
next
  case (step c1 c2)
  have "app_step conf info (a\<lparr>ca_pc := AppRun conn pc c1\<rparr>) (a\<lparr>ca_pc := AppRun conn pc c2\<rparr>)"
    using app_step.run_step [of "a\<lparr>ca_pc := AppRun conn pc c1\<rparr>" conn pc c1 c2] step by simp
  with step show ?case by (simp add: rtranclp.rtrancl_into_rtrancl)
qed

text \<open>The goroutine that writes to the daemon can always empty the channel.\<close>

lemma run_empty_channel:
  "ca_pc a = AppRun conn pc c \<Longrightarrow>
   (app_step conf info)\<^sup>*\<^sup>* a (a\<lparr>ca_pc := AppRun conn pc (c\<lparr>cr_daemon := (cr_daemon c)\<lparr>ch_buf := []\<rparr>\<rparr>)\<rparr>)"
proof (induction "ch_buf (cr_daemon c)" arbitrary: a c)
  case Nil
  then have "a\<lparr>ca_pc := AppRun conn pc (c\<lparr>cr_daemon := (cr_daemon c)\<lparr>ch_buf := []\<rparr>\<rparr>)\<rparr> = a" by (cases a; cases c) auto
  then show ?case by simp
next
  case (Cons m ms)
  let ?ch = "(cr_daemon c)\<lparr>ch_buf := ms\<rparr>"
  let ?a = "a\<lparr>ca_pc := AppRun conn pc (c\<lparr>cr_daemon := ?ch\<rparr>)\<rparr>"
  have r: "chan_recv (cr_daemon c) = Some (m, ?ch)" using Cons.hyps(2) [symmetric] by (simp add: chan_recv_def)
  have "app_step conf info a ?a"
  proof (cases "pc = RunEnd")
    case True
    with Cons.prems app_step.run_drain [OF _ r] show ?thesis by blast
  next
    case False
    from app_step.run_step [OF Cons.prems False client_step.game [OF game_step.daemon_recv [OF r]]] show ?thesis .
  qed
  moreover have "(app_step conf info)\<^sup>*\<^sup>* ?a
      (?a\<lparr>ca_pc := AppRun conn pc (c\<lparr>cr_daemon := ?ch, cr_daemon := ?ch\<lparr>ch_buf := []\<rparr>\<rparr>)\<rparr>)"
    using Cons.hyps(1) [of "c\<lparr>cr_daemon := ?ch\<rparr>" ?a] by simp
  ultimately show ?case by (simp add: converse_rtranclp_into_rtranclp)
qed

lemma run_after_join:
  assumes "ca_pc a = AppRun conn RunJoin c" "gs_done (cr_s c)" "app_inv a"
  shows "\<exists>ch. (app_step conf info)\<^sup>*\<^sup>* a (a\<lparr>ca_pc := AppLoop, ca_daemon := ch\<rparr>)"
proof -
  from assms obtain c1 where c1: "client_step\<^sup>*\<^sup>* c c1" "all_ended c1" "run_ok c1"
    using ending.comes_to_rest [of c] by (auto simp: app_inv_def ending_def)
  let ?a1 = "a\<lparr>ca_pc := AppRun conn RunJoin c1\<rparr>" let ?a2 = "a\<lparr>ca_pc := AppRun conn RunEnd c1\<rparr>"
  let ?c2 = "c1\<lparr>cr_daemon := (cr_daemon c1)\<lparr>ch_buf := []\<rparr>\<rparr>" let ?a3 = "a\<lparr>ca_pc := AppRun conn RunEnd ?c2\<rparr>"
  have 1: "(app_step conf info)\<^sup>*\<^sup>* a ?a1" using run_steps [OF c1(1) _ assms(1)] by simp
  have 2: "app_step conf info ?a1 ?a2" using app_step.run_join [of ?a1 conn c1] c1(2) by simp
  have 3: "(app_step conf info)\<^sup>*\<^sup>* ?a2 ?a3" using run_empty_channel [of ?a2 conn RunEnd c1] by simp
  obtain ch where "chan_send (zero_msg MsgTypeGameEnd) (cr_daemon ?c2) = Some ch"
    using c1(3) by (simp add: chan_send_def run_ok_def client_chans_def within_def)
  then have 4: "app_step conf info ?a3 (a\<lparr>ca_pc := AppLoop, ca_daemon := ch\<rparr>)"
    using app_step.run_end [of ?a3 conn ?c2 ch] by simp
  from 1 2 have "(app_step conf info)\<^sup>*\<^sup>* a ?a2" by (rule rtranclp.rtrancl_into_rtrancl)
  from rtranclp.rtrancl_into_rtrancl [OF rtranclp_trans [OF this 3] 4] show ?thesis by blast
qed

lemma run_after_pos:
  assumes "ca_pc a = AppRun conn RunPos c" "gs_done (cr_s c)" "cr_posDone c" "app_inv a"
  shows "\<exists>ch. (app_step conf info)\<^sup>*\<^sup>* a (a\<lparr>ca_open := ca_open a - {conn}, ca_pc := AppLoop, ca_daemon := ch\<rparr>)"
proof -
  let ?c = "c\<lparr>cr_posPc := PosEnd\<rparr>" let ?a1 = "a\<lparr>ca_pc := AppRun conn RunPos ?c\<rparr>"
  let ?a2 = "?a1\<lparr>ca_pc := AppRun conn RunJoin ?c, ca_open := ca_open ?a1 - {conn}\<rparr>"
  have "client_step\<^sup>*\<^sup>* c ?c"
  proof (cases "cr_posPc c")
    case PosRun
    with assms(3) show ?thesis by (blast intro: client_step.game game_step.pos_stop)
  next
    case PosEnd
    then have "?c = c" by (cases c) simp
    then show ?thesis by simp
  qed
  then have 1: "(app_step conf info)\<^sup>*\<^sup>* a ?a1" using run_steps [OF _ _ assms(1)] by simp
  have 2: "app_step conf info ?a1 ?a2" by (rule app_step.run_close) simp_all
  have steps: "(app_step conf info)\<^sup>*\<^sup>* a ?a2" by (rule rtranclp.rtrancl_into_rtrancl [OF 1 2])
  obtain ch where "(app_step conf info)\<^sup>*\<^sup>* ?a2 (?a2\<lparr>ca_pc := AppLoop, ca_daemon := ch\<rparr>)"
    using run_after_join [of ?a2 conn ?c] app_run.steps_inv [OF steps assms(4)] assms(2) by auto
  from rtranclp_trans [OF steps this] show ?thesis by auto
qed

lemma run_after_wait:
  assumes "ca_pc a = AppRun conn RunWait c" "gs_done (cr_s c)" "app_inv a"
  shows "\<exists>ch. (app_step conf info)\<^sup>*\<^sup>* a (a\<lparr>ca_open := ca_open a - {conn}, ca_pc := AppLoop, ca_daemon := ch\<rparr>)"
proof -
  let ?c = "c\<lparr>cr_posDone := True\<rparr>" let ?a = "a\<lparr>ca_pc := AppRun conn RunPos ?c\<rparr>"
  have 1: "app_step conf info a ?a" using app_step.run_positions [OF assms(1,2)] .
  obtain ch where "(app_step conf info)\<^sup>*\<^sup>* ?a (?a\<lparr>ca_open := ca_open ?a - {conn}, ca_pc := AppLoop, ca_daemon := ch\<rparr>)"
    using run_after_pos [of ?a conn ?c] app_step_inv [OF 1 assms(3)] assms(2) by auto
  with converse_rtranclp_into_rtranclp [OF 1 this] show ?thesis by auto
qed

lemma run_after_start:
  assumes "ca_pc a = AppRun conn RunStart c" "gs_done (cr_s c)" "app_inv a"
  shows "\<exists>ch. (app_step conf info)\<^sup>*\<^sup>* a (a\<lparr>ca_open := ca_open a - {conn}, ca_pc := AppLoop, ca_daemon := ch\<rparr>)"
proof -
  let ?c1 = "c\<lparr>cr_daemon := (cr_daemon c)\<lparr>ch_buf := []\<rparr>\<rparr>" let ?a1 = "a\<lparr>ca_pc := AppRun conn RunStart ?c1\<rparr>"
  have 1: "(app_step conf info)\<^sup>*\<^sup>* a ?a1" using run_empty_channel [OF assms(1)] .
  have ok: "run_ok c" using assms(1,3) by (auto simp: app_inv_def)
  then obtain ch where s: "chan_send (game_start_msg (cr_s c)) (cr_daemon ?c1) = Some ch" "within 128 ch"
    by (auto simp: chan_send_def run_ok_def client_chans_def within_def)
  let ?a2 = "a\<lparr>ca_pc := AppRun conn RunWait (c\<lparr>cr_daemon := ch\<rparr>)\<rparr>"
  have 2: "app_step conf info ?a1 ?a2" using app_step.run_started [of ?a1 conn ?c1 ch] s(1) by simp
  have "app_inv ?a2" using assms(1,3) run_ok_daemon [OF ok s(2)] by (simp add: app_inv_def)
  from run_after_wait [OF _ _ this, of conn "c\<lparr>cr_daemon := ch\<rparr>"] assms(2)
  obtain ch' where "(app_step conf info)\<^sup>*\<^sup>* ?a2 (?a2\<lparr>ca_open := ca_open ?a2 - {conn}, ca_pc := AppLoop, ca_daemon := ch'\<rparr>)" by auto
  from rtranclp_trans [OF rtranclp.rtrancl_into_rtrancl [OF 1 2] this] show ?thesis by auto
qed

lemma run_after_end:
  assumes "ca_pc a = AppRun conn RunEnd c" "app_inv a"
  shows "\<exists>ch. (app_step conf info)\<^sup>*\<^sup>* a (a\<lparr>ca_pc := AppLoop, ca_daemon := ch\<rparr>)"
proof -
  let ?c1 = "c\<lparr>cr_daemon := (cr_daemon c)\<lparr>ch_buf := []\<rparr>\<rparr>" let ?a1 = "a\<lparr>ca_pc := AppRun conn RunEnd ?c1\<rparr>"
  have "run_ok c" using assms by (auto simp: app_inv_def)
  then obtain ch where "chan_send (zero_msg MsgTypeGameEnd) (cr_daemon ?c1) = Some ch"
    by (auto simp: chan_send_def run_ok_def client_chans_def within_def)
  then have "app_step conf info ?a1 (a\<lparr>ca_pc := AppLoop, ca_daemon := ch\<rparr>)"
    using app_step.run_end [of ?a1 conn ?c1 ch] by simp
  from rtranclp.rtrancl_into_rtrancl [OF run_empty_channel [OF assms(1)] this] show ?thesis by blast
qed

section \<open>A game that connects\<close>

definition hello_raw :: "bytes \<Rightarrow> bytes" where
  "hello_raw sid = Message_Serialize \<lparr>msg_Seq = 0, msg_Op = ipc_OpHello,
     msg_Payload = game_magic @ sid @ replicate 8 9 @ replicate 16 1 @ replicate 8 65 @ [1]\<rparr>"

lemma app_hello_raw:
  assumes "length sid = 16"
  shows "app_hello (Inr (hello_raw sid)) = Some (Inr (example_hello_in\<lparr>hi_SessionID := sid\<rparr>))"
proof -
  let ?m = "\<lparr>msg_Seq = 0, msg_Op = ipc_OpHello,
     msg_Payload = game_magic @ sid @ replicate 8 9 @ replicate 16 1 @ replicate 8 65 @ [1]\<rparr>"
  have "ParseMessage (hello_raw sid) = Some (Inr ?m)"
    by (simp add: hello_raw_def ParseMessage_Serialize)
  then show ?thesis using assms
    by (simp add: app_hello_def ParseMessageBodyHelloIn_def slice_def idx_def copy_array_def game_magic_def example_hello_in_def
        nth_append)
qed

definition example_config :: ClientConfig where
  "example_config = \<lparr>cc_GamePatchPath = ''p'', cc_DataDir = ''d'', cc_UpstreamServer = ''s'', cc_UpstreamPort = 14236\<rparr>"

text \<open>The main goroutine finds a game that sends the session id \<open>sid\<close>, on a new connection.\<close>

lemma app_finds_game:
  assumes "app_reach conf info a" "ca_pc a = AppLoop" "\<not> ca_cancelled a" "conn \<notin> ca_open a" "length sid = 16"
  shows "app_reach conf info
    (a\<lparr>ca_pc := AppGame conn (example_hello_in\<lparr>hi_SessionID := sid\<rparr>), ca_open := insert conn (ca_open a)\<rparr>)"
proof -
  let ?io = "\<lambda>_::ConnFactory. Opens conn (Inr (hello_raw sid))"
  have "poll_pass ?io [UnixConnFactory ''g''] (ca_open a) =
      Some (insert conn (ca_open a), Some (conn, example_hello_in\<lparr>hi_SessionID := sid\<rparr>))"
    using assms(5) by (simp add: app_hello_raw)
  moreover have "fresh_opens ?io (ca_open a)" using assms(4) by (simp add: fresh_opens_def)
  ultimately show ?thesis using assms(1-3) by (blast intro: app_reach.step app_step.poll_game)
qed

lemma app_rejects_game:
  assumes "app_reach conf example_info a" "ca_pc a = AppLoop" "\<not> ca_cancelled a" "conn \<notin> ca_open a"
  shows "app_reach conf example_info
    (a\<lparr>ca_open := insert conn (ca_open a), ca_rejected := Suc (ca_rejected a)\<rparr>)"
proof -
  let ?a = "a\<lparr>ca_pc := AppGame conn (example_hello_in\<lparr>hi_SessionID := replicate 16 0\<rparr>), ca_open := insert conn (ca_open a)\<rparr>"
  have 1: "app_reach conf example_info ?a" using app_finds_game [OF assms, of "replicate 16 0"] by simp
  have "app_step conf example_info ?a (?a\<lparr>ca_pc := AppLoop, ca_rejected := Suc (ca_rejected ?a)\<rparr>)"
    by (rule app_step.run_reject [of ?a conn]) (auto simp: Run_open_def example_info_def)
  from app_reach.step [OF 1 this] assms(2) show ?thesis by (cases a) simp
qed

lemma app_starts_game:
  "\<exists>s m. app_reach example_config example_info (app_init\<lparr>ca_pc := AppRun 0 RunStart (Run_start s m (make_chan 128)), ca_open := {0}\<rparr>)"
proof -
  let ?a = "app_init\<lparr>ca_pc := AppGame 0 example_hello_in, ca_open := {0}\<rparr>"
  have "app_reach example_config example_info ?a"
    using app_finds_game [OF app_reach.init, of 0 "replicate 16 7" example_config example_info]
    by (simp add: app_init_def example_hello_in_def)
  moreover obtain s m where "Run_open example_run_io ''d'' example_info example_hello_in = Some (Inr (s, m))"
    using example_run_open by blast
  then have "app_step example_config example_info ?a (?a\<lparr>ca_pc := AppRun 0 RunStart (Run_start s m (make_chan 128))\<rparr>)"
    using app_step.run_start [of ?a 0 example_hello_in example_run_io example_config example_info s m]
    by (simp add: app_init_def example_config_def)
  ultimately have "app_reach example_config example_info (?a\<lparr>ca_pc := AppRun 0 RunStart (Run_start s m (make_chan 128))\<rparr>)"
    by (rule app_reach.step)
  then show ?thesis by (auto simp: app_init_def)
qed

section \<open>Properties\<close>

text \<open>C31: A session can always be brought to its end: in whatever state of the client the context of a
  session is done (the game disconnected, a message was refused, the user interrupted the program), its
  goroutines can all return, \<^verbatim>\<open>game.Run\<close> closes the connection to the game and returns, and the
  program goes back to polling, or ends when it was interrupted. No goroutine is stuck on a channel.\<close>

theorem session_ends:
  assumes "app_reach conf info a" "ca_pc a = AppRun conn pc c" "gs_done (cr_s c)"
  shows "\<exists>a'. (app_step conf info)\<^sup>*\<^sup>* a a' \<and> ca_open a' = ca_open a - held (ca_pc a) \<and>
    ca_pc a' = (if ca_cancelled a then AppEnd else AppLoop)"
proof -
  note inv = app_reach_inv [OF assms(1)]
  have "\<exists>a'. (app_step conf info)\<^sup>*\<^sup>* a a' \<and> ca_open a' = ca_open a - held (ca_pc a) \<and> ca_pc a' = AppLoop \<and>
    ca_cancelled a' = ca_cancelled a"
  proof (cases pc)
    case RunStart
    from run_after_start [OF assms(2)[unfolded RunStart] assms(3) inv] assms(2) RunStart show ?thesis by fastforce
  next
    case RunWait
    from run_after_wait [OF assms(2)[unfolded RunWait] assms(3) inv] assms(2) RunWait show ?thesis by fastforce
  next
    case RunPos
    with inv assms(2) have "cr_posDone c" by (simp add: app_inv_def)
    from run_after_pos [OF assms(2)[unfolded RunPos] assms(3) this inv] assms(2) RunPos show ?thesis by fastforce
  next
    case RunJoin
    from run_after_join [OF assms(2)[unfolded RunJoin] assms(3) inv] assms(2) RunJoin show ?thesis by fastforce
  next
    case RunEnd
    from run_after_end [OF assms(2)[unfolded RunEnd] inv] assms(2) RunEnd show ?thesis by fastforce
  qed
  then obtain a' where a': "(app_step conf info)\<^sup>*\<^sup>* a a'" "ca_open a' = ca_open a - held (ca_pc a)" "ca_pc a' = AppLoop"
    "ca_cancelled a' = ca_cancelled a" by blast
  show ?thesis
  proof (cases "ca_cancelled a")
    case True
    with a' rtranclp.rtrancl_into_rtrancl [OF a'(1) app_step.stop [OF a'(3)]] show ?thesis
      by (intro exI [of _ "a'\<lparr>ca_pc := AppEnd\<rparr>"]) simp
  qed (use a' in auto)
qed

theorem session_ends_witness:
  "\<exists>s m c a'. app_reach example_config example_info (app_init\<lparr>ca_pc := AppRun 0 RunStart c, ca_open := {0}\<rparr>) \<and>
     c = cancel_s (Run_start s m (make_chan 128)) \<and>
     (app_step example_config example_info)\<^sup>*\<^sup>* (app_init\<lparr>ca_pc := AppRun 0 RunStart c, ca_open := {0}\<rparr>) a' \<and>
     ca_pc a' = AppLoop \<and> ca_open a' = {}"
proof -
  obtain s m where r: "app_reach example_config example_info
      (app_init\<lparr>ca_pc := AppRun 0 RunStart (Run_start s m (make_chan 128)), ca_open := {0}\<rparr>)" (is "app_reach _ _ ?a")
    using app_starts_game by blast
  let ?c = "cancel_s (Run_start s m (make_chan 128))" let ?b = "app_init\<lparr>ca_pc := AppRun 0 RunStart ?c, ca_open := {0}\<rparr>"
  have "app_step example_config example_info ?a (?a\<lparr>ca_pc := AppRun 0 RunStart ?c\<rparr>)"
    by (rule app_step.run_step [OF _ _ client_step.game [OF game_step.cancel]]) simp_all
  from app_reach.step [OF r this] have b: "app_reach example_config example_info ?b" by (simp add: app_init_def)
  moreover have "gs_done (cr_s ?c)" by (simp add: cancel_s_def upd_s_def)
  ultimately obtain a' where "(app_step example_config example_info)\<^sup>*\<^sup>* ?b a'" "ca_pc a' = AppLoop" "ca_open a' = {}"
    using session_ends [OF b, of 0 RunStart ?c] by (auto simp: app_init_def)
  with b show ?thesis by blast
qed

text \<open>C32: The connections to games that the client has open are the one of the game it is looking at or
  playing, and one for every session that \<^verbatim>\<open>game.Run\<close> gave up before it started it (another session or
  world than the patch file's, a data directory or file that cannot be opened): its early returns do
  not close the connection, so a game of another session makes the client leak one connection on
  every pass of its loop. Connections that do not say hello properly are closed.\<close>

theorem connections_counted:
  assumes "app_reach conf info a"
  shows "finite (ca_open a) \<and> held (ca_pc a) \<subseteq> ca_open a \<and> card (ca_open a) = ca_rejected a + card (held (ca_pc a))"
  using app_reach_inv [OF assms] by (simp add: app_inv_def)

theorem connections_counted_witness:
  "\<exists>a. app_reach example_config example_info a \<and> ca_pc a = AppLoop \<and> ca_rejected a = 2 \<and> card (ca_open a) = 2"
proof -
  have 1: "app_reach example_config example_info (app_init\<lparr>ca_open := {0}, ca_rejected := 1\<rparr>)"
    using app_rejects_game [OF app_reach.init, of 0 example_config] by (simp add: app_init_def)
  have 2: "app_reach example_config example_info (app_init\<lparr>ca_open := {1, 0}, ca_rejected := 2\<rparr>)" (is "app_reach _ _ ?a")
    using app_rejects_game [OF 1, of 1] by (simp add: app_init_def numeral_2_eq_2)
  from connections_counted [OF 2] have "card (ca_open ?a) = 2" by (simp add: app_init_def)
  with 2 show ?thesis by (intro exI [of _ ?a]) (simp add: app_init_def)
qed

end
