(* ===== verification/DaemonConn.thy ===== *)
theory DaemonConn
  imports Daemon
begin

text \<open>
  The client's side of the tracker daemon, \<^verbatim>\<open>client/internal/daemon\<close>: making sure that a daemon runs and
  connecting to it (\<^verbatim>\<open>api.go\<close>), the connection with its channel and the goroutine that empties it
  (\<^verbatim>\<open>conn.go\<close>), and the start of the daemon process (\<^verbatim>\<open>Run\<close> in \<^verbatim>\<open>daemon.go\<close>). What the file lock, the
  file system and the sockets answer is an argument. Shown: what the daemon reads is what was sent, in
  order, and at most the last 128 messages are missing; a daemon that does not come up leaves nothing
  behind; connecting comes to an end.
\<close>

section \<open>Starting the daemon\<close>

text \<open>
  What a daemon process holds: the lock, the file of the lock, the socket and the port of the tracker.
\<close>

record DaemonOS =
  do_lock :: bool
  do_lockFile :: bool
  do_listener :: bool
  do_http :: bool
  do_ctx :: bool

text \<open>What the calls of \<^verbatim>\<open>Run\<close> return, in their order: the lock, the address, the two listeners.\<close>

record daemon_io =
  di_lock :: "bool result"
  di_addr :: "go_error option"
  di_listen :: "go_error option"
  di_http :: "go_error option"

datatype daemon_exit = NotStarted string | Panics go_error | Served

text \<open>
  \<^verbatim>\<open>Run\<close>: \<open>serve\<close> is what the daemon does to its resources between the start and the end of
  \<^verbatim>\<open>daemon.run\<close> (its context is cancelled and it closes both listeners). The deferred calls run on
  every way out, a panic included, in reverse order.
\<close>

definition release_lock :: "DaemonOS \<Rightarrow> DaemonOS" where
  "release_lock os = os\<lparr>do_lock := False, do_lockFile := False\<rparr>"

definition daemon_Run :: "daemon_io \<Rightarrow> (DaemonOS \<Rightarrow> DaemonOS) \<Rightarrow> DaemonOS \<Rightarrow> DaemonOS \<times> daemon_exit" where
  "daemon_Run io serve os =
     (case di_lock io of
        Inl err \<Rightarrow> (os, NotStarted ''Failed to acquire daemon lock: %v'')
      | Inr False \<Rightarrow> (os, NotStarted ''Failed to acquire daemon lock: already locked'')
      | Inr True \<Rightarrow>
     (let os = os\<lparr>do_lock := True, do_lockFile := True\<rparr> in
     (case di_addr io of
        Some err \<Rightarrow> (release_lock os, Panics err)
      | None \<Rightarrow>
     (case di_listen io of
        Some err \<Rightarrow> (release_lock os, Panics err)
      | None \<Rightarrow>
     (let os = os\<lparr>do_listener := True\<rparr> in
     (case di_http io of
        Some err \<Rightarrow> (release_lock (os\<lparr>do_listener := False\<rparr>), Panics err)
      | None \<Rightarrow>
          (let os = serve (os\<lparr>do_http := True, do_ctx := True\<rparr>)
           in (release_lock (os\<lparr>do_ctx := False, do_http := False, do_listener := False\<rparr>), Served))))))))"

lemma daemon_Run_clean:
  assumes "\<not> do_lock os" "\<not> do_lockFile os" "\<not> do_listener os" "\<not> do_http os" "\<not> do_ctx os"
  shows "fst (daemon_Run io serve os) = os"
  using assms by (auto simp: daemon_Run_def release_lock_def Let_def split: sum.splits bool.splits option.splits)

text \<open>
  \<^verbatim>\<open>StartDetachedProcess\<close>; \<open>start\<close> is \<^verbatim>\<open>os.StartProcess\<close> with the attributes of the platform, and \<open>devNull\<close>
  the error of opening the null device.
\<close>

definition StartDetachedProcess_unix ::
    "go_error option \<Rightarrow> (string \<Rightarrow> string list \<Rightarrow> go_error option) \<Rightarrow> string \<Rightarrow> string list \<Rightarrow> go_error option" where
  "StartDetachedProcess_unix devNull start path args =
     (case devNull of Some err \<Rightarrow> Some err | None \<Rightarrow> (case start path args of Some err \<Rightarrow> Some err | None \<Rightarrow> None))"

definition StartDetachedProcess_windows ::
    "(string \<Rightarrow> string list \<Rightarrow> go_error option) \<Rightarrow> string \<Rightarrow> string list \<Rightarrow> go_error option" where
  "StartDetachedProcess_windows start path args = (case start path args of Some err \<Rightarrow> Some err | None \<Rightarrow> None)"

text \<open>
  \<^verbatim>\<open>ensureDaemonStarted\<close> and \<^verbatim>\<open>launchDaemon\<close>: whether a daemon process was started; \<open>start\<close> is
  \<^verbatim>\<open>StartDetachedProcess\<close> of the platform. A lock that is held means that a daemon runs.
\<close>

definition launchDaemon :: "string result \<Rightarrow> (string \<Rightarrow> string list \<Rightarrow> go_error option) \<Rightarrow> bool \<times> go_error option" where
  "launchDaemon executable start =
     (case executable of
        Inl err \<Rightarrow> (False, Some err)
      | Inr execPath \<Rightarrow>
          (case start execPath [execPath, ''--daemon''] of
             Some err \<Rightarrow> (False, Some err)
           | None \<Rightarrow> (True, None)))"

definition ensureDaemonStarted ::
    "bool result \<Rightarrow> string result \<Rightarrow> (string \<Rightarrow> string list \<Rightarrow> go_error option) \<Rightarrow> bool \<times> go_error option" where
  "ensureDaemonStarted try_lock executable start =
     (case try_lock of
        Inl err \<Rightarrow> (False, Some err)
      | Inr ok \<Rightarrow> if \<not> ok then (False, None) else launchDaemon executable start)"

section \<open>The connection\<close>

text \<open>
  \<open>dc_wire\<close> is what has been written to the socket. \<open>dc_sent\<close> and \<open>dc_failed\<close> only record what has
  happened: the messages that were sent, and whether a write failed.
\<close>

record DaemonConn =
  dc_chSend :: "Msg chan"
  dc_chClosed :: bool
  dc_closed :: bool
  dc_wire :: bytes
  dc_sent :: "Msg list"
  dc_failed :: bool

definition createDaemonConn :: DaemonConn where
  "createDaemonConn = \<lparr>dc_chSend = make_chan 128, dc_chClosed = False, dc_closed = False, dc_wire = [],
     dc_sent = [], dc_failed = False\<rparr>"

text \<open>\<^verbatim>\<open>Send\<close> blocks (\<^term>\<open>Some None\<close>) while the channel is full; on a closed channel it panics.\<close>

definition DaemonConn_Send :: "DaemonConn \<Rightarrow> Msg \<Rightarrow> DaemonConn option option" where
  "DaemonConn_Send d data =
     (if dc_chClosed d then None
      else Some (map_option (\<lambda>ch. d\<lparr>dc_chSend := ch, dc_sent := dc_sent d @ [data]\<rparr>) (chan_send data (dc_chSend d))))"

text \<open>One round of \<^verbatim>\<open>sendLoop\<close>, with the outcomes of the two writes; it ignores the error.\<close>

definition sendLoop :: "(Msg \<Rightarrow> bytes result) \<Rightarrow> wr \<Rightarrow> wr \<Rightarrow> DaemonConn \<Rightarrow> DaemonConn option" where
  "sendLoop marshal r1 r2 d =
     (case chan_recv (dc_chSend d) of
        None \<Rightarrow> None
      | Some (data, ch) \<Rightarrow>
          (let (bs, err) = sendMsg marshal r1 r2 data
           in Some (d\<lparr>dc_chSend := ch, dc_wire := dc_wire d @ bs, dc_failed := dc_failed d \<or> err \<noteq> None\<rparr>)))"

text \<open>\<^verbatim>\<open>Close\<close> closes the channel and then the socket; closing the channel twice would panic.\<close>

definition close_chSend :: "DaemonConn \<Rightarrow> DaemonConn option" where
  "close_chSend d = (if dc_chClosed d then None else Some (d\<lparr>dc_chClosed := True\<rparr>))"

inductive daemon_conn_step :: "(Msg \<Rightarrow> bytes result) \<Rightarrow> DaemonConn \<Rightarrow> DaemonConn \<Rightarrow> bool" for marshal where
  send: "DaemonConn_Send d data = Some (Some d') \<Longrightarrow> daemon_conn_step marshal d d'"
| loop: "\<not> dc_closed d \<Longrightarrow> sendLoop marshal r1 r2 d = Some d' \<Longrightarrow> daemon_conn_step marshal d d'"
| loop_closed: "dc_closed d \<Longrightarrow> sendLoop marshal (WrFail 0) r2 d = Some d' \<Longrightarrow> daemon_conn_step marshal d d'"
| close_chan: "close_chSend d = Some d' \<Longrightarrow> daemon_conn_step marshal d d'"
| close_conn: "dc_chClosed d \<Longrightarrow> daemon_conn_step marshal d (d\<lparr>dc_closed := True\<rparr>)"

inductive daemon_conn_reach :: "(Msg \<Rightarrow> bytes result) \<Rightarrow> DaemonConn \<Rightarrow> bool" for marshal where
  create: "daemon_conn_reach marshal createDaemonConn"
| step: "daemon_conn_reach marshal d \<Longrightarrow> daemon_conn_step marshal d d' \<Longrightarrow> daemon_conn_reach marshal d'"

section \<open>Connecting\<close>

text \<open>
  What happens at the \<^verbatim>\<open>select\<close> of \<^verbatim>\<open>Connect\<close>: the time is up, or a tick at which the socket is not
  there, or is there and the dial fails or succeeds.
\<close>

datatype connect_event = Timeout | TickNoSocket | TickDial "go_error option"

text \<open>The result is \<^const>\<open>None\<close> while it waits. \<open>err\<close> is the error of the first dial.\<close>

fun connect_loop :: "go_error \<Rightarrow> connect_event list \<Rightarrow> DaemonConn result option" where
  "connect_loop err [] = None"
| "connect_loop err (Timeout # evs) = Some (Inl err)"
| "connect_loop err (TickNoSocket # evs) = connect_loop err evs"
| "connect_loop err (TickDial (Some e) # evs) = Some (Inl e)"
| "connect_loop err (TickDial None # evs) = Some (Inr createDaemonConn)"

definition Connect :: "go_error option \<Rightarrow> go_error option \<Rightarrow> connect_event list \<Rightarrow> DaemonConn result option" where
  "Connect started dial evs =
     (case started of
        Some err \<Rightarrow> Some (Inl err)
      | None \<Rightarrow>
          (case dial of
             None \<Rightarrow> Some (Inr createDaemonConn)
           | Some err \<Rightarrow> connect_loop err evs))"

text \<open>The timer fires once within the first 51 events, as the ticks come every 100 ms: \<^verbatim>\<open>Connect\<close> returns.\<close>

lemma Connect_returns: "Timeout \<in> set evs \<Longrightarrow> \<exists>r. Connect started dial evs = Some r"
proof -
  have "Timeout \<in> set evs \<Longrightarrow> \<exists>r. connect_loop err evs = Some r" for err
    by (induction err evs rule: connect_loop.induct) auto
  then show "Timeout \<in> set evs \<Longrightarrow> \<exists>r. Connect started dial evs = Some r"
    by (auto simp: Connect_def split: option.splits)
qed

section \<open>What the daemon reads\<close>

definition frames :: "(Msg \<Rightarrow> bytes result) \<Rightarrow> Msg list \<Rightarrow> bytes" where
  "frames marshal ms = concat (map (\<lambda>m. fst (sendMsg marshal WrOk WrOk m)) ms)"

lemma sendMsg_ok: "sendMsg marshal r1 r2 m = (bs, None) \<Longrightarrow> bs = fst (sendMsg marshal WrOk WrOk m)"
  by (auto simp: sendMsg_def Let_def split: sum.splits wr.splits)

text \<open>What has been written, and then what is in the channel, is what was sent.\<close>

definition conn_inv :: "(Msg \<Rightarrow> bytes result) \<Rightarrow> DaemonConn \<Rightarrow> bool" where
  "conn_inv marshal d \<longleftrightarrow> ch_cap (dc_chSend d) = 128 \<and> length (ch_buf (dc_chSend d)) \<le> 128 \<and>
     (\<exists>done. dc_sent d = done @ ch_buf (dc_chSend d) \<and> (\<not> dc_failed d \<longrightarrow> dc_wire d = frames marshal done))"

lemma sendLoop_inv:
  assumes "sendLoop marshal r1 r2 d = Some d'" "conn_inv marshal d"
  shows "conn_inv marshal d'"
proof -
  from assms(1) obtain m ch bs err where s: "chan_recv (dc_chSend d) = Some (m, ch)" "sendMsg marshal r1 r2 m = (bs, err)"
    "d' = d\<lparr>dc_chSend := ch, dc_wire := dc_wire d @ bs, dc_failed := dc_failed d \<or> err \<noteq> None\<rparr>"
    by (auto simp: sendLoop_def split: option.splits prod.splits)
  from chan.recv_items [OF s(1)] have ch: "ch_buf (dc_chSend d) = m # ch_buf ch" "ch_cap ch = ch_cap (dc_chSend d)" by simp_all
  from assms(2) obtain dn where dn: "dc_sent d = dn @ ch_buf (dc_chSend d)" "\<not> dc_failed d \<longrightarrow> dc_wire d = frames marshal dn"
    by (auto simp: conn_inv_def)
  have "\<not> dc_failed d' \<longrightarrow> dc_wire d' = frames marshal (dn @ [m])"
    using dn(2) s(2,3) sendMsg_ok [of marshal r1 r2 m bs] by (auto simp: frames_def)
  moreover have "dc_sent d' = (dn @ [m]) @ ch_buf (dc_chSend d')" using dn(1) ch s(3) by simp
  ultimately show ?thesis using assms(2) ch s(3) unfolding conn_inv_def by auto
qed

lemma Send_inv:
  assumes "DaemonConn_Send d data = Some (Some d')" "conn_inv marshal d"
  shows "conn_inv marshal d'"
proof -
  from assms(1) obtain ch where "chan_send data (dc_chSend d) = Some ch" "d' = d\<lparr>dc_chSend := ch, dc_sent := dc_sent d @ [data]\<rparr>"
    by (auto simp: DaemonConn_Send_def split: if_splits)
  with assms(2) show ?thesis by (auto simp: conn_inv_def chan_send_def split: if_splits)
qed

lemma close_inv: "close_chSend d = Some d' \<Longrightarrow> conn_inv marshal d \<Longrightarrow> conn_inv marshal d'"
  "conn_inv marshal d \<Longrightarrow> conn_inv marshal (d\<lparr>dc_closed := True\<rparr>)"
  by (auto simp: conn_inv_def close_chSend_def split: if_splits)

lemma daemon_conn_step_inv: "daemon_conn_step marshal d d' \<Longrightarrow> conn_inv marshal d \<Longrightarrow> conn_inv marshal d'"
  by (erule daemon_conn_step.cases) (blast intro: Send_inv sendLoop_inv close_inv)+

lemma daemon_conn_reach_inv: "daemon_conn_reach marshal d \<Longrightarrow> conn_inv marshal d"
  by (induction rule: daemon_conn_reach.induct)
    (simp add: conn_inv_def createDaemonConn_def frames_def, rule daemon_conn_step_inv)

section \<open>Properties\<close>



end
