(* ===== verification/DaemonServe.thy ===== *)
theory DaemonServe
  imports Daemon
begin

text \<open>
  The tracker daemon itself, \<^verbatim>\<open>daemon.go\<close> and \<^verbatim>\<open>http.go\<close> of \<^verbatim>\<open>client/internal/daemon\<close>: the
  connections of games, the routes of its HTTP server and the web sockets that follow a game. Shown: no channel is closed twice or written after it was closed, so the daemon does
  not panic, whatever connects and leaves; a web socket writes what was broadcast after it subscribed,
  in order, with nothing twice; every id the daemon lists can be followed; and a web socket is not
  left behind by a game that has gone.
\<close>

section \<open>State\<close>

text \<open>
  Connections and web sockets are numbered. A connection is registered, then removed from the map,
  then its client is closed. A web socket holds a channel of a client until it unsubscribes; it is
  being upgraded, in its \<^verbatim>\<open>select\<close>, writing a message, or about to leave.
\<close>

datatype conn_pc = ConnOpen | ConnRemoved | ConnClosed

datatype sock_pc = SockUpgrade | SockSelect | SockWrite bytes | SockLeave

text \<open>
  \<open>sk_closed\<close> is the channel \<^verbatim>\<open>closed\<close> of the goroutine that reads from the peer. What the socket has
  written is kept, as are the messages of each connection and how many of them came before the
  subscription.
\<close>

record socket =
  sk_conn :: nat
  sk_ch :: nat
  sk_pc :: sock_pc
  sk_closed :: bool
  sk_written :: "bytes list"
  sk_from :: nat

record daemon =
  d_cancelled :: bool
  d_clients :: "bytes \<rightharpoonup> nat"
  d_conns :: "nat \<rightharpoonup> client \<times> conn_pc"
  d_sockets :: "nat \<rightharpoonup> socket"
  d_sent :: "nat \<Rightarrow> bytes list"

definition new_daemon :: daemon where
  "new_daemon = \<lparr>d_cancelled = False, d_clients = Map.empty, d_conns = Map.empty, d_sockets = Map.empty,
     d_sent = (\<lambda>_. [])\<rparr>"

definition set_conn :: "daemon \<Rightarrow> nat \<Rightarrow> client \<Rightarrow> conn_pc \<Rightarrow> daemon" where
  "set_conn d n c pc = d\<lparr>d_conns := (d_conns d)(n \<mapsto> (c, pc))\<rparr>"

definition set_socket :: "daemon \<Rightarrow> nat \<Rightarrow> socket \<Rightarrow> daemon" where
  "set_socket d w s = d\<lparr>d_sockets := (d_sockets d)(w \<mapsto> s)\<rparr>"

section \<open>Connections of games\<close>

text \<open>
  The parts of \<^verbatim>\<open>handleConnection\<close>; \<open>conn_next\<close> is the body of its loop up to \<^verbatim>\<open>broadcast\<close>: the JSON text of
  the next message and the bytes that are left.
\<close>

definition conn_register :: "daemon \<Rightarrow> nat \<Rightarrow> bytes \<Rightarrow> daemon" where
  "conn_register d n ident =
     (set_conn d n (newClient ident) ConnOpen)\<lparr>d_clients := (d_clients d)(ident \<mapsto> n)\<rparr>"

definition conn_next ::
    "(Msg \<Rightarrow> bytes result) \<Rightarrow> (bytes \<Rightarrow> Msg result) \<Rightarrow> go_error \<Rightarrow> bytes \<Rightarrow> (bytes \<times> bytes) go" where
  "conn_next marshal unmarshal fin bs =
     (case recvMsg unmarshal fin bs of
        None \<Rightarrow> None
      | Some (Inl err) \<Rightarrow> Some (Inl err)
      | Some (Inr (msg, bs)) \<Rightarrow>
          (case marshal msg of Inl err \<Rightarrow> Some (Inl err) | Inr data \<Rightarrow> Some (Inr (data, bs))))"

definition conn_remove :: "daemon \<Rightarrow> nat \<Rightarrow> client \<Rightarrow> daemon" where
  "conn_remove d n c = set_conn (d\<lparr>d_clients := (d_clients d)(cl_id c := None)\<rparr>) n c ConnRemoved"

definition conn_close :: "nat list \<Rightarrow> daemon \<Rightarrow> nat \<Rightarrow> client \<Rightarrow> daemon option" where
  "conn_close subs d n c = map_option (\<lambda>c. set_conn d n c ConnClosed) (client_close subs c)"

text \<open>
  A message goes to the subscribers that wait for one: the sockets in their \<^verbatim>\<open>select\<close> whose channel is
  among those that \<^const>\<open>broadcast\<close> reports.
\<close>

definition gets :: "nat \<Rightarrow> nat set \<Rightarrow> socket \<Rightarrow> bool" where
  "gets n chs s \<longleftrightarrow> sk_conn s = n \<and> sk_ch s \<in> chs \<and> sk_pc s = SockSelect"

definition deliver :: "daemon \<Rightarrow> nat \<Rightarrow> bytes \<Rightarrow> nat set \<Rightarrow> daemon" where
  "deliver d n payload chs = d\<lparr>d_sockets := (\<lambda>w. map_option (\<lambda>s. if gets n chs s then s\<lparr>sk_pc := SockWrite payload\<rparr> else s) (d_sockets d w)),
     d_sent := (d_sent d)(n := d_sent d n @ [payload])\<rparr>"

section \<open>The HTTP server\<close>

text \<open>The ids of the clients, in the order Go ranges over the map, go into a JSON document.\<close>

record http_response =
  hr_status :: nat
  hr_headers :: "(string \<times> string) list"
  hr_clients :: "string list"

definition http_status :: "nat \<Rightarrow> http_response" where
  "http_status n = \<lparr>hr_status = n, hr_headers = [], hr_clients = []\<rparr>"

definition httpRouteClients :: "bytes list \<Rightarrow> http_response" where
  "httpRouteClients ids = \<lparr>hr_status = 200, hr_headers = [(''Content-Type'', ''application/json'')],
     hr_clients = map EncodeToString ids\<rparr>"

text \<open>
  \<^verbatim>\<open>httpRouteClientEvents\<close> up to the upgrade: the client looked up and subscribed, or the HTTP status of
  the error. \<open>path\<close> is \<^verbatim>\<open>r.PathValue("id")\<close>.
\<close>

definition httpRouteClientEvents :: "daemon \<Rightarrow> nat \<Rightarrow> string \<Rightarrow> daemon \<times> http_response" where
  "httpRouteClientEvents d w path =
     (case DecodeString path of
        Inl err \<Rightarrow> (d, http_status 400)
      | Inr ident \<Rightarrow>
          (case d_clients d (copy_array 16 ident) of
             None \<Rightarrow> (d, http_status 404)
           | Some n \<Rightarrow>
               (case d_conns d n of
                  None \<Rightarrow> (d, http_status 404)
                | Some (c, pc) \<Rightarrow>
                    (let (c, ch) = subscribe c
                     in (set_socket (set_conn d n c pc) w \<lparr>sk_conn = n, sk_ch = ch, sk_pc = SockUpgrade, sk_closed = False,
                           sk_written = [], sk_from = length (d_sent d n)\<rparr>, http_status 101)))))"

text \<open>
  \<^verbatim>\<open>httpServer\<close>: the multiplexer with its two routes, on the segments of the path, inside \<^verbatim>\<open>withCORS\<close>. A
  pattern for \<^verbatim>\<open>GET\<close> takes \<^verbatim>\<open>HEAD\<close> too; another method on a known path is refused with 405.
\<close>

definition withCORS :: "daemon \<times> http_response \<Rightarrow> daemon \<times> http_response" where
  "withCORS h = (case h of (d, r) \<Rightarrow> (d, r\<lparr>hr_headers := (''Access-Control-Allow-Origin'', ''*'') # hr_headers r\<rparr>))"

definition httpServer :: "daemon \<Rightarrow> nat \<Rightarrow> bytes list \<Rightarrow> string \<Rightarrow> string list \<Rightarrow> daemon \<times> http_response" where
  "httpServer d w ids meth segs =
     withCORS
       (case segs of
          [a] \<Rightarrow>
            if a \<noteq> ''clients'' then (d, http_status 404)
            else if meth \<noteq> ''GET'' \<and> meth \<noteq> ''HEAD'' then (d, http_status 405)
            else (d, httpRouteClients ids)
        | [a, i, b] \<Rightarrow>
            if a \<noteq> ''clients'' \<or> i = '''' \<or> b \<noteq> ''events'' then (d, http_status 404)
            else if meth \<noteq> ''GET'' \<and> meth \<noteq> ''HEAD'' then (d, http_status 405)
            else httpRouteClientEvents d w i
        | _ \<Rightarrow> (d, http_status 404))"

definition watchdog_tick :: "nat \<Rightarrow> daemon \<Rightarrow> daemon" where
  "watchdog_tick len_clients d = (if len_clients = 0 then d\<lparr>d_cancelled := True\<rparr> else d)"

section \<open>Steps\<close>

text \<open>
  The steps of a web socket: after \<^verbatim>\<open>httpRouteClientEvents\<close> has subscribed it is upgraded or the request
  fails; in its loop it writes the message that was handed to it, and leaves when its channel is
  closed, when the peer has gone or when a write fails; leaving unsubscribes. A panic is a step that
  has no result.
\<close>

inductive socket_step :: "daemon \<Rightarrow> nat \<Rightarrow> daemon option \<Rightarrow> bool" for d w where
  upgrade: "d_sockets d w = Some s \<Longrightarrow> sk_pc s = SockUpgrade \<Longrightarrow>
    socket_step d w (Some (set_socket d w (s\<lparr>sk_pc := (if ok then SockSelect else SockLeave)\<rparr>)))"
| peer_gone: "d_sockets d w = Some s \<Longrightarrow> sk_pc s \<noteq> SockUpgrade \<Longrightarrow>
    socket_step d w (Some (set_socket d w (s\<lparr>sk_closed := True\<rparr>)))"
| written: "d_sockets d w = Some s \<Longrightarrow> sk_pc s = SockWrite payload \<Longrightarrow>
    socket_step d w (Some (set_socket d w (s\<lparr>sk_pc := SockSelect, sk_written := sk_written s @ [payload]\<rparr>)))"
| write_fails: "d_sockets d w = Some s \<Longrightarrow> sk_pc s = SockWrite payload \<Longrightarrow>
    socket_step d w (Some (set_socket d w (s\<lparr>sk_pc := SockLeave\<rparr>)))"
| quit: "d_sockets d w = Some s \<Longrightarrow> sk_pc s = SockSelect \<Longrightarrow> d_conns d (sk_conn s) = Some (c, pc) \<Longrightarrow>
    sk_ch s \<in> cl_closed c \<or> sk_closed s \<Longrightarrow>
    socket_step d w (Some (set_socket d w (s\<lparr>sk_pc := SockLeave\<rparr>)))"
| unsub: "d_sockets d w = Some s \<Longrightarrow> sk_pc s = SockLeave \<Longrightarrow> d_conns d (sk_conn s) = Some (c, pc) \<Longrightarrow>
    socket_step d w (map_option (\<lambda>c. (set_conn d (sk_conn s) c pc)\<lparr>d_sockets := (d_sockets d)(w := None)\<rparr>)
      (unsubscribe c (sk_ch s)))"

text \<open>The steps of the daemon: games connect, send messages and leave, requests come in, sockets run.\<close>

inductive daemon_step :: "daemon \<Rightarrow> daemon option \<Rightarrow> bool" where
  register: "d_conns d n = None \<Longrightarrow> length ident = 16 \<Longrightarrow> daemon_step d (Some (conn_register d n ident))"
| message: "d_conns d n = Some (c, ConnOpen) \<Longrightarrow> daemon_step d (map_option (deliver d n payload) (broadcast waiting c))"
| remove: "d_conns d n = Some (c, ConnOpen) \<Longrightarrow> daemon_step d (Some (conn_remove d n c))"
| close: "d_conns d n = Some (c, ConnRemoved) \<Longrightarrow> set subs = cl_subs c \<Longrightarrow> distinct subs \<Longrightarrow>
    daemon_step d (conn_close subs d n c)"
| request: "d_sockets d w = None \<Longrightarrow> set ids = dom (d_clients d) \<Longrightarrow> distinct ids \<Longrightarrow>
    daemon_step d (Some (fst (httpServer d w ids meth segs)))"
| socket: "socket_step d w d' \<Longrightarrow> daemon_step d d'"
| watchdog: "daemon_step d (Some (watchdog_tick (card (dom (d_clients d))) d))"

inductive daemon_reach :: "daemon option \<Rightarrow> bool" where
  init: "daemon_reach (Some new_daemon)"
| step: "daemon_reach (Some d) \<Longrightarrow> daemon_step d d' \<Longrightarrow> daemon_reach d'"

section \<open>Invariant\<close>

definition client_ok :: "client \<Rightarrow> conn_pc \<Rightarrow> bool" where
  "client_ok c pc \<longleftrightarrow> cl_subs c \<inter> cl_closed c = {} \<and> (\<forall>ch\<in>cl_subs c \<union> cl_closed c. ch < cl_next c) \<and>
     (cl_done c \<longleftrightarrow> pc = ConnClosed) \<and> (pc = ConnClosed \<longrightarrow> cl_subs c = {})"

definition sk_pending :: "socket \<Rightarrow> bytes list" where
  "sk_pending s = (case sk_pc s of SockWrite payload \<Rightarrow> [payload] | _ \<Rightarrow> [])"

text \<open>What a socket has written and will write next, against the messages since it subscribed.\<close>

definition follows :: "daemon \<Rightarrow> socket \<Rightarrow> bool" where
  "follows d s \<longleftrightarrow> sk_from s \<le> length (d_sent d (sk_conn s)) \<and>
     subseq (sk_written s @ sk_pending s) (drop (sk_from s) (d_sent d (sk_conn s)))"

definition socket_ok :: "daemon \<Rightarrow> socket \<Rightarrow> bool" where
  "socket_ok d s \<longleftrightarrow> (\<exists>c pc. d_conns d (sk_conn s) = Some (c, pc) \<and> sk_ch s \<in> cl_subs c \<union> cl_closed c)"

definition daemon_inv :: "daemon \<Rightarrow> bool" where
  "daemon_inv d \<longleftrightarrow>
     (\<forall>n c pc. d_conns d n = Some (c, pc) \<longrightarrow> client_ok c pc) \<and>
     (\<forall>ident n. d_clients d ident = Some n \<longrightarrow> length ident = 16 \<and> (\<exists>c. d_conns d n = Some (c, ConnOpen) \<and> cl_id c = ident)) \<and>
     (\<forall>w s. d_sockets d w = Some s \<longrightarrow> socket_ok d s \<and> follows d s)"

section \<open>Lemmas on clients\<close>

lemma close_subs_ok:
  assumes "distinct subs" "set subs \<subseteq> cl_subs c" "cl_subs c \<inter> cl_closed c = {}"
  shows "close_subs c subs =
    Some (c\<lparr>cl_subs := cl_subs c - set subs, cl_closed := cl_closed c \<union> set subs\<rparr>)"
  using assms
proof (induction subs arbitrary: c)
  case (Cons sub subs)
  let ?c = "c\<lparr>cl_closed := insert sub (cl_closed c), cl_subs := cl_subs c - {sub}\<rparr>"
  from Cons.prems have "close_chan c sub = Some (c\<lparr>cl_closed := insert sub (cl_closed c)\<rparr>)"
    by (auto simp: close_chan_def)
  moreover have "close_subs ?c subs = Some (?c\<lparr>cl_subs := cl_subs ?c - set subs, cl_closed := cl_closed ?c \<union> set subs\<rparr>)"
    by (rule Cons.IH) (use Cons.prems in auto)
  moreover have "cl_subs c - {sub} - set subs = cl_subs c - insert sub (set subs)" by auto
  ultimately show ?case by simp
qed simp

lemma client_close_ok:
  assumes "client_ok c ConnRemoved" "distinct subs" "set subs = cl_subs c"
  shows "client_close subs c = Some (c\<lparr>cl_subs := {}, cl_closed := cl_closed c \<union> cl_subs c, cl_done := True\<rparr>)"
  using close_subs_ok [of subs c] assms by (simp add: client_close_def client_ok_def)

lemma unsubscribe_ok:
  assumes "client_ok c pc"
  shows "\<exists>c'. unsubscribe c ch = Some c' \<and> client_ok c' pc \<and> cl_id c' = cl_id c \<and>
    cl_subs c \<union> cl_closed c \<subseteq> cl_subs c' \<union> cl_closed c'"
  using assms by (auto simp: unsubscribe_def close_chan_def client_ok_def)

lemma subscribe_ok:
  assumes "client_ok c ConnOpen" "subscribe c = (c', ch)"
  shows "client_ok c' ConnOpen" "cl_id c' = cl_id c" "ch \<in> cl_subs c'"
    "cl_subs c \<union> cl_closed c \<subseteq> cl_subs c' \<union> cl_closed c'"
  using assms by (auto simp: subscribe_def client_ok_def less_Suc_eq)

section \<open>The invariant is kept\<close>

lemma daemon_invD:
  assumes "daemon_inv d"
  shows daemon_inv_conn: "d_conns d n = Some (c, pc) \<Longrightarrow> client_ok c pc"
    and daemon_inv_client: "d_clients d ident = Some n \<Longrightarrow> \<exists>c. d_conns d n = Some (c, ConnOpen) \<and> cl_id c = ident"
    and daemon_inv_id: "d_clients d ident = Some n \<Longrightarrow> length ident = 16"
    and daemon_inv_socket: "d_sockets d w = Some s \<Longrightarrow> socket_ok d s"
    and daemon_inv_follows: "d_sockets d w = Some s \<Longrightarrow> follows d s"
  using assms unfolding daemon_inv_def by blast+

lemma daemon_invI:
  assumes "\<And>n c pc. d_conns d n = Some (c, pc) \<Longrightarrow> client_ok c pc"
    and "\<And>ident n. d_clients d ident = Some n \<Longrightarrow> length ident = 16 \<and> (\<exists>c. d_conns d n = Some (c, ConnOpen) \<and> cl_id c = ident)"
    and "\<And>w s. d_sockets d w = Some s \<Longrightarrow> socket_ok d s \<and> follows d s"
  shows "daemon_inv d"
  using assms unfolding daemon_inv_def by blast

lemma follows_cong: "d_sent d' (sk_conn s) = d_sent d (sk_conn s) \<Longrightarrow> follows d' s = follows d s"
  by (simp add: follows_def)

lemma set_simps [simp]:
  "d_sent (set_conn d n c pc) = d_sent d" "d_sent (set_socket d w s) = d_sent d"
  "d_clients (set_conn d n c pc) = d_clients d" "d_clients (set_socket d w s) = d_clients d"
  "d_sockets (set_conn d n c pc) = d_sockets d" "d_sockets (set_socket d w s) = (d_sockets d)(w \<mapsto> s)"
  "d_conns (set_conn d n c pc) = (d_conns d)(n \<mapsto> (c, pc))" "d_conns (set_socket d w s) = d_conns d"
  by (simp_all add: set_conn_def set_socket_def)

text \<open>A client changes within itself: its id stays and its channels stay open or closed channels.\<close>

lemma set_conn_inv:
  assumes "daemon_inv d" "d_conns d n = Some (c, pc)" "client_ok c' pc'" "cl_id c' = cl_id c"
    and "cl_subs c \<union> cl_closed c \<subseteq> cl_subs c' \<union> cl_closed c'"
    and "pc = ConnOpen \<longrightarrow> pc' = ConnOpen \<or> d_clients d (cl_id c) \<noteq> Some n"
  shows "daemon_inv (set_conn d n c' pc')"
proof (rule daemon_invI)
  fix m c1 pc1 assume "d_conns (set_conn d n c' pc') m = Some (c1, pc1)"
  then show "client_ok c1 pc1" using assms(3) daemon_inv_conn [OF assms(1), of m] by (auto split: if_splits)
next
  fix ident m assume "d_clients (set_conn d n c' pc') ident = Some m"
  then have m: "d_clients d ident = Some m" by simp
  from daemon_inv_client [OF assms(1) m] daemon_inv_id [OF assms(1) m] assms(2,4,6) m
  show "length ident = 16 \<and> (\<exists>c. d_conns (set_conn d n c' pc') m = Some (c, ConnOpen) \<and> cl_id c = ident)" by auto
next
  fix w s assume "d_sockets (set_conn d n c' pc') w = Some s"
  then have s: "d_sockets d w = Some s" by simp
  from daemon_inv_socket [OF assms(1) s] daemon_inv_follows [OF assms(1) s] assms(2,5)
  show "socket_ok (set_conn d n c' pc') s \<and> follows (set_conn d n c' pc') s"
    by (auto simp: socket_ok_def follows_def)
qed

text \<open>A socket changes and still follows its game.\<close>

lemma set_socket_inv:
  assumes "daemon_inv d" "socket_ok d s" "follows d s"
  shows "daemon_inv (set_socket d w s)"
proof -
  have "socket_ok (set_socket d w s) = socket_ok d" "follows (set_socket d w s) = follows d"
    by (auto simp: socket_ok_def follows_def fun_eq_iff)
  with assms show ?thesis by (auto simp: daemon_inv_def)
qed

lemma update_socket_inv:
  assumes "daemon_inv d" "d_sockets d w = Some s" "sk_conn s' = sk_conn s" "sk_ch s' = sk_ch s" "sk_from s' = sk_from s"
    "subseq (sk_written s' @ sk_pending s') (sk_written s @ sk_pending s)"
  shows "daemon_inv (set_socket d w s')"
  using daemon_inv_socket [OF assms(1,2)] daemon_inv_follows [OF assms(1,2)] assms(3-6)
  by (intro set_socket_inv [OF assms(1)]) (auto simp: socket_ok_def follows_def intro: subseq_order.order_trans)

lemma daemon_inv_clients:
  "daemon_inv d \<Longrightarrow> daemon_inv (d\<lparr>d_clients := (d_clients d)(ident := None)\<rparr>)"
  by (auto simp: daemon_inv_def socket_ok_def follows_def)

lemma daemon_inv_sockets:
  "daemon_inv d \<Longrightarrow> daemon_inv (d\<lparr>d_sockets := (d_sockets d)(w := None)\<rparr>)"
  by (auto simp: daemon_inv_def socket_ok_def follows_def)

lemma register_inv:
  assumes "daemon_inv d" "d_conns d n = None" "length ident = 16"
  shows "daemon_inv (conn_register d n ident)"
proof -
  have new: "client_ok (newClient ident) ConnOpen" "cl_id (newClient ident) = ident"
    by (simp_all add: client_ok_def newClient_def)
  show ?thesis
  proof (rule daemon_invI)
    fix m c pc assume "d_conns (conn_register d n ident) m = Some (c, pc)"
    then show "client_ok c pc" using new daemon_inv_conn [OF assms(1), of m]
      by (auto simp: conn_register_def split: if_splits)
  next
    fix i m assume "d_clients (conn_register d n ident) i = Some m"
    then have "(if i = ident then Some n else d_clients d i) = Some m" by (simp add: conn_register_def)
    with new assms(2,3) daemon_inv_client [OF assms(1)] daemon_inv_id [OF assms(1)]
    show "length i = 16 \<and> (\<exists>c. d_conns (conn_register d n ident) m = Some (c, ConnOpen) \<and> cl_id c = i)"
      by (cases "i = ident") (fastforce simp: conn_register_def)+
  next
    fix w s assume "d_sockets (conn_register d n ident) w = Some s"
    then have s: "d_sockets d w = Some s" by (simp add: conn_register_def)
    from daemon_inv_socket [OF assms(1) s] daemon_inv_follows [OF assms(1) s] assms(2)
    show "socket_ok (conn_register d n ident) s \<and> follows (conn_register d n ident) s"
      by (auto simp: socket_ok_def follows_def conn_register_def)
  qed
qed

lemma events_inv:
  assumes "daemon_inv d"
  shows "daemon_inv (fst (httpRouteClientEvents d w path))"
proof (cases "\<exists>ident n. DecodeString path = Inr ident \<and> d_clients d (copy_array 16 ident) = Some n")
  case False
  then show ?thesis using assms by (auto simp: httpRouteClientEvents_def split: sum.split option.split)
next
  case True
  then obtain ident n where i: "DecodeString path = Inr ident" "d_clients d (copy_array 16 ident) = Some n" by blast
  with daemon_inv_client [OF assms] obtain c where c: "d_conns d n = Some (c, ConnOpen)" by blast
  obtain c' ch where s: "subscribe c = (c', ch)" by fastforce
  note s' = subscribe_ok [OF daemon_inv_conn [OF assms c] s]
  let ?s = "\<lparr>sk_conn = n, sk_ch = ch, sk_pc = SockUpgrade, sk_closed = False, sk_written = [], sk_from = length (d_sent d n)\<rparr>"
  have "daemon_inv (set_conn d n c' ConnOpen)" using set_conn_inv [OF assms c s'(1,2,4)] by simp
  then have "daemon_inv (set_socket (set_conn d n c' ConnOpen) w ?s)"
    by (rule set_socket_inv) (use s'(3) in \<open>auto simp: socket_ok_def follows_def sk_pending_def\<close>)
  with i c s show ?thesis by (simp add: httpRouteClientEvents_def)
qed

lemma request_inv: "daemon_inv d \<Longrightarrow> daemon_inv (fst (httpServer d w ids meth segs))"
  using events_inv by (auto simp: httpServer_def withCORS_def split: list.split prod.split) (metis fst_conv)+

lemma daemon_deliver_inv:
  assumes "daemon_inv d"
  shows "daemon_inv (deliver d n payload chs)"
proof (rule daemon_invI)
  fix w s' assume "d_sockets (deliver d n payload chs) w = Some s'"
  then obtain s where s: "d_sockets d w = Some s" "s' = (if gets n chs s then s\<lparr>sk_pc := SockWrite payload\<rparr> else s)"
    by (auto simp: deliver_def)
  let ?log = "drop (sk_from s) (d_sent d (sk_conn s))"
  have f: "sk_from s \<le> length (d_sent d (sk_conn s))" "subseq (sk_written s @ sk_pending s) ?log"
    using daemon_inv_follows [OF assms s(1)] by (simp_all add: follows_def)
  have "subseq (xs @ []) (?log @ [payload])" "subseq (xs @ [payload]) (?log @ [payload])" if "subseq xs ?log" for xs
    using that by (rule list_emb_append_mono, simp)+
  with f have "follows (deliver d n payload chs) s'"
    by (auto simp: follows_def deliver_def s(2) gets_def sk_pending_def)
  moreover have "socket_ok (deliver d n payload chs) s'"
    using daemon_inv_socket [OF assms s(1)] by (simp add: socket_ok_def deliver_def s(2))
  ultimately show "socket_ok (deliver d n payload chs) s' \<and> follows (deliver d n payload chs) s'" by simp
qed (use daemon_inv_conn [OF assms] daemon_inv_client [OF assms] daemon_inv_id [OF assms] in \<open>auto simp: deliver_def\<close>)

lemma socket_step_inv:
  assumes "socket_step d w d'" "daemon_inv d"
  shows "\<exists>d1. d' = Some d1 \<and> daemon_inv d1"
  using assms(1)
proof cases
  case (unsub s c pc)
  from unsubscribe_ok [OF daemon_inv_conn [OF assms(2) unsub(4)], of "sk_ch s"]
  obtain c' where c': "unsubscribe c (sk_ch s) = Some c'" "client_ok c' pc" "cl_id c' = cl_id c"
    "cl_subs c \<union> cl_closed c \<subseteq> cl_subs c' \<union> cl_closed c'" by blast
  have "daemon_inv (set_conn d (sk_conn s) c' pc)" by (rule set_conn_inv [OF assms(2) unsub(4) c'(2-4)]) simp
  from daemon_inv_sockets [OF this, of w] unsub(1) c'(1) show ?thesis by simp
next
  case (write_fails s payload)
  have "subseq (sk_written s @ []) (sk_written s @ [payload])" by (rule list_emb_append_mono) simp_all
  with write_fails show ?thesis
    using update_socket_inv [OF assms(2) write_fails(2), of "s\<lparr>sk_pc := SockLeave\<rparr>"] by (simp add: sk_pending_def)
qed (use update_socket_inv [OF assms(2)] in \<open>auto simp: sk_pending_def\<close>)

lemma daemon_step_inv:
  assumes "daemon_step d d'" "daemon_inv d"
  shows "\<exists>d1. d' = Some d1 \<and> daemon_inv d1"
  using assms(1)
proof cases
  case (register n ident)
  with register_inv [OF assms(2)] show ?thesis by simp
next
  case (message n c payload waiting)
  with daemon_inv_conn [OF assms(2)] have "client_ok c ConnOpen" by blast
  with message daemon_deliver_inv [OF assms(2)] show ?thesis by (simp add: broadcast_def client_ok_def)
next
  case (remove n c)
  let ?d = "d\<lparr>d_clients := (d_clients d)(cl_id c := None)\<rparr>"
  from daemon_inv_conn [OF assms(2) remove(2)]
  have "daemon_inv (set_conn ?d n c ConnRemoved)"
    by (intro set_conn_inv [OF daemon_inv_clients [OF assms(2)]]) (use remove in \<open>auto simp: client_ok_def\<close>)
  with remove(1) show ?thesis by (simp add: conn_remove_def)
next
  case (close n c subs)
  from daemon_inv_conn [OF assms(2) close(2)] have "client_ok c ConnRemoved" .
  note cl = client_close_ok [OF this close(4,3)] this
  have "daemon_inv (set_conn d n (c\<lparr>cl_subs := {}, cl_closed := cl_closed c \<union> cl_subs c, cl_done := True\<rparr>) ConnClosed)"
    by (rule set_conn_inv [OF assms(2) close(2)]) (use cl(2) in \<open>auto simp: client_ok_def\<close>)
  with close(1) cl show ?thesis by (simp add: conn_close_def)
next
  case (request w ids meth segs)
  with request_inv [OF assms(2)] show ?thesis by simp
next
  case (socket w)
  with socket_step_inv [OF _ assms(2)] show ?thesis by blast
next
  case watchdog
  with assms(2) show ?thesis by (simp add: watchdog_tick_def daemon_inv_def socket_ok_def follows_def)
qed

lemma daemon_reach_inv: "daemon_reach d \<Longrightarrow> \<exists>d1. d = Some d1 \<and> daemon_inv d1"
proof (induction rule: daemon_reach.induct)
  case init
  then show ?case by (simp add: daemon_inv_def new_daemon_def)
next
  case (step d d')
  then show ?case using daemon_step_inv by blast
qed

section \<open>The messages of a game\<close>

text \<open>What \<^verbatim>\<open>handleConnection\<close> broadcasts is the JSON text of what the game sent, message by message.\<close>

definition json_text :: "(Msg \<Rightarrow> bytes result) \<Rightarrow> Msg \<Rightarrow> bytes" where
  "json_text marshal m = (case marshal m of Inl err \<Rightarrow> [] | Inr data \<Rightarrow> data)"

lemma conn_next_frame:
  assumes "json_ok marshal unmarshal m"
  shows "conn_next marshal unmarshal fin (fst (sendMsg marshal WrOk WrOk m) @ rest) = Some (Inr (json_text marshal m, rest))"
  using daemon_msgs.recv_frame [OF assms] assms
  by (auto simp: conn_next_def json_ok_def json_text_def)

section \<open>Leaving\<close>

text \<open>A socket whose game has gone is two steps from its end at most.\<close>

inductive daemon_run :: "daemon \<Rightarrow> daemon \<Rightarrow> bool" where
  stay: "daemon_run d d"
| go: "daemon_step d (Some d1) \<Longrightarrow> daemon_run d1 d2 \<Longrightarrow> daemon_run d d2"

lemma leave_gone:
  assumes "daemon_inv d" "d_sockets d w = Some s" "sk_pc s = SockLeave"
  shows "\<exists>d'. daemon_run d d' \<and> d_sockets d' w = None"
proof -
  obtain c pc where c: "d_conns d (sk_conn s) = Some (c, pc)" using daemon_inv_socket [OF assms(1,2)] by (auto simp: socket_ok_def)
  from unsubscribe_ok [OF daemon_inv_conn [OF assms(1) c]] obtain c' where "unsubscribe c (sk_ch s) = Some c'" by blast
  with daemon_step.socket [OF socket_step.unsub [OF assms(2,3) c]]
  have "daemon_step d (Some ((set_conn d (sk_conn s) c' pc)\<lparr>d_sockets := (d_sockets d)(w := None)\<rparr>))" by simp
  then show ?thesis by (intro exI conjI, rule daemon_run.go [OF _ daemon_run.stay]) simp_all
qed

lemma leaving_gone:
  assumes "daemon_inv d" "d_sockets d w = Some s" "daemon_step d (Some (set_socket d w (s\<lparr>sk_pc := SockLeave\<rparr>)))"
  shows "\<exists>d'. daemon_run d d' \<and> d_sockets d' w = None"
  using leave_gone [of "set_socket d w (s\<lparr>sk_pc := SockLeave\<rparr>)" w "s\<lparr>sk_pc := SockLeave\<rparr>"]
    daemon_step_inv [OF assms(3,1)] assms(3) daemon_run.go by fastforce

lemma closed_gone:
  assumes "daemon_inv d" "d_sockets d w = Some s" "d_conns d (sk_conn s) = Some (c, ConnClosed)"
  shows "\<exists>d'. daemon_run d d' \<and> d_sockets d' w = None"
proof (cases "sk_pc s")
  case SockUpgrade
  from daemon_step.socket [OF socket_step.upgrade [OF assms(2) this, of False]] leaving_gone assms(1,2) show ?thesis by simp
next
  case SockSelect
  have "sk_ch s \<in> cl_closed c"
    using daemon_inv_socket [OF assms(1,2)] daemon_inv_conn [OF assms(1,3)] assms(3) by (auto simp: socket_ok_def client_ok_def)
  with socket_step.quit [OF assms(2) SockSelect assms(3)] leaving_gone assms(1,2) daemon_step.socket show ?thesis by blast
next
  case (SockWrite payload)
  from daemon_step.socket [OF socket_step.write_fails [OF assms(2) this]] leaving_gone assms(1,2) show ?thesis by blast
qed (use leave_gone assms in blast)

section \<open>Properties\<close>


text \<open>C39: A web socket writes messages of its game in the order they were broadcast, none twice and none from
  before it subscribed; it may miss those that come while it is writing.\<close>

theorem websocket_in_order:
  assumes "daemon_reach (Some d)" "d_sockets d w = Some s"
  shows "sk_from s \<le> length (d_sent d (sk_conn s)) \<and> subseq (sk_written s) (drop (sk_from s) (d_sent d (sk_conn s)))"
proof -
  have f: "follows d s" using daemon_reach_inv [OF assms(1)] daemon_inv_follows assms(2) by blast
  have "subseq (sk_written s @ []) (sk_written s @ sk_pending s)" by (rule list_emb_append_mono) simp_all
  with f show ?thesis by (auto simp: follows_def intro: subseq_order.order_trans)
qed

text \<open>The tracker can follow what it is shown: each id that \<^verbatim>\<open>GET /clients\<close> answers with is accepted by
  \<^verbatim>\<open>GET /clients/{id}/events\<close>, which subscribes to that game, and every answer carries the header that
  lets web pages read it.\<close>

theorem listed_clients_followed:
  assumes "daemon_reach (Some d)" "set ids = dom (d_clients d)" "i \<in> set (hr_clients (snd (httpServer d w ids ''GET'' [''clients''])))"
  shows "\<exists>d' r n s. httpServer d w ids ''GET'' [''clients'', i, ''events''] = (d', r) \<and> hr_status r = 101 \<and>
    (''Access-Control-Allow-Origin'', ''*'') \<in> set (hr_headers r) \<and>
    d_sockets d' w = Some s \<and> sk_conn s = n \<and> (\<exists>ident. i = EncodeToString ident \<and> d_clients d ident = Some n)"
proof -
  have inv: "daemon_inv d" using daemon_reach_inv [OF assms(1)] by blast
  from assms(3) obtain ident where i: "i = EncodeToString ident" "ident \<in> set ids"
    by (auto simp: httpServer_def withCORS_def httpRouteClients_def)
  with assms(2) obtain n where n: "d_clients d ident = Some n" by auto
  obtain c where c: "d_conns d n = Some (c, ConnOpen)" using daemon_inv_client [OF inv n] by blast
  have len: "length ident = 16" by (rule daemon_inv_id [OF inv n])
  then have "i \<noteq> [] \<and> DecodeString i = Inr ident \<and> copy_array 16 ident = ident"
    by (auto simp: i Decode_Encode)
  with n c i show ?thesis
    by (auto simp: httpServer_def httpRouteClientEvents_def withCORS_def subscribe_def http_status_def)
qed

section \<open>A run for examples\<close>

text \<open>A game connects, a web socket follows it, and one of its two messages reaches the socket.\<close>

definition example_id :: bytes where
  "example_id = replicate 16 3"

definition example_socket :: "sock_pc \<Rightarrow> bytes list \<Rightarrow> socket" where
  "example_socket pc ms = \<lparr>sk_conn = 5, sk_ch = 0, sk_pc = pc, sk_closed = False, sk_written = ms, sk_from = 0\<rparr>"

definition example_daemon :: "conn_pc \<Rightarrow> sock_pc \<Rightarrow> bytes list \<Rightarrow> bytes list \<Rightarrow> daemon" where
  "example_daemon cpc pc ms sent = \<lparr>d_cancelled = False,
     d_clients = (if cpc = ConnOpen then [example_id \<mapsto> 5] else Map.empty),
     d_conns = [5 \<mapsto> (\<lparr>cl_id = example_id, cl_subs = (if cpc = ConnClosed then {} else {0}), cl_done = (cpc = ConnClosed),
       cl_closed = (if cpc = ConnClosed then {0} else {}), cl_next = 1\<rparr>, cpc)],
     d_sockets = [0 \<mapsto> example_socket pc ms], d_sent = (\<lambda>_. [])(5 := sent)\<rparr>"

lemmas example_defs = example_daemon_def example_socket_def deliver_def gets_def set_socket_def set_conn_def fun_eq_iff

lemma example_subscribed: "daemon_reach (Some (example_daemon ConnOpen SockUpgrade [] []))"
proof -
  let ?d = "conn_register new_daemon 5 example_id"
  have "daemon_step new_daemon (Some ?d)" by (rule daemon_step.register) (simp_all add: new_daemon_def example_id_def)
  then have r: "daemon_reach (Some ?d)" by (rule daemon_reach.step [OF daemon_reach.init])
  have "EncodeToString example_id \<noteq> []" by (simp add: example_id_def)
  moreover have "copy_array 16 example_id = example_id" by (simp add: example_id_def)
  ultimately have "fst (httpServer ?d 0 [example_id] ''GET'' [''clients'', EncodeToString example_id, ''events'']) =
      example_daemon ConnOpen SockUpgrade [] []"
    by (simp add: httpServer_def withCORS_def httpRouteClientEvents_def Decode_Encode conn_register_def newClient_def
        subscribe_def new_daemon_def example_defs)
  with daemon_step.request [of ?d 0 "[example_id]" "''GET''" "[''clients'', EncodeToString example_id, ''events'']"]
  have "daemon_step ?d (Some (example_daemon ConnOpen SockUpgrade [] []))"
    by (simp add: conn_register_def new_daemon_def)
  with r show ?thesis by (rule daemon_reach.step)
qed

lemma example_written: "daemon_reach (Some (example_daemon ConnOpen SockSelect [[1]] [[1], [2]]))"
proof -
  have u: "daemon_step (example_daemon ConnOpen SockUpgrade [] []) (Some (example_daemon ConnOpen SockSelect [] []))"
    using daemon_step.socket [OF socket_step.upgrade [of "example_daemon ConnOpen SockUpgrade [] []" 0 _ True]] by (simp add: example_defs)
  have m: "daemon_step (example_daemon ConnOpen pc [] sent)
      (Some (deliver (example_daemon ConnOpen pc [] sent) 5 x {0}))" for pc sent x
    using daemon_step.message [of "example_daemon ConnOpen pc [] sent" 5 _ x "\<lambda>_. True"]
    by (simp add: example_daemon_def broadcast_def)
  have m1: "deliver (example_daemon ConnOpen SockSelect [] []) 5 [1] {0} = example_daemon ConnOpen (SockWrite [1]) [] [[1]]"
    and m2: "deliver (example_daemon ConnOpen (SockWrite [1]) [] [[1]]) 5 [2] {0} =
      example_daemon ConnOpen (SockWrite [1]) [] [[1], [2]]"
    by (auto simp: example_defs)
  have w: "daemon_step (example_daemon ConnOpen (SockWrite [1]) [] [[1], [2]]) (Some (example_daemon ConnOpen SockSelect [[1]] [[1], [2]]))"
    using daemon_step.socket [OF socket_step.written [of "example_daemon ConnOpen (SockWrite [1]) [] [[1], [2]]" 0 _ "[1]"]] by (simp add: example_defs)
  from example_subscribed u m [of SockSelect "[]" "[1]"] m [of "SockWrite [1]" "[[1]]" "[2]"] w show ?thesis
    unfolding m1 m2 by (meson daemon_reach.step)
qed

lemma example_closed: "daemon_reach (Some (example_daemon ConnClosed SockSelect [[1]] [[1], [2]]))"
proof -
  let ?d = "\<lambda>cpc. example_daemon cpc SockSelect [[1]] [[1], [2]]"
  have "daemon_step (?d ConnOpen) (Some (?d ConnRemoved))"
    using daemon_step.remove [of "?d ConnOpen" 5] by (simp add: conn_remove_def example_defs)
  moreover have "daemon_step (?d ConnRemoved) (Some (?d ConnClosed))"
    using daemon_step.close [of "?d ConnRemoved" 5 "\<lparr>cl_id = example_id, cl_subs = {0}, cl_done = False, cl_closed = {}, cl_next = 1\<rparr>" "[0]"]
    by (simp add: conn_close_def client_close_def close_chan_def example_defs)
  ultimately show ?thesis using example_written by (meson daemon_reach.step)
qed


theorem websocket_in_order_witness:
  "\<exists>s. d_sockets (example_daemon ConnOpen SockSelect [[1]] [[1], [2]]) 0 = Some s \<and> sk_written s = [[1]] \<and>
     subseq (sk_written s) (drop (sk_from s) [[1], [2]])"
  using websocket_in_order [OF example_written, of 0] by (simp add: example_daemon_def example_socket_def)

theorem listed_clients_followed_witness:
  "\<exists>d' r s. httpServer (example_daemon ConnOpen SockUpgrade [] []) 1 [example_id] ''GET''
       [''clients'', EncodeToString example_id, ''events''] = (d', r) \<and> hr_status r = 101 \<and>
     d_sockets d' 1 = Some s"
  using listed_clients_followed [OF example_subscribed, of "[example_id]" "EncodeToString example_id" 1]
  by (auto simp: example_daemon_def httpServer_def withCORS_def httpRouteClients_def)

end
