(* ===== verification/ServerRun.thy ===== *)
theory ServerRun
  imports ServerApp Config
begin

text \<open>
  The run of the server as a whole, \<^verbatim>\<open>Run\<close> of \<^verbatim>\<open>server/internal/app/app.go\<close>: what the sessions do to the
  shared event sink, and how the server ends. Shown: to the sink every run of the server is a run of
  the sink alone, with events under the subject of the session they name; when the application's
  context has ended the server can always finish from wherever it is: the goroutines of every player
  end, the players leave, the sessions are closed, the sink is closed, and \<^verbatim>\<open>Run\<close> returns only then.
\<close>

section \<open>Starting\<close>

text \<open>
  \<^verbatim>\<open>Run\<close> up to \<^verbatim>\<open>app.run\<close>: \<open>listen\<close> is what \<^verbatim>\<open>net.ListenTCP\<close> returns; the other arguments are those of the
  configuration, whose flags may end the process (\<^const>\<open>None\<close>).
\<close>

definition Run_server ::
    "go_error option \<Rightarrow> string \<Rightarrow> string \<Rightarrow> flag_parser \<Rightarrow> string list \<Rightarrow> server result option" where
  "Run_server listen data_env nats_env parse args =
     (case listen of
        Some err \<Rightarrow> Some (Inl err)
      | None \<Rightarrow>
          (case server_ParseConfig data_env nats_env parse args of
             None \<Rightarrow> None
           | Some conf \<Rightarrow> Some (Inr (server_init (sc_DataDir conf) (NewSink (sc_NatsURL conf))))))"

text \<open>
  The process: \<^verbatim>\<open>main\<close> drops the error of \<^verbatim>\<open>Run\<close>, so that a server which cannot listen exits like one that
  has finished. A signal is the step that ends the context.
\<close>

datatype server_start = FlagsExit | ServerExits int | Serves server

definition server_main ::
    "go_error option \<Rightarrow> string \<Rightarrow> string \<Rightarrow> flag_parser \<Rightarrow> string list \<Rightarrow> server_start" where
  "server_main listen data_env nats_env parse args =
     (case Run_server listen data_env nats_env parse args of
        None \<Rightarrow> FlagsExit
      | Some (Inl err) \<Rightarrow> ServerExits 0
      | Some (Inr sv) \<Rightarrow> Serves sv)"

text \<open>What it serves with is where the runs of \<^const>\<open>server_reach\<close> start.\<close>

lemma server_main_serves:
  assumes "server_main listen data_env nats_env parse args = Serves sv"
  shows "\<exists>dataDir. server_reach marshal dataDir (NewSink nats_env) sv"
proof -
  from assms obtain conf where "server_ParseConfig data_env nats_env parse args = Some conf"
    "sv = server_init (sc_DataDir conf) (NewSink (sc_NatsURL conf))"
    by (auto simp: server_main_def Run_server_def split: option.splits)
  moreover from this(1) have "sc_NatsURL conf = nats_env"
    by (auto simp: server_ParseConfig_def Let_def split: sum.splits)
  ultimately show ?thesis using server_reach.init by metis
qed

section \<open>The sink\<close>

text \<open>An event goes out under the subject of its session.\<close>

definition proper_event :: "EventPosition EventNATS \<Rightarrow> bool" where
  "proper_event ev \<longleftrightarrow> en_subject ev = ''ootmm.events.multi.'' @ ev_SessionID (en_data ev)"

text \<open>What the server does to the sink between two looks at it.\<close>

inductive sink_step :: "(EventPosition \<Rightarrow> bytes result) \<Rightarrow> EventPosition Sink \<Rightarrow> EventPosition Sink \<Rightarrow> bool"
  for marshal where
  idle: "sink_step marshal sink sink"
| send: "proper_event \<lparr>en_subject = subject, en_data = event\<rparr> \<Longrightarrow>
    sink_step marshal sink (fst (Sink_Send pick sink subject event))"
| goroutine: "nats_run_step marshal n n' \<Longrightarrow> sink_step marshal (SinkNats n) (SinkNats n')"
| cancel: "sink_step marshal sink (Sink_cancel sink)"

lemma handlePositionUpdate_sink:
  "sink_step marshal (s_sink s) (s_sink (handlePositionUpdate env s pid pos))"
proof (cases "s_players s pid")
  case (Some p)
  show ?thesis
  proof (cases "event_due (he_since env) (p_LastPosTime p)")
    case True
    have "proper_event \<lparr>en_subject = ''ootmm.events.multi.'' @ EncodeToString (s_ID s), en_data = position_event s p pos\<rparr>"
      by (simp add: proper_event_def position_event_def)
    from sink_step.send [OF this, of marshal "s_sink s" "he_pick env"] Some True show ?thesis
      by (simp add: handlePositionUpdate_def BroadcastExcept_def upd_player_def Let_def position_event_def
          case_prod_beta)
  qed (use Some in \<open>simp add: handlePositionUpdate_def BroadcastExcept_def Let_def sink_step.idle\<close>)
qed (simp add: handlePositionUpdate_def sink_step.idle)

lemma session_step_sink: "session_step s s' \<Longrightarrow> sink_step marshal (s_sink s) (s_sink s')"
proof (induction rule: session_step.cases)
  case (packet s pid p pkt c env s1 r)
  let ?s = "s\<lparr>s_players := (s_players s)(pid \<mapsto> p\<lparr>p_in := c\<rparr>)\<rparr>"
  have "sink_step marshal (s_sink ?s) (s_sink s1)"
  proof (cases rule: handlePacket_cases [of env ?s pid pkt])
    case (position pos)
    with packet(7) handlePositionUpdate_sink [of marshal ?s env pid pos] show ?thesis by auto
  qed (use packet(7) in \<open>auto intro: sink_step.idle\<close>)
  with packet(1,2) show ?case by (simp add: after_packet_def upd_player_def)
qed (auto simp: Join_hello_def Join_leave_def upd_player_def intro: sink_step.idle split: prod.splits option.splits)

lemma acquireSession_sink: "acquireSession io app sid sec = Some (app', r) \<Longrightarrow> app_sink app' = app_sink app"
  by (auto simp: acquireSession_def Let_def split: option.splits if_splits sum.splits)

lemma releaseSession_sink [simp]: "app_sink (fst (releaseSession app sid)) = app_sink app"
  by (simp add: releaseSession_def Let_def split: option.split)

text \<open>Every step of the server is one of these to the sink.\<close>

lemma server_step_sink:
  assumes "server_step marshal sv sv'"
  shows "sink_step marshal (app_sink (sv_app sv)) (app_sink (sv_app sv'))"
  using assms
proof cases
  case (hello c io recv app r)
  then have "app_sink app = app_sink (sv_app sv)"
    by (auto simp: handleClient_hello_def dest: acquireSession_sink split: sum.splits if_splits option.splits)
  with hello(1) show ?thesis by (simp add: sink_step.idle)
next
  case (session sid appS s)
  with session_step_sink [OF session(3)] show ?thesis by (simp add: upd_session_def)
next
  case (publishing n n')
  then show ?thesis by (simp add: sink_step.goroutine)
qed (simp_all add: upd_session_def Join_enter_def cancel_session_def sink_step.idle sink_step.cancel)

text \<open>So the sink behind the server is in a state that the sink alone reaches.\<close>

lemma sink_step_nats:
  assumes "sink_step marshal sink sink'" "sink = SinkNats n" "nats_reach marshal url evs n" "list_all proper_event evs"
  shows "\<exists>n' evs'. sink' = SinkNats n' \<and> nats_reach marshal url evs' n' \<and> list_all proper_event evs'"
  using assms(1)
proof cases
  case idle
  with assms show ?thesis by blast
next
  case (send subject event pick)
  let ?n = "fst (SinkNATS_Send pick n subject event)"
  have "sink' = SinkNats ?n" using send(1) assms(2) by (simp split: prod.split)
  moreover have "list_all proper_event (evs @ [\<lparr>en_subject = subject, en_data = event\<rparr>])" using send(2) assms(4) by simp
  ultimately show ?thesis using nats_reach.send [OF assms(3)] by blast
next
  case (goroutine m m')
  with assms(2-4) nats_reach.goroutine [OF assms(3)] show ?thesis by blast
next
  case cancel
  with assms(2-4) nats_reach.cancel [OF assms(3)] show ?thesis by auto
qed

lemma server_sink_nats:
  assumes "server_reach marshal dataDir (NewSink url) sv" "url \<noteq> ''''"
  shows "\<exists>n evs. app_sink (sv_app sv) = SinkNats n \<and> nats_reach marshal url evs n \<and> list_all proper_event evs"
  using assms(1)
proof induction
  case init
  show ?case using assms(2) by (auto simp: server_init_def NewSink_def intro!: exI [of _ "[]"] nats_reach.init)
next
  case (step sv sv')
  from step.IH sink_step_nats [OF server_step_sink [OF step.hyps(2)]] show ?case by blast
qed

section \<open>The goroutines of a player end\<close>

definition p_ended :: "PlayerRun \<Rightarrow> bool" where
  "p_ended p \<longleftrightarrow> pr_inPc p = InEnd \<and> pr_hpPc p = HpEnd \<and> pr_wsPc p = WsEnd \<and> pr_outPc p = OutEnd"

text \<open>How many steps the goroutines of a player are from their ends, once its context is done.\<close>

definition p_work :: "PlayerRun \<Rightarrow> nat" where
  "p_work p = (if pr_inPc p = InEnd then 0 else 1) +
     (case pr_hpPc p of HpEnd \<Rightarrow> 0 | HpSend pkt \<Rightarrow> 2 | _ \<Rightarrow> 1) +
     (case pr_wsPc p of WsEnd \<Rightarrow> 0 | WsSend pkt \<Rightarrow> 2 | _ \<Rightarrow> 1) +
     (if pr_outPc p = OutEnd then 0 else 1)"

lemma stream_body_done:
  "stream_body p e i = (p', r) \<Longrightarrow> p_done p' = p_done p \<and> pr_started p' = pr_started p"
  by (auto simp: stream_body_def Let_def split: if_splits sum.splits)

lemma player_step_done: "player_step w p p' \<Longrightarrow> p_done p \<Longrightarrow> p_done p'"
  by (induction rule: player_step.cases) (auto dest: stream_body_done)

lemma player_step_started: "player_step w p p' \<Longrightarrow> pr_started p' = pr_started p"
  by (induction rule: player_step.cases) (auto dest: stream_body_done)

text \<open>Each goroutine by itself.\<close>

lemma in_advances:
  assumes "p_done p" "pr_inPc p \<noteq> InEnd"
  shows "\<exists>p'. player_step w p p' \<and> p_work p' < p_work p"
proof (cases "pr_inPc p")
  case InLoop
  from player_step.in_loop [OF this] assms InLoop show ?thesis by (fastforce simp: p_work_def)
next
  case InRecv
  from player_step.in_fail [OF this] InRecv show ?thesis by (fastforce simp: p_work_def)
next
  case (InPut pkt)
  with assms player_step.in_put [OF InPut, of PickDone "p_in p" False] show ?thesis
    by (fastforce simp: p_work_def select_send_done)
qed (use assms in simp)

lemma hp_advances:
  assumes "p_done p" "pr_hpPc p \<noteq> HpEnd"
  shows "\<exists>p'. player_step w p p' \<and> p_work p' < p_work p"
proof (cases "pr_hpPc p")
  case HpLoop
  from player_step.hp_loop [OF this] assms HpLoop show ?thesis by (fastforce simp: p_work_def)
next
  case HpWait
  from player_step.hp_stop [OF this assms(1)] HpWait show ?thesis by (fastforce simp: p_work_def)
next
  case (HpSend pkt)
  with assms player_step.hp_send [OF HpSend, of PickDone "p_out p" False] show ?thesis
    by (fastforce simp: p_work_def select_send_done)
qed (use assms in simp)

lemma ws_advances:
  assumes "p_done p" "pr_wsPc p \<noteq> WsEnd"
  shows "\<exists>p'. player_step w p p' \<and> p_work p' < p_work p"
proof (cases "pr_wsPc p")
  case WsLoop
  from player_step.ws_loop [OF this] assms WsLoop show ?thesis by (fastforce simp: p_work_def)
next
  case WsNext
  from player_step.ws_stop [OF this] assms WsNext show ?thesis by (fastforce simp: p_work_def)
next
  case (WsSend pkt)
  with assms player_step.ws_send [OF WsSend, of PickDone "p_out p" False] show ?thesis
    by (fastforce simp: p_work_def select_send_done)
qed (use assms in simp)

lemma out_advances:
  assumes "p_done p" "pr_outPc p \<noteq> OutEnd"
  shows "\<exists>p'. player_step w p p' \<and> p_work p' < p_work p"
proof (cases "pr_outPc p")
  case OutWait
  from player_step.out_stop [OF this assms(1)] OutWait show ?thesis by (fastforce simp: p_work_def)
next
  case (OutWrite pkt)
  obtain bs err where "SendRaw (WrFail 0) pkt = (bs, Some err)" using SendRaw_fails by blast
  from player_step.out_fail [OF OutWrite this] OutWrite show ?thesis by (fastforce simp: p_work_def)
qed (use assms in simp)

interpretation player: progress "player_step w" p_done p_ended p_work for w
proof
  show "player_step w p p' \<Longrightarrow> p_done p \<Longrightarrow> p_done p'" for p p' by (rule player_step_done)
  show "\<exists>p'. player_step w p p' \<and> p_work p' < p_work p" if "p_done p" "\<not> p_ended p" for p
    using that in_advances hp_advances ws_advances out_advances by (auto simp: p_ended_def)
qed

section \<open>A player leaves its session\<close>

lemma player_steps_session:
  assumes "(player_step (s_wal s))\<^sup>*\<^sup>* p p'" "s_players s pid = Some p" "pr_started p"
  shows "session_step\<^sup>*\<^sup>* s (s\<lparr>s_players := (s_players s)(pid \<mapsto> p')\<rparr>) \<and> pr_started p'"
  using assms(1)
proof induction
  case base
  have eq: "s\<lparr>s_players := (s_players s)(pid \<mapsto> p)\<rparr> = s" using assms(2) by (cases s) auto
  show ?case using assms(3) by (simp only: eq rtranclp.rtrancl_refl)
next
  case (step p1 p2)
  have "session_step (s\<lparr>s_players := (s_players s)(pid \<mapsto> p1)\<rparr>) (s\<lparr>s_players := (s_players s)(pid \<mapsto> p2)\<rparr>)"
    using session_step.local [of "s\<lparr>s_players := (s_players s)(pid \<mapsto> p1)\<rparr>" pid p1 p2] step by simp
  with step player_step_started show ?case by (blast intro: rtranclp.rtrancl_into_rtrancl)
qed

text \<open>A player whose context is done, or which has not been greeted yet, can be gone.\<close>

lemma player_leaves:
  assumes "s_players s pid = Some p" "p_done p \<or> \<not> pr_started p"
  shows "session_step\<^sup>+\<^sup>+ s (s\<lparr>s_players := (s_players s)(pid := None)\<rparr>)"
proof (cases "pr_started p")
  case False
  obtain bs err where "SendRaw (WrFail 0) hello_packet = (bs, Some err)" using SendRaw_fails by blast
  with session_step.hello [OF assms(1) False, of "WrFail 0"] show ?thesis by (simp add: Join_hello_def tranclp.r_into_trancl)
next
  case True
  with assms obtain p' where p': "(player_step (s_wal s))\<^sup>*\<^sup>* p p'" "p_ended p'" "p_done p'"
    using player.comes_to_rest by blast
  let ?s = "s\<lparr>s_players := (s_players s)(pid \<mapsto> p')\<rparr>"
  have "session_step\<^sup>*\<^sup>* s ?s" "pr_started p'" using player_steps_session [OF p'(1) assms(1) True] by simp_all
  moreover have "session_step ?s (Join_leave ?s pid)"
    by (rule session_step.leave) (use p'(2,3) \<open>pr_started p'\<close> in \<open>auto simp: p_ended_def\<close>)
  ultimately show ?thesis by (simp add: Join_leave_def)
qed

section \<open>A client ends\<close>

definition ends_client :: "(EventPosition \<Rightarrow> bytes result) \<Rightarrow> server \<Rightarrow> nat \<Rightarrow> bool" where
  "ends_client marshal sv c \<longleftrightarrow> (\<exists>sv'. (server_step marshal)\<^sup>*\<^sup>* sv sv' \<and>
     sv_clients sv' = (sv_clients sv)(c \<mapsto> CEnd) \<and> sv_main sv' = sv_main sv)"

lemma ends_clientI:
  "server_step marshal sv sv' \<Longrightarrow> sv_clients sv' = (sv_clients sv)(c \<mapsto> CEnd) \<Longrightarrow> sv_main sv' = sv_main sv \<Longrightarrow>
   ends_client marshal sv c"
  unfolding ends_client_def by blast

lemma ends_client_later:
  assumes "(server_step marshal)\<^sup>*\<^sup>* sv sv1" "ends_client marshal sv1 c" "sv_main sv1 = sv_main sv"
    "sv_clients sv1 = sv_clients sv \<or> sv_clients sv1 = (sv_clients sv)(c \<mapsto> pc)"
  shows "ends_client marshal sv c"
proof -
  obtain sv' where "(server_step marshal)\<^sup>*\<^sup>* sv1 sv'" "sv_clients sv' = (sv_clients sv1)(c \<mapsto> CEnd)" "sv_main sv' = sv_main sv1"
    using assms(2) by (auto simp: ends_client_def)
  with assms(1,3,4) show ?thesis
    unfolding ends_client_def by (metis fun_upd_upd rtranclp_trans)
qed

lemma upd_session_simps [simp]:
  "sv_clients (upd_session sv sid appS s) = sv_clients sv" "sv_done (upd_session sv sid appS s) = sv_done sv"
  "sv_main (upd_session sv sid appS s) = sv_main sv"
  "app_sessions (sv_app (upd_session sv sid appS s)) = (app_sessions (sv_app sv))(sid \<mapsto> appS\<lparr>as_session := s\<rparr>)"
  by (simp_all add: upd_session_def)

lemma the_session_upd [simp]: "the_session (upd_session sv sid appS s) (appS\<lparr>as_session := s\<rparr>) = s"
  by (cases s) (simp add: the_session_def upd_session_def)

lemma upd_session_upd [simp]:
  "upd_session (upd_session sv sid appS s) sid (appS\<lparr>as_session := s\<rparr>) t = upd_session sv sid appS t"
  by (simp add: upd_session_def)

text \<open>What a session can do, the server can.\<close>

lemma session_steps_server:
  assumes "session_step\<^sup>+\<^sup>+ (the_session sv appS) s" "app_sessions (sv_app sv) sid = Some appS"
  shows "(server_step marshal)\<^sup>*\<^sup>* sv (upd_session sv sid appS s)"
  using assms(1)
proof induction
  case (base s)
  from server_step.session [OF assms(2) base] show ?case by blast
next
  case (step s t)
  have "server_step marshal (upd_session sv sid appS s) (upd_session sv sid appS t)"
    using server_step.session [of "upd_session sv sid appS s" sid "appS\<lparr>as_session := s\<rparr>" t] step.hyps(2) by simp
  with step.IH show ?case by (rule rtranclp.rtrancl_into_rtrancl)
qed

text \<open>The player of the client is out of the session.\<close>

lemma released_ends:
  assumes "sv_clients sv c = Some (CJoined h)" "app_sessions (sv_app sv) (ch_SessionID h) = Some appS"
    "s_players (as_session appS) c = None"
  shows "ends_client marshal sv c"
  by (rule ends_clientI [OF server_step.release [OF assms]]) simp_all

lemma leaving_ends:
  assumes "sv_clients sv c = Some (CJoined h)" "app_sessions (sv_app sv) (ch_SessionID h) = Some appS"
    "s_players (as_session appS) c = Some p" "p_done p \<or> \<not> pr_started p"
  shows "ends_client marshal sv c"
proof -
  let ?s = "(the_session sv appS)\<lparr>s_players := (s_players (the_session sv appS))(c := None)\<rparr>"
  let ?sv = "upd_session sv (ch_SessionID h) appS ?s"
  have "session_step\<^sup>+\<^sup>+ (the_session sv appS) ?s" by (rule player_leaves) (use assms in simp_all)
  then have "(server_step marshal)\<^sup>*\<^sup>* sv ?sv" using session_steps_server assms(2) by blast
  moreover have "ends_client marshal ?sv c"
    using released_ends [of ?sv c h "appS\<lparr>as_session := ?s\<rparr>"] assms(1) by simp
  ultimately show ?thesis by (rule ends_client_later) simp_all
qed

lemma joined_ends:
  assumes "sv_clients sv c = Some (CJoined h)" "app_sessions (sv_app sv) (ch_SessionID h) = Some appS" "sv_done sv"
  shows "ends_client marshal sv c"
proof (cases "s_players (as_session appS) c")
  case None
  with assms released_ends show ?thesis by blast
next
  case (Some p)
  let ?s = "cancel_session (the_session sv appS)" let ?sv = "upd_session sv (ch_SessionID h) appS ?s"
  have "ends_client marshal ?sv c"
    using leaving_ends [of ?sv c h "appS\<lparr>as_session := ?s\<rparr>" "p\<lparr>p_done := True\<rparr>"] assms(1) Some
    by (simp add: cancel_session_def)
  with server_step.shutdown [OF assms(2,3)] show ?thesis
    by (rule ends_client_later [OF r_into_rtranclp]) simp_all
qed

text \<open>When the context has ended every client can come to its end, wherever it is.\<close>

lemma client_ends:
  assumes inv: "server_inv sv" and "sv_done sv" and c: "sv_clients sv c = Some pc" "pc \<noteq> CEnd"
  shows "ends_client marshal sv c"
proof -
  have sess: "\<exists>appS. app_sessions (sv_app sv) (ch_SessionID h) = Some appS" if "held pc = Some h" for h
    using inv c(1) that unfolding server_inv_def uses_def by blast
  show ?thesis
  proof (cases pc)
    case CHello
    show ?thesis
      by (rule ends_clientI [OF server_step.hello [of sv c example_open "Inl EOF" "sv_app sv" None]])
        (use c(1) CHello in \<open>simp_all add: handleClient_hello_def\<close>)
  next
    case (CAcquired h)
    with sess obtain appS where appS: "app_sessions (sv_app sv) (ch_SessionID h) = Some appS" by auto
    let ?s = "Join_enter (the_session sv appS) c (ch_PlayerID h) (ch_PlayerName h) (ch_WorldID h) (ch_WalIndex h)"
    let ?sv = "(upd_session sv (ch_SessionID h) appS ?s)\<lparr>sv_clients := (sv_clients sv)(c \<mapsto> CJoined h)\<rparr>"
    have "server_step marshal sv ?sv" using server_step.enter [of sv c h appS] c(1) CAcquired appS by simp
    moreover have "ends_client marshal ?sv c"
      using joined_ends [of ?sv c h "appS\<lparr>as_session := ?s\<rparr>"] assms(2) by simp
    ultimately show ?thesis
      by (rule ends_client_later [where pc = "CJoined h", OF r_into_rtranclp]) simp_all
  next
    case (CJoined h)
    with sess obtain appS where "app_sessions (sv_app sv) (ch_SessionID h) = Some appS" by auto
    with joined_ends c(1) CJoined assms(2) show ?thesis by blast
  qed (use c in simp)
qed

section \<open>The server ends\<close>

definition clients_ended :: "server \<Rightarrow> bool" where
  "clients_ended sv \<longleftrightarrow> (\<forall>c pc. sv_clients sv c = Some pc \<longrightarrow> pc = CEnd)"

definition busy :: "server \<Rightarrow> nat" where
  "busy sv = card {c. \<exists>pc. sv_clients sv c = Some pc \<and> pc \<noteq> CEnd}"

definition shutting :: "server \<Rightarrow> bool" where
  "shutting sv \<longleftrightarrow> server_inv sv \<and> sv_done sv"

lemma server_step_shutting: "server_step marshal sv sv' \<Longrightarrow> shutting sv \<Longrightarrow> shutting sv'"
  using server_step_inv unfolding shutting_def
  by (auto elim: server_step.cases simp: upd_session_def)

interpretation shutting_run: step_invariant "server_step marshal" shutting for marshal
  by unfold_locales (rule server_step_shutting)

text \<open>Client after client ends.\<close>

interpretation clients: progress "(server_step marshal)\<^sup>*\<^sup>*" shutting clients_ended busy for marshal
proof
  show "(server_step marshal)\<^sup>*\<^sup>* sv sv' \<Longrightarrow> shutting sv \<Longrightarrow> shutting sv'" for sv sv' by (rule shutting_run.steps_inv)
next
  fix sv assume sv: "shutting sv" "\<not> clients_ended sv"
  then obtain c pc where c: "sv_clients sv c = Some pc" "pc \<noteq> CEnd" by (auto simp: clients_ended_def)
  with sv(1) client_ends obtain sv' where sv': "(server_step marshal)\<^sup>*\<^sup>* sv sv'"
    "sv_clients sv' = (sv_clients sv)(c \<mapsto> CEnd)"
    by (fastforce simp: shutting_def ends_client_def)
  let ?B = "\<lambda>sv. {c. \<exists>pc. sv_clients sv c = Some pc \<and> pc \<noteq> CEnd}"
  have "finite (dom (sv_clients sv))" using sv(1) by (simp add: shutting_def server_inv_def)
  then have "finite (?B sv)" by (rule rev_finite_subset) auto
  moreover have "?B sv' = ?B sv - {c}" "c \<in> ?B sv" using sv'(2) c by auto
  ultimately have "busy sv' < busy sv" unfolding busy_def by (metis (no_types, lifting) card_Diff1_less)
  with sv'(1) show "\<exists>sv'. (server_step marshal)\<^sup>*\<^sup>* sv sv' \<and> busy sv' < busy sv" by blast
qed

lemma ended_no_sessions:
  assumes "server_inv sv" "clients_ended sv"
  shows "app_sessions (sv_app sv) = Map.empty"
proof
  fix sid
  have "users sv sid = {}" using assms(2) by (fastforce simp: users_def uses_def clients_ended_def)
  with assms(1) show "app_sessions (sv_app sv) sid = None"
    by (cases "app_sessions (sv_app sv) sid") (auto simp: server_inv_def session_ok_def)
qed

text \<open>
  The order in which \<^verbatim>\<open>Run\<close> finishes: it leaves the accept loop only after the context has ended, and
  turns to the sink only after all clients have returned; the sink is cancelled before it is waited
  for, and its goroutine says that it is done when it returns.
\<close>

fun sink_ok :: "main_pc \<Rightarrow> EventPosition Sink \<Rightarrow> bool" where
  "sink_ok m SinkNull \<longleftrightarrow> True"
| "sink_ok m (SinkNats n) \<longleftrightarrow> (sn_pc n = NatsEnd \<longrightarrow> sn_done n) \<and> (Closing \<le> m \<longrightarrow> sn_cancelled n) \<and>
     (m = Returned \<longrightarrow> sn_done n)"

definition main_ok :: "server \<Rightarrow> bool" where
  "main_ok sv \<longleftrightarrow> (Accepting < sv_main sv \<longrightarrow> sv_done sv) \<and> (Closing \<le> sv_main sv \<longrightarrow> clients_ended sv) \<and>
     sink_ok (sv_main sv) (app_sink (sv_app sv))"

lemma nats_run_step_ok:
  "nats_run_step marshal n n' \<Longrightarrow> sink_ok m (SinkNats n) \<Longrightarrow> sink_ok m (SinkNats n')"
  by (induction rule: nats_run_step.cases) (auto simp: publish_def split: sum.splits option.splits)

lemma sink_step_ok: "sink_step marshal sink sink' \<Longrightarrow> sink_ok m sink \<Longrightarrow> sink_ok m sink'"
proof (induction rule: sink_step.induct)
  case (send subject event sink pick)
  then show ?case by (cases sink) (auto simp: SinkNATS_Send_def Let_def)
next
  case (goroutine n n')
  then show ?case by (rule nats_run_step_ok)
next
  case (cancel sink)
  then show ?case by (cases sink) (auto simp: SinkNATS_cancel_def)
qed

lemmas main_order = less_eq_main_pc_def less_main_pc_def

lemma sink_ok_earlier: "sink_ok m sink \<Longrightarrow> m' < Closing \<Longrightarrow> sink_ok m' sink"
  by (cases sink) (auto simp: main_order)

text \<open>\<^verbatim>\<open>Run\<close> only goes forward.\<close>

lemma server_step_forward: "server_step marshal sv sv' \<Longrightarrow> sv_main sv \<le> sv_main sv'"
  by (induction rule: server_step.cases) (simp_all add: main_order)

interpretation forward_run: step_invariant "server_step marshal" "\<lambda>sv. m \<le> sv_main sv" for marshal m
  by unfold_locales (rule order_trans [OF _ server_step_forward])

lemma server_step_main_ok:
  assumes "server_step marshal sv sv'" "main_ok sv"
  shows "main_ok sv'"
proof -
  have sink: "sink_ok (sv_main sv) (app_sink (sv_app sv'))"
    using sink_step_ok [OF server_step_sink [OF assms(1)]] assms(2) by (simp add: main_order main_ok_def)
  from assms(1) show ?thesis
  proof cases
    case stop
    with assms(2) sink show ?thesis by (simp add: main_order main_ok_def sink_ok_earlier)
  next
    case join
    with assms(2) sink show ?thesis
      by (cases "app_sink (sv_app sv)") (auto simp: main_order main_ok_def clients_ended_def SinkNATS_cancel_def)
  next
    case finish
    with assms(2) sink show ?thesis by (cases "app_sink (sv_app sv)") (auto simp: main_order main_ok_def clients_ended_def)
  qed (use assms(2) sink in \<open>auto simp: main_order main_ok_def clients_ended_def upd_session_def\<close>)
qed

lemma server_reach_main_ok: "server_reach marshal dataDir (NewSink url) sv \<Longrightarrow> main_ok sv"
proof (induction rule: server_reach.induct)
  case init
  show ?case by (simp add: main_order main_ok_def server_init_def NewSink_def newSinkNATS_def)
qed (rule server_step_main_ok)

interpretation main_run: step_invariant "server_step marshal" main_ok for marshal
  by unfold_locales (rule server_step_main_ok)

text \<open>The goroutine of a cancelled sink is one step from its end.\<close>

lemma sink_ends:
  assumes "sink_ok Closing sink"
  shows "Sink_closed sink \<or> (\<exists>n n'. sink = SinkNats n \<and> nats_run_step marshal n n' \<and> sn_done n')"
proof (cases sink)
  case (SinkNats n)
  with assms show ?thesis
    by (cases "sn_pc n") (auto intro!: exI conjI nats_run_step.no_conn nats_run_step.leave)
qed simp

lemma closing_returns:
  assumes "main_ok sv" "sv_main sv = Closing"
  shows "\<exists>sv'. (server_step marshal)\<^sup>*\<^sup>* sv sv' \<and> sv_main sv' = Returned"
proof -
  have fin: "\<exists>sv'. (server_step marshal)\<^sup>*\<^sup>* sv sv' \<and> sv_main sv' = Returned"
    if "sv_main sv = Closing" "Sink_closed (app_sink (sv_app sv))" for sv
    using server_step.finish [OF that] by (intro exI [of _ "sv\<lparr>sv_main := Returned\<rparr>"]) (simp add: r_into_rtranclp)
  from assms have "sink_ok Closing (app_sink (sv_app sv))" by (simp add: main_order main_ok_def)
  from sink_ends [OF this] consider "Sink_closed (app_sink (sv_app sv))"
    | n n' where "app_sink (sv_app sv) = SinkNats n" "nats_run_step marshal n n'" "sn_done n'" by blast
  then show ?thesis
  proof cases
    case 2
    let ?sv = "sv\<lparr>sv_app := (sv_app sv)\<lparr>app_sink := SinkNats n'\<rparr>\<rparr>"
    have "server_step marshal sv ?sv" using server_step.publishing [OF 2(1,2)] .
    moreover obtain sv' where "(server_step marshal)\<^sup>*\<^sup>* ?sv sv'" "sv_main sv' = Returned"
      using fin [of ?sv] assms(2) 2(3) by auto
    ultimately show ?thesis by (blast intro: converse_rtranclp_into_rtranclp)
  qed (use fin assms(2) in blast)
qed

lemma waiting_returns:
  assumes "main_ok sv" "clients_ended sv" "sv_main sv = Waiting"
  shows "\<exists>sv'. (server_step marshal)\<^sup>*\<^sup>* sv sv' \<and> sv_main sv' = Returned"
proof -
  have step: "server_step marshal sv (sv\<lparr>sv_app := (sv_app sv)\<lparr>app_sink := Sink_cancel (app_sink (sv_app sv))\<rparr>,
      sv_main := Closing\<rparr>)" (is "server_step marshal sv ?sv")
    by (rule server_step.join) (use assms in \<open>auto simp: clients_ended_def\<close>)
  from closing_returns [OF server_step_main_ok [OF step assms(1)], of marshal] step show ?thesis
    by (auto intro: converse_rtranclp_into_rtranclp)
qed

lemma ended_returns:
  assumes "main_ok sv" "clients_ended sv" "sv_done sv"
  shows "\<exists>sv'. (server_step marshal)\<^sup>*\<^sup>* sv sv' \<and> sv_main sv' = Returned"
proof (cases "sv_main sv")
  case Accepting
  have step: "server_step marshal sv (sv\<lparr>sv_main := Waiting\<rparr>)" by (rule server_step.stop [OF Accepting assms(3)])
  from assms(2) have "clients_ended (sv\<lparr>sv_main := Waiting\<rparr>)" by (simp add: clients_ended_def)
  from waiting_returns [OF server_step_main_ok [OF step assms(1)] this, of marshal] step show ?thesis
    by (auto intro: converse_rtranclp_into_rtranclp)
qed (use assms waiting_returns closing_returns in blast)+

section \<open>Properties\<close>


text \<open>C24: When the context of the application ends, the server can always come to its end, whatever its
  clients and sessions are doing: no goroutine waits for something that cannot happen any more.\<close>

theorem server_ends:
  assumes "server_reach marshal dataDir (NewSink url) sv" "sv_done sv"
  shows "\<exists>sv'. (server_step marshal)\<^sup>*\<^sup>* sv sv' \<and> sv_main sv' = Returned \<and> clients_ended sv' \<and>
    app_sessions (sv_app sv') = Map.empty"
proof -
  have "shutting sv" using server_reach_inv assms by (auto simp: shutting_def)
  then obtain sv1 where sv1: "(server_step marshal)\<^sup>*\<^sup>* sv sv1" "clients_ended sv1" "shutting sv1"
    using clients.comes_to_rest [of sv marshal] by auto
  then have "main_ok sv1" using main_run.steps_inv server_reach_main_ok [OF assms(1)] by blast
  from ended_returns [OF this sv1(2)] sv1(3)
  obtain sv' where sv': "(server_step marshal)\<^sup>*\<^sup>* sv1 sv'" "sv_main sv' = Returned" by (auto simp: shutting_def)
  have "main_ok sv'" "server_inv sv'"
    using main_run.steps_inv [OF sv'(1) \<open>main_ok sv1\<close>] shutting_run.steps_inv [OF sv'(1) sv1(3)]
    by (simp_all add: shutting_def)
  then have "clients_ended sv'" "app_sessions (sv_app sv') = Map.empty"
    using sv'(2) ended_no_sessions by (auto simp: main_order main_ok_def)
  with sv1(1) sv' show ?thesis by (meson rtranclp_trans)
qed


section \<open>Examples\<close>

definition no_json :: "EventPosition \<Rightarrow> bytes result" where
  "no_json ev = Inr []"

lemma NewSink_empty: "NewSink '''' = SinkNull"
  by (simp add: NewSink_def)

lemma interrupted_reach: "server_reach no_json ''d'' (NewSink '''') (example_server\<lparr>sv_done := True\<rparr>)"
  unfolding NewSink_empty by (rule server_reach.step [OF example_server_reach server_step.interrupt])

theorem server_ends_witness:
  "\<exists>sv'. (server_step no_json)\<^sup>*\<^sup>* (example_server\<lparr>sv_done := True\<rparr>) sv' \<and> sv_main sv' = Returned \<and>
     clients_ended sv' \<and> app_sessions (sv_app sv') = Map.empty"
  by (rule server_ends [OF interrupted_reach]) simp



end
