(* ===== verification/Programs.thy ===== *)
theory Programs
  imports ClientApp DaemonConn DaemonServe ServerRun
begin

text \<open>
  The way into the programs: \<^verbatim>\<open>Run\<close>, \<^verbatim>\<open>displayInfo\<close> and \<^verbatim>\<open>Start\<close> of \<^verbatim>\<open>client/internal/app/app.go\<close>, from the
  arguments of the process to the loop of \<open>ClientApp\<close>. The library that colours text is a parameter.
  Shown: the client always gets to its loop or exits with code 1, and what it starts is a state whose
  runs \<open>ClientApp\<close> is about.
\<close>

section \<open>The banner\<close>

text \<open>\<^verbatim>\<open>%x\<close> on a byte, and \<^verbatim>\<open>%-12s\<close>.\<close>

definition hex_u8 :: "u8 \<Rightarrow> string" where
  "hex_u8 b = (if unat b < 16 then [hex_digit (unat b)] else hex_byte b)"

definition pad12 :: "string \<Rightarrow> string" where
  "pad12 s = s @ replicate (12 - length s) (CHR 0x20)"

datatype paint = HiWhite | Blue | HiCyan

definition displayInfo :: "(paint \<Rightarrow> string \<Rightarrow> string) \<Rightarrow> string \<Rightarrow> Info \<Rightarrow> string list" where
  "displayInfo color version info =
     (let star = color Blue '' * '';
          line = (\<lambda>label value. star @ color HiWhite (pad12 label) @ color HiCyan value)
      in [color HiWhite (''OoTMM Client - '' @ version), '''',
          line ''Session ID: '' (EncodeToString (in_SessionID info))] @
         (if in_Mode info = InfoModeMulti then [line ''World ID: '' (hex_u8 (in_WorldID info))] else []) @
         [line ''Mode: '' (modeStr (in_Mode info)), ''''])"

section \<open>Starting the client\<close>

text \<open>
  What the process meets on its way: the platform, which has a registry for file associations or not; the configuration directory, the flag package and the arguments;
  the patch file behind a path and the decoders of its parts; whether the daemon could be started, the
  first dial, and the events of the loop in \<^verbatim>\<open>Connect\<close>; the colours.
\<close>

datatype platform = Unix | Windows "string result" "string \<Rightarrow> bool result"

definition file_association :: "platform \<Rightarrow> (string \<times> string) list \<times> bool" where
  "file_association p =
     (case p of Unix \<Rightarrow> ([], False) | Windows executable create \<Rightarrow> registerFileAssociation executable create)"

record start_io =
  si_platform :: platform
  si_confDir :: "string result"
  si_parse :: flag_parser
  si_args :: "string list"
  si_patch :: "string \<Rightarrow> (string \<Rightarrow> bytes result) result"
  si_decoders :: decoders
  si_daemon :: "go_error option"
  si_dial :: "go_error option"
  si_events :: "connect_event list"
  si_color :: "paint \<Rightarrow> string \<Rightarrow> string"
  si_version :: string

text \<open>\<^verbatim>\<open>Run\<close> up to the loop: the info, the lines printed, and the state the loop starts in.\<close>

definition Run_client :: "start_io \<Rightarrow> ClientConfig \<Rightarrow> (Info \<times> string list \<times> ClientApp) result option" where
  "Run_client io conf =
     (case ExtractGameInfo (si_decoders io) (si_patch io (cc_GamePatchPath conf)) of
        Inl err \<Rightarrow> Some (Inl (Wrapf ''failed to extract game info: %w'' err))
      | Inr info \<Rightarrow>
          (case Connect (si_daemon io) (si_dial io) (si_events io) of
             None \<Rightarrow> None
           | Some (Inl err) \<Rightarrow> Some (Inl (Wrapf ''failed to connect to daemon: %w'' err))
           | Some (Inr daemonConn) \<Rightarrow>
               Some (Inr (info, displayInfo (si_color io) (si_version io) info,
                 app_init\<lparr>ca_daemon := dc_chSend daemonConn\<rparr>))))"

datatype client_start = Exits int | Loops ClientConfig Info "string list" ClientApp

definition Start :: "start_io \<Rightarrow> ((string \<times> string) list \<times> bool) \<times> client_start option" where
  "Start io =
     (file_association (si_platform io),
      case ParseConfig (si_confDir io) (si_parse io) (si_args io) of
        Inl err \<Rightarrow> Some (Exits 1)
      | Inr conf \<Rightarrow>
          (case Run_client io conf of
             None \<Rightarrow> None
           | Some (Inl err) \<Rightarrow> Some (Exits 1)
           | Some (Inr (info, lines, app)) \<Rightarrow> Some (Loops conf info lines app)))"

section \<open>Lemmas\<close>

lemma connect_loop_conn: "connect_loop err evs = Some (Inr conn) \<Longrightarrow> conn = createDaemonConn"
  by (induction err evs rule: connect_loop.induct) auto

lemma Connect_conn: "Connect started dial evs = Some (Inr conn) \<Longrightarrow> conn = createDaemonConn"
  using connect_loop_conn by (fastforce simp: Connect_def split: option.splits)

lemma Run_client_init: "Run_client io conf = Some (Inr (info, lines, app)) \<Longrightarrow> app = app_init"
  by (auto simp: Run_client_def createDaemonConn_def app_init_def dest!: Connect_conn split: sum.splits option.splits)

text \<open>
  The timer of \<^verbatim>\<open>Connect\<close> makes it return, so the client either exits or reaches its loop, in the state
  from which \<^const>\<open>app_reach\<close> goes on; it gets there only with a patch file it could read.
\<close>

lemma Start_returns:
  assumes "Timeout \<in> set (si_events io)"
  shows "\<exists>r. snd (Start io) = Some r \<and>
    (case r of Exits code \<Rightarrow> code = 1
     | Loops conf info lines app \<Rightarrow> app_reach conf info app \<and>
         ExtractGameInfo (si_decoders io) (si_patch io (cc_GamePatchPath conf)) = Inr info)"
proof (cases "ParseConfig (si_confDir io) (si_parse io) (si_args io)")
  case (Inr conf)
  obtain r where r: "Connect (si_daemon io) (si_dial io) (si_events io) = Some r" using Connect_returns [OF assms] by blast
  then have "Run_client io conf \<noteq> None" by (auto simp: Run_client_def split: sum.splits)
  then consider err where "Run_client io conf = Some (Inl err)"
    | info lines app where "Run_client io conf = Some (Inr (info, lines, app))"
    by (metis option.exhaust prod.exhaust sum.exhaust)
  then show ?thesis
  proof cases
    case 2
    have "ExtractGameInfo (si_decoders io) (si_patch io (cc_GamePatchPath conf)) = Inr info"
      using 2 by (auto simp: Run_client_def split: sum.splits option.splits)
    with 2 Inr Run_client_init [OF 2] app_reach.init show ?thesis by (simp add: Start_def)
  qed (simp add: Start_def Inr)
qed (simp add: Start_def)

end
