(* ===== verification/Deadlines.thy ===== *)
theory Deadlines
  imports Protocol
begin

text \<open>
  The calls of \<^verbatim>\<open>shared/protocol/io.go\<close> that carry a deadline, and the clock behind them. Times are
  nanoseconds. A connection says when each byte from the peer is there to be read and when the stream
  ends; what a write can get rid of, and when, is an argument of the write. The caller runs as soon as
  it can. Shown: such a call always returns, at the latest at its deadline, and leaves no deadline
  behind; a packet that is there in time is received as by \<^const>\<open>RecvRaw\<close>; and the packets that the
  writing goroutine of the server sends when it is idle reach the peer often enough that a connection
  with nothing to say is not given up.
\<close>

section \<open>Connections\<close>

type_synonym time = int

abbreviation Second :: time where "Second \<equiv> 1000000000"

abbreviation ErrDeadlineExceeded :: go_error where "ErrDeadlineExceeded \<equiv> Errorf ''i/o timeout''"

record net_conn =
  nc_in :: "(time \<times> byte) list"
  nc_fin :: "(time \<times> go_error) option"
  nc_out :: bytes
  nc_readDeadline :: "time option"
  nc_writeDeadline :: "time option"

text \<open>The bytes that a reader gets before its deadline, and how its stream then ends, if it does.\<close>

definition readable :: "net_conn \<Rightarrow> (time \<times> byte) list" where
  "readable conn = (case nc_readDeadline conn of
      None \<Rightarrow> nc_in conn
    | Some d \<Rightarrow> takeWhile (\<lambda>tb. fst tb < d) (nc_in conn))"

definition stream_end :: "net_conn \<Rightarrow> (time \<times> go_error) option" where
  "stream_end conn =
     (case nc_readDeadline conn of
        None \<Rightarrow> nc_fin conn
      | Some d \<Rightarrow>
          (case nc_fin conn of
             Some (t, err) \<Rightarrow> if t < d \<and> readable conn = nc_in conn then Some (t, err) else Some (d, ErrDeadlineExceeded)
           | None \<Rightarrow> Some (d, ErrDeadlineExceeded)))"

text \<open>
  \<^verbatim>\<open>RecvRaw\<close> on such a connection, called at \<open>now\<close>, with the time at which it returns; \<^const>\<open>None\<close> when it
  waits for ever.
\<close>

definition conn_RecvRaw :: "time \<Rightarrow> net_conn \<Rightarrow> (time \<times> net_conn \<times> Packet result) option" where
  "conn_RecvRaw now conn =
     (let bs = readable conn in
      case RecvRaw (case stream_end conn of Some (t, err) \<Rightarrow> err | None \<Rightarrow> EOF) (map snd bs) of
        None \<Rightarrow> None
      | Some (Inl err) \<Rightarrow>
          (case stream_end conn of
             None \<Rightarrow> None
           | Some (t, _) \<Rightarrow> Some (max now t, conn\<lparr>nc_in := drop (length bs) (nc_in conn)\<rparr>, Inl err))
      | Some (Inr (pkt, rest)) \<Rightarrow>
          (let n = length bs - length rest
           in Some (max now (fst (bs ! (n - 1))), conn\<lparr>nc_in := drop n (nc_in conn)\<rparr>, Inr pkt)))"

text \<open>
  \<^verbatim>\<open>SendRaw\<close>: the network takes the bytes one by one at the times \<open>accepts\<close> (for ever none once the list
  is at its end).
\<close>

definition conn_SendRaw :: "time list \<Rightarrow> net_conn \<Rightarrow> Packet \<Rightarrow> (net_conn \<times> go_error option) option" where
  "conn_SendRaw accepts conn pkt =
     (let room = (case nc_writeDeadline conn of
            None \<Rightarrow> length accepts
          | Some d \<Rightarrow> length (takeWhile (\<lambda>t. t < d) accepts));
          r = (if 3 + length (pkt_Data pkt) \<le> room then WrOk else WrFail room)
      in if r \<noteq> WrOk \<and> length (pkt_Data pkt) \<le> 65535 \<and> nc_writeDeadline conn = None then None
         else case SendRaw r pkt of (bs, err) \<Rightarrow> Some (conn\<lparr>nc_out := nc_out conn @ bs\<rparr>, err))"

section \<open>Calls with a deadline\<close>

definition SendRawTimeout ::
    "time \<Rightarrow> time list \<Rightarrow> net_conn \<Rightarrow> Packet \<Rightarrow> time \<Rightarrow> (net_conn \<times> go_error option) option" where
  "SendRawTimeout now accepts conn pkt timeout =
     (let conn = conn\<lparr>nc_writeDeadline := Some (now + timeout)\<rparr>
      in case conn_SendRaw accepts conn pkt of
           None \<Rightarrow> None
         | Some (conn, err) \<Rightarrow> Some (conn\<lparr>nc_writeDeadline := None\<rparr>, err))"

definition SendRawTimeoutDefault ::
    "time \<Rightarrow> time list \<Rightarrow> net_conn \<Rightarrow> Packet \<Rightarrow> (net_conn \<times> go_error option) option" where
  "SendRawTimeoutDefault now accepts conn pkt = SendRawTimeout now accepts conn pkt (10 * Second)"

definition RecvRawTimeout :: "time \<Rightarrow> net_conn \<Rightarrow> time \<Rightarrow> (time \<times> net_conn \<times> Packet result) option" where
  "RecvRawTimeout now conn timeout =
     (let conn = conn\<lparr>nc_readDeadline := Some (now + timeout)\<rparr>
      in case conn_RecvRaw now conn of
           None \<Rightarrow> None
         | Some (t, conn, r) \<Rightarrow> Some (t, conn\<lparr>nc_readDeadline := None\<rparr>, r))"

definition RecvRawTimeoutDefault :: "time \<Rightarrow> net_conn \<Rightarrow> (time \<times> net_conn \<times> Packet result) option" where
  "RecvRawTimeoutDefault now conn = RecvRawTimeout now conn (10 * Second)"

section \<open>The loops around them\<close>

text \<open>
  The reading goroutines (\<^verbatim>\<open>handleMsgIn\<close> of the server, \<^verbatim>\<open>pumpIn\<close> of the client) as far as the clock goes:
  \<open>delays\<close> is how long each packet takes to be handed on. The packets received until the first error.
\<close>

fun recv_loop :: "time \<Rightarrow> time list \<Rightarrow> net_conn \<Rightarrow> Packet list" where
  "recv_loop now [] conn = []"
| "recv_loop now (delay # delays) conn =
     (case RecvRawTimeoutDefault now conn of
        Some (t, conn, Inr pkt) \<Rightarrow> pkt # recv_loop (t + delay) delays conn
      | _ \<Rightarrow> [])"

text \<open>
  The writing goroutine of the server, \<^verbatim>\<open>handleMsgOut\<close>, as far as the clock goes: given when packets are put
  into its channel, the packets it writes until \<open>stop\<close>, with their times. A write resets the timer; a
  write itself takes no time, and a packet that is there when the timer fires goes first.
\<close>

abbreviation nopInterval :: time where "nopInterval \<equiv> 3 * Second"

function msgOut_writes :: "time \<Rightarrow> time \<Rightarrow> (time \<times> Packet) list \<Rightarrow> (time \<times> Packet) list" where
  "msgOut_writes last_write stop [] =
     (if last_write + nopInterval \<le> stop
      then (last_write + nopInterval, \<lparr>pkt_Op = OpNOP, pkt_Data = []\<rparr>) # msgOut_writes (last_write + nopInterval) stop []
      else [])"
| "msgOut_writes last_write stop ((t, pkt) # queue) =
     (if t \<le> last_write + nopInterval then
        if t \<le> stop then (max t last_write, pkt) # msgOut_writes (max t last_write) stop queue else []
      else if last_write + nopInterval \<le> stop
      then (last_write + nopInterval, \<lparr>pkt_Op = OpNOP, pkt_Data = []\<rparr>) #
        msgOut_writes (last_write + nopInterval) stop ((t, pkt) # queue)
      else [])"
  by pat_completeness auto
termination
  by (relation "measures [\<lambda>(l, s, q). length q, \<lambda>(l, s, q). nat (s - l)]") auto

declare msgOut_writes.simps [simp del]

section \<open>A call returns by its deadline\<close>

lemma packet_bytes_length: "small_packet p \<Longrightarrow> length (packet_bytes p) = 3 + length (pkt_Data p)"
  by (simp add: packet_bytes put_lengths)

lemma stream_end_deadline:
  assumes "nc_readDeadline conn = Some d"
  obtains t err where "stream_end conn = Some (t, err)" "t \<le> d"
proof -
  have "\<exists>t err. stream_end conn = Some (t, err) \<and> t \<le> d" using assms by (auto simp: stream_end_def split: option.split)
  with that show thesis by blast
qed

lemma readable_deadline:
  "nc_readDeadline conn = Some d \<Longrightarrow> i < length (readable conn) \<Longrightarrow> fst (readable conn ! i) < d"
  by (metis (no_types, lifting) nth_mem option.simps(5) readable_def set_takeWhileD)

lemma conn_RecvRaw_returns:
  assumes "nc_readDeadline conn = Some d" "now \<le> d"
  shows "\<exists>t conn' r. conn_RecvRaw now conn = Some (t, conn', r) \<and> now \<le> t \<and> t \<le> d"
proof -
  obtain te err where e: "stream_end conn = Some (te, err)" "te \<le> d" using stream_end_deadline assms(1) .
  consider err' where "RecvRaw err (map snd (readable conn)) = Some (Inl err')"
    | pkt rest where "RecvRaw err (map snd (readable conn)) = Some (Inr (pkt, rest))"
    using RecvRaw_no_panic by (metis option.exhaust prod.exhaust sum.exhaust)
  then show ?thesis
  proof cases
    case 1
    with e assms(2) show ?thesis by (simp add: conn_RecvRaw_def Let_def)
  next
    case 2
    from RecvRaw_Inr [OF this] have "length (readable conn) = length (packet_bytes pkt) + length rest" "small_packet pkt"
      by (metis length_append length_map, simp)
    then have "length (readable conn) - length rest - 1 < length (readable conn)" by (simp add: packet_bytes_length)
    from readable_deadline [OF assms(1) this] 2 e assms(2) show ?thesis by (simp add: conn_RecvRaw_def Let_def)
  qed
qed

lemma recv_in_time:
  assumes "nc_in conn = zip ts (packet_bytes p) @ rest" "small_packet p" "length ts = length (packet_bytes p)"
    "\<forall>t\<in>set ts. t < now + timeout"
  shows "RecvRawTimeout now conn timeout = Some (max now (last ts), conn\<lparr>nc_in := rest, nc_readDeadline := None\<rparr>, Inr p)"
proof -
  let ?conn = "conn\<lparr>nc_readDeadline := Some (now + timeout)\<rparr>" let ?z = "zip ts (packet_bytes p)"
  let ?more = "takeWhile (\<lambda>tb. fst tb < now + timeout) rest"
  have n: "length ?z = length (packet_bytes p)" "0 < length ts" using assms(2,3) by (simp_all add: packet_bytes_length)
  have in_time: "\<forall>tb\<in>set ?z. fst tb < now + timeout" using assms(4) by (auto dest: set_zip_leftD)
  then have bs: "readable ?conn = ?z @ ?more" using assms(1) by (simp add: readable_def takeWhile_append2)
  have "map snd (readable ?conn) = packet_bytes p @ map snd ?more" unfolding bs using assms(3) by simp
  then have r: "RecvRaw err (map snd (readable ?conn)) = Some (Inr (p, map snd ?more))" for err
    using RecvRaw_packet [OF assms(2)] by simp
  have "last ts = ts ! (length (packet_bytes p) - 1)" using n(2) assms(3) last_conv_nth [of ts] by fastforce
  then have "fst ((?z @ ?more) ! (length ?z - 1)) = last ts"
    using n assms(3) by (simp add: nth_append)
  with r n assms(1) show ?thesis by (simp add: RecvRawTimeout_def conn_RecvRaw_def Let_def bs)
qed

section \<open>Keeping a connection alive\<close>

text \<open>Packets with the times at which their bytes can be read, and the bytes in their order.\<close>

definition wire :: "(time list \<times> Packet) list \<Rightarrow> (time \<times> byte) list" where
  "wire pkts = concat (map (\<lambda>(ts, p). zip ts (packet_bytes p)) pkts)"

text \<open>Each packet is whole within ten seconds of the one before it.\<close>

fun timely :: "time \<Rightarrow> (time list \<times> Packet) list \<Rightarrow> bool" where
  "timely prev [] \<longleftrightarrow> True"
| "timely prev ((ts, p) # pkts) \<longleftrightarrow> small_packet p \<and> length ts = length (packet_bytes p) \<and>
     (\<forall>t\<in>set ts. t < prev + 10 * Second) \<and> timely (last ts) pkts"

lemma timely_received:
  assumes "timely prev pkts" "prev \<le> now" "nc_in conn = wire pkts @ rest" "length delays = length pkts"
    "\<forall>d\<in>set delays. 0 \<le> d"
  shows "recv_loop now delays conn = map snd pkts"
  using assms
proof (induction pkts arbitrary: prev now conn delays)
  case (Cons tp pkts)
  obtain ts p where tp: "tp = (ts, p)" by fastforce
  obtain d ds where ds: "delays = d # ds" "0 \<le> d" using Cons.prems(4,5) by (cases delays) auto
  have "RecvRawTimeout now conn (10 * Second) =
      Some (max now (last ts), conn\<lparr>nc_in := wire pkts @ rest, nc_readDeadline := None\<rparr>, Inr p)"
    by (rule recv_in_time) (use Cons.prems(1-3) tp in \<open>fastforce simp: wire_def\<close>)+
  moreover have "recv_loop (max now (last ts) + d) ds (conn\<lparr>nc_in := wire pkts @ rest, nc_readDeadline := None\<rparr>) = map snd pkts"
    by (rule Cons.IH [of "last ts"]) (use Cons.prems tp ds in simp_all)
  ultimately show ?case by (simp add: ds tp RecvRawTimeoutDefault_def)
qed simp

text \<open>The writes of the server: the first comes within the interval, and each within it of the one before.\<close>

fun spaced :: "time \<Rightarrow> (time \<times> 'a) list \<Rightarrow> bool" where
  "spaced prev [] \<longleftrightarrow> True"
| "spaced prev ((t, x) # xs) \<longleftrightarrow> prev \<le> t \<and> t \<le> prev + nopInterval \<and> spaced t xs"

lemma msgOut_spaced: "spaced l (msgOut_writes l stop queue)"
proof (induction l stop queue rule: msgOut_writes.induct)
  case (1 l stop)
  then show ?case by (subst msgOut_writes.simps) simp
next
  case (2 l stop t pkt queue)
  then show ?case by (subst msgOut_writes.simps) simp
qed

text \<open>Nothing that is queued in time is left out, and only empty packets are added.\<close>

lemma msgOut_complete:
  assumes "\<forall>(t, p)\<in>set queue. t \<le> stop" "l \<le> stop"
  shows "filter (\<lambda>p. pkt_Op p \<noteq> OpNOP) (map snd (msgOut_writes l stop queue)) =
     filter (\<lambda>p. pkt_Op p \<noteq> OpNOP) (map snd queue)"
  using assms
proof (induction l stop queue rule: msgOut_writes.induct)
  case (1 l stop)
  then show ?case by (subst msgOut_writes.simps) simp
next
  case (2 l stop t pkt queue)
  then show ?case by (subst msgOut_writes.simps) auto
qed

text \<open>What was written at \<open>w\<close> can be read between \<open>w\<close> and \<open>w + latency\<close>.\<close>

definition delivered :: "time \<Rightarrow> (time \<times> Packet) \<Rightarrow> (time list \<times> Packet) \<Rightarrow> bool" where
  "delivered latency wp tp \<longleftrightarrow> snd tp = snd wp \<and> small_packet (snd wp) \<and> length (fst tp) = length (packet_bytes (snd wp)) \<and>
     (\<forall>t\<in>set (fst tp). fst wp \<le> t \<and> t \<le> fst wp + latency)"

lemma spaced_timely:
  assumes "spaced w0 ws" "list_all2 (delivered latency) ws pkts" "latency < 7 * Second" "w0 \<le> prev"
  shows "timely prev pkts"
  using assms(2,1,4)
proof (induction ws pkts arbitrary: w0 prev rule: list_all2_induct)
  case (Cons wp ws tp pkts)
  obtain w p where wp: "wp = (w, p)" by fastforce
  obtain ts where tp: "tp = (ts, p)" and d: "small_packet p" "length ts = length (packet_bytes p)"
    "\<forall>t\<in>set ts. w \<le> t \<and> t \<le> w + latency"
    using Cons.hyps(1) wp by (cases tp) (auto simp: delivered_def)
  have "ts \<noteq> []" using d(1,2) by (auto simp: packet_bytes_length)
  then have "timely (last ts) pkts" using Cons.prems(1) wp d(3) by (intro Cons.IH [of w]) auto
  moreover have "t < prev + 10 * Second" if "t \<in> set ts" for t
    using that d(3) Cons.prems wp assms(3) by fastforce
  ultimately show ?case using tp d by simp
qed simp

section \<open>Writing by a deadline\<close>

lemma SendRaw_parts:
  assumes "small_packet pkt"
  shows "SendRaw WrOk pkt = (packet_bytes pkt, None)" "SendRaw (WrFail n) pkt = (take n (packet_bytes pkt), Some (SysErr 5))"
  using assms by (simp_all add: small_packet_def SendRaw_def packet_bytes_def Let_def)

section \<open>Properties\<close>

text \<open>C15: A receive with a deadline always returns, not later than the deadline, and a send does too; neither
  leaves its deadline on the connection. The packet whose bytes are all there before the deadline is
  what the receive returns, with exactly its bytes taken.\<close>

theorem timeouts_bound:
  assumes "0 \<le> timeout"
  shows "\<exists>t conn' r. RecvRawTimeout now conn timeout = Some (t, conn', r) \<and> now \<le> t \<and> t \<le> now + timeout \<and>
      nc_readDeadline conn' = None \<and>
      (\<forall>ts p rest. nc_in conn = zip ts (packet_bytes p) @ rest \<and> small_packet p \<and> length ts = length (packet_bytes p) \<and>
        (\<forall>x\<in>set ts. x < now + timeout) \<longrightarrow> r = Inr p \<and> nc_in conn' = rest)"
proof -
  let ?conn = "conn\<lparr>nc_readDeadline := Some (now + timeout)\<rparr>"
  obtain t conn' r where c: "conn_RecvRaw now ?conn = Some (t, conn', r)" "now \<le> t" "t \<le> now + timeout"
    using conn_RecvRaw_returns [of ?conn "now + timeout" now] assms by auto
  then have *: "RecvRawTimeout now conn timeout = Some (t, conn'\<lparr>nc_readDeadline := None\<rparr>, r)"
    by (simp add: RecvRawTimeout_def)
  have "r = Inr p \<and> nc_in (conn'\<lparr>nc_readDeadline := None\<rparr>) = rest"
    if "nc_in conn = zip ts (packet_bytes p) @ rest" "small_packet p" "length ts = length (packet_bytes p)"
      "\<forall>x\<in>set ts. x < now + timeout" for ts p rest
    using recv_in_time [OF that] * by (cases conn; cases conn') auto
  with * c(2,3) show ?thesis by auto
qed

text \<open>A send with a deadline always returns and leaves no deadline behind: either the network took the
  whole packet in time and the whole packet is on the wire, or the caller gets an error and only a
  part of the packet, or nothing, is.\<close>

theorem send_timeout_exact:
  assumes "small_packet pkt"
  shows "\<exists>conn' err. SendRawTimeout now accepts conn pkt timeout = Some (conn', err) \<and> nc_writeDeadline conn' = None \<and>
    (if length (packet_bytes pkt) \<le> length (takeWhile (\<lambda>t. t < now + timeout) accepts)
     then err = None \<and> nc_out conn' = nc_out conn @ packet_bytes pkt
     else err \<noteq> None \<and> (\<exists>part. strict_prefix part (packet_bytes pkt) \<and> nc_out conn' = nc_out conn @ part))"
proof -
  let ?room = "length (takeWhile (\<lambda>t. t < now + timeout) accepts)"
  show ?thesis
  proof (cases "length (packet_bytes pkt) \<le> ?room")
    case True
    with assms show ?thesis
      by (simp add: SendRawTimeout_def conn_SendRaw_def SendRaw_parts packet_bytes_length)
  next
    case False
    then have "strict_prefix (take ?room (packet_bytes pkt)) (packet_bytes pkt)"
      by (metis nat_le_linear strict_prefixI take_all_iff take_is_prefix)
    with False assms show ?thesis
      by (auto simp: SendRawTimeout_def conn_SendRaw_def SendRaw_parts packet_bytes_length)
  qed
qed


section \<open>Examples\<close>

definition nop :: Packet where
  "nop = \<lparr>pkt_Op = OpNOP, pkt_Data = []\<rparr>"

lemma nop_bytes: "packet_bytes nop = [0, 0, 0]" "small_packet nop"
  by (simp_all add: nop_def packet_bytes_def SendRaw_def Let_def copy_into_def LE_PutUint16_def OpNOP_def small_packet_def)

definition example_conn :: "(time list \<times> Packet) list \<Rightarrow> net_conn" where
  "example_conn pkts = \<lparr>nc_in = wire pkts, nc_fin = None, nc_out = [], nc_readDeadline = None, nc_writeDeadline = None\<rparr>"

theorem timeouts_bound_witness:
  "\<exists>t conn'. RecvRawTimeout 5 (example_conn [([6, 7, 9], nop)]) (10 * Second) = Some (t, conn', Inr nop) \<and> nc_in conn' = []"
proof -
  let ?conn = "example_conn [([6, 7, 9], nop)]"
  obtain t conn' r where c: "RecvRawTimeout 5 ?conn (10 * Second) = Some (t, conn', r)"
    and r: "\<And>ts p rest. nc_in ?conn = zip ts (packet_bytes p) @ rest \<and> small_packet p \<and> length ts = length (packet_bytes p) \<and>
        (\<forall>x\<in>set ts. x < 5 + 10 * Second) \<longrightarrow> r = Inr p \<and> nc_in conn' = rest"
    using timeouts_bound [of "10 * Second" 5 ?conn] by auto
  have "r = Inr nop \<and> nc_in conn' = []"
    using r [of "[6, 7, 9]" nop "[]"] by (simp add: nop_bytes example_conn_def wire_def)
  with c show ?thesis by simp
qed

theorem send_timeout_exact_witness:
  "\<exists>conn' err part. SendRawTimeout 5 [6, 7] (example_conn []) nop 1 = Some (conn', err) \<and> err \<noteq> None \<and>
     strict_prefix part (packet_bytes nop) \<and> nc_out conn' = part"
  using send_timeout_exact [OF nop_bytes(2), of 5 "[6, 7]" "example_conn []" 1]
  by (auto simp: nop_bytes(1) example_conn_def)


end
