(* ===== verification/Spec2Isabelle.thy ===== *)
theory Spec2Isabelle
  imports World Programs Deadlines
begin

text \<open>
  \<^bold>\<open>Verification of the OoTMM multiplayer client and server.\<close>

  \<^bold>\<open>The program.\<close> Players of one session each run a game in an emulator beside a client. The game talks to
  the client over a unix socket or a named pipe (\<^verbatim>\<open>client/internal/ipc\<close>); the client talks to a server
  over TCP (\<^verbatim>\<open>shared/protocol\<close>). What the players find goes into a write-ahead log (\<^verbatim>\<open>shared/wal\<close>) that
  the server keeps for the session and every client replicates. An item or event that a game reports
  is stored in the client's send queue (\<^verbatim>\<open>client/internal/game/send_queue.go\<close>), acknowledged to the game,
  and sent to the server again and again until its key is acknowledged. The server appends it unless
  its deduplication key is known, acknowledges the key, and streams its log to every client from the
  index in the client's hello on. Clients append what they receive and hand it to the game 16 entries
  at a time. Positions of players travel beside the log, unreliably. A tracker daemon on the player's
  machine (\<^verbatim>\<open>client/internal/daemon\<close>) passes events on to web pages, and the server publishes events to
  a NATS broker (\<^verbatim>\<open>server/internal/events\<close>).

  \<^bold>\<open>Theories, in the order of their imports.\<close>
  \<^item> \<open>Prelude\<close>, \<open>Interfaces\<close>: machine integers, errors and panics as values, slices, \<^verbatim>\<open>encoding/binary\<close>,
    \<^verbatim>\<open>io.ReadFull\<close>; the interfaces that several components provide, as locales: byte codecs
    (\<open>msg_codec\<close>, \<open>exact_codec\<close>, \<open>layout_codec\<close>), framed streams (\<open>framed_stream\<close>), files of records
    (\<open>record_log\<close>), runs that keep an invariant (\<open>step_invariant\<close>) and can always come to rest (\<open>progress\<close>).
    The interfaces of one component are in its theory: \<open>word_codec\<close> (\<open>Prelude\<close>), \<open>dedup_log\<close>
    (\<open>Wal\<close>), \<open>ack_queue\<close> (\<open>SendQueue\<close>), \<open>bounded_fifo\<close> (\<open>GoChan\<close>). Each is interpreted on the definitions
    of the component that provides it, and the properties use its facts.
  \<^item> \<open>WalEntry\<close> (\<^verbatim>\<open>types.go\<close>, \<^verbatim>\<open>serialize.go\<close>, \<^verbatim>\<open>key.go\<close>): entries, their bytes and keys.
  \<^item> \<open>OsFile\<close>: a file with an offset; every system call has an outcome that the caller chooses.
  \<^item> \<open>Wal\<close>, \<open>WalStream\<close> (\<^verbatim>\<open>wal.go\<close>): opening, appending with rollback, reading; \<^verbatim>\<open>Next\<close> of a stream as a
    step relation interleaved with other goroutines.
  \<^item> \<open>Protocol\<close> (\<^verbatim>\<open>opcodes.go\<close>, \<^verbatim>\<open>packet.go\<close>, \<^verbatim>\<open>io.go\<close>): packets, bodies, framing. \<open>Deadlines\<close>: the calls of
    \<^verbatim>\<open>io.go\<close> that carry a deadline, on a connection with a clock, and the keep-alives of the server.
  \<^item> \<open>SendQueue\<close>, \<open>PositionSystem\<close>, \<open>GameInfo\<close> (\<^verbatim>\<open>client/internal/game\<close>): the queue of reports with its file,
    the table of other players, what is read from the patch file.
  \<^item> \<open>IpcMsg\<close>, \<open>IpcConn\<close> (\<^verbatim>\<open>client/internal/ipc\<close>): messages of the game, the unix socket, finding games, the
    named pipes of Windows.
  \<^item> \<open>GoChan\<close>: buffered channels and the forms of \<^verbatim>\<open>select\<close> the sources use.
  \<^item> \<open>DataPath\<close>, \<open>Config\<close>: data directories, flags, the choice of program, the Windows file association.
  \<^item> \<open>EventSink\<close>, \<open>ServerSession\<close>, \<open>ServerApp\<close>, \<open>ServerPlayers\<close>, \<open>ServerRun\<close> (\<^verbatim>\<open>server/internal\<close>): the
    event sink, a session with the goroutines of its players, the table of sessions with the goroutines of its clients and the accept
    loop, the players of its sessions, and the whole run of the server from \<^verbatim>\<open>main\<close> to its end.
  \<^item> \<open>Daemon\<close>, \<open>DaemonServe\<close>, \<open>DaemonConn\<close> (\<^verbatim>\<open>client/internal/daemon\<close>): messages and subscribers of the daemon, its
    connections, HTTP routes and web sockets, and the client's connection to it.
  \<^item> \<open>GameSession\<close>, \<open>Uplink\<close> (\<^verbatim>\<open>session.go\<close>, \<^verbatim>\<open>uplink.go\<close>): every handler of the client, and the goroutines that
    call them as a step relation with a program counter each.
  \<^item> \<open>Replication\<close>, \<open>World\<close>: one server session, any number of clients, and the network between them.
    \<open>Replication\<close> has the invariant of a client, \<open>World\<close> the steps of the whole system.
  \<^item> \<open>ClientSafety\<close>, \<open>ClientApp\<close>: one client against an arbitrary server and network, and the client program
    around its sessions (\<^verbatim>\<open>client/internal/app/app.go\<close>); \<open>Programs\<close>: the way from its arguments to its loop.

  \<^bold>\<open>How the model is built.\<close> A struct is a record, a function that cannot wait is a HOL function on the
  state, and a goroutine is a step relation in which every channel operation, every critical section
  and every handled message is one step. A handler is one step because the code it shares data with
  either takes the same mutex or only looks at what one atomic operation wrote. Errors are values of
  \<^typ>\<open>go_error\<close>, a panic is \<^const>\<open>None\<close>. The disk, the network, the clock, the order in which Go ranges over
  a map and the case a \<^verbatim>\<open>select\<close> picks are arguments or free choices of a step, so that a theorem about all
  runs covers all of their behaviours: writes that stop half-way, syncs and truncations that fail,
  connections that break between any two packets, clients and servers that restart from their files.

  \<^bold>\<open>What is shown.\<close>
  \<^item> The whole system: the log of every client is at every moment a prefix of the server's log and has no
    duplicates; a report stays in the queue of its client until the server's log has its key; when
    everything that was sent has been handled, the logs are equal.
  \<^item> The log: \<^verbatim>\<open>Append\<close> refines the abstract append without duplicates, is undone on disk when it fails, and
    the file opens to the same entries; streams deliver every entry once, in order, and lose no wake-up.
  \<^item> The queue: it is a map, survives restarts, and what the write that fails half-way leaves behind.
  \<^item> Codecs: every parser accepts exactly the serialisations of well-formed values, none panics except the
    one of \<^verbatim>\<open>INFO_ITEM\<close>, framed messages arrive in order up to a cut.
  \<^item> The server: acknowledgements only for stored entries, streams without gaps, use counts, secrets; when its
    context ends it can always finish, and it returns only when nothing of it is left; its events.
  \<^item> The clock: a call with a deadline returns by it, and keep-alives are frequent enough for the deadline.
  \<^item> The client: packets the server can parse, bounded channels, exactly when it panics, sequence numbers,
    windows of the log, local ids of players, sessions that can always end, connections to games.
  \<^item> The daemon and the sink: no panic, messages in order, web sockets that can always leave.

  \<^bold>\<open>Bounds and fuel.\<close> Loops over a file recurse on the bytes that are left and have a termination proof.
  \<open>read_frames\<close> reads frame after frame with fuel; one more than the number of frames is enough, and the
  theorems that use it say so. Indices are 32-bit words: theorems about them assume fewer than \<open>2^32\<close>
  entries, which at 30 bytes each is 128 GB of log, and the one about local ids at most 65534 players.

  \<^bold>\<open>Not modelled.\<close> In the step relations deadlines and timers are the moment at which a step fails or a tick
  comes, not times; times are in \<open>Deadlines\<close> and in the 250 ms between position events. Log output is left
  out, and what is printed is only the banner. Liveness is the existence of a run to the end from every
  reachable state, not fairness of the scheduler. Libraries outside the repository are parameters: NATS,
  flag parsing, JSON, zip, web sockets, colours, the file lock, the Windows API and registry.
\<close>

end
